(* ===== verification/Xp_Prelude.thy ===== *)
theory Xp_Prelude
  imports
    Main
    "HOL-Library.Word"
    "HOL-Library.Char_ord"
    "HOL-Library.List_Lexorder"
    "HOL-Library.Product_Lexorder"
begin

text \<open>
  Shared vocabulary of the development: the machine integers of the Rust sources, results as
  sums, the saturating operations of the Rust standard library, the run of a command log, and
  the generic lemmas the component theories rest on.

  A Rust \<^verbatim>\<open>Result<T, E>\<close> is \<open>'e + 'a\<close> with \<open>Inl\<close> for the error. A
  Rust function on \<^verbatim>\<open>&mut S\<close> returning a \<^verbatim>\<open>Result\<close> is a function to
  \<open>('e + 'a) \<times> 's\<close>: the state is returned on the error branches too, so that "an
  error leaves the state as it was" is a theorem about the code and not a consequence of the
  type.
\<close>

type_synonym u8 = "8 word"
type_synonym u16 = "16 word"
type_synonym u32 = "32 word"
type_synonym u64 = "64 word"
type_synonym u128 = "128 word"

type_synonym ('s, 'e, 'a) handler = "'s \<Rightarrow> ('e + 'a) \<times> 's"

text \<open>Collections: inversion facts of results, word facts, and string facts.\<close>

named_theorems result_simps \<open>evaluation of the result combinators\<close>
named_theorems word_facts \<open>machine-integer operations read as natural numbers\<close>
named_theorems bt_simps \<open>lookups in ordered maps\<close>

section \<open>Results\<close>

text \<open>The \<^verbatim>\<open>?\<close> operator: go on with the value, return the error.\<close>

definition and_then :: "'e + 'a \<Rightarrow> ('a \<Rightarrow> 'e + 'b) \<Rightarrow> 'e + 'b" where
  "and_then r f = (case r of Inl e \<Rightarrow> Inl e | Inr a \<Rightarrow> f a)"

definition map_err :: "('e \<Rightarrow> 'f) \<Rightarrow> 'e + 'a \<Rightarrow> 'f + 'a" where
  "map_err f r = (case r of Inl e \<Rightarrow> Inl (f e) | Inr a \<Rightarrow> Inr a)"

definition is_ok :: "'e + 'a \<Rightarrow> bool" where
  "is_ok r = (case r of Inl _ \<Rightarrow> False | Inr _ \<Rightarrow> True)"

text \<open>A loop whose body only checks: it stops at the first element that is refused.\<close>

fun check_each :: "('a \<Rightarrow> 'e + unit) \<Rightarrow> 'a list \<Rightarrow> 'e + unit" where
  "check_each f [] = Inr ()"
| "check_each f (x # xs) = (case f x of Inl e \<Rightarrow> Inl e | Inr _ \<Rightarrow> check_each f xs)"

lemma and_then_simps [simp, result_simps]:
  "and_then (Inl e) f = Inl e"
  "and_then (Inr a) f = f a"
  by (simp_all add: and_then_def)

lemma map_err_simps [simp, result_simps]:
  "map_err f (Inl e) = Inl (f e)"
  "map_err f (Inr a) = Inr a"
  by (simp_all add: map_err_def)

lemma is_ok_simps [simp, result_simps]: "is_ok (Inr a)" "\<not> is_ok (Inl e)"
  by (simp_all add: is_ok_def)

lemma and_then_Inr_iff: "and_then r f = Inr b \<longleftrightarrow> (\<exists>a. r = Inr a \<and> f a = Inr b)"
  by (cases r) auto

lemma map_err_Inr_iff [simp]: "map_err f r = Inr a \<longleftrightarrow> r = Inr a"
  by (cases r) auto

lemma is_ok_iff: "is_ok r \<longleftrightarrow> (\<exists>a. r = Inr a)"
  by (cases r) auto

lemma check_each_ok_iff: "check_each f xs = Inr () \<longleftrightarrow> (\<forall>x\<in>set xs. f x = Inr ())"
  by (induction xs) (auto split: sum.splits)

lemma check_each_Inl: "check_each f xs = Inl e \<Longrightarrow> \<exists>x\<in>set xs. f x = Inl e"
  by (induction xs) (auto split: sum.splits)

text \<open>
  The \<^verbatim>\<open>?\<close> operator inside a function on \<^verbatim>\<open>&mut S\<close>: an error returns with
  the state as it is at that point.
\<close>

definition try_in :: "'s \<Rightarrow> 'e + 'a \<Rightarrow> ('a \<Rightarrow> ('e + 'b) \<times> 's) \<Rightarrow> ('e + 'b) \<times> 's" where
  "try_in s r f = (case r of Inl e \<Rightarrow> (Inl e, s) | Inr a \<Rightarrow> f a)"

lemma try_in_simps [simp, result_simps]:
  "try_in s (Inl e) f = (Inl e, s)"
  "try_in s (Inr a) f = f a"
  by (simp_all add: try_in_def)

lemma try_in_Inr_iff: "try_in s r f = (Inr b, s') \<longleftrightarrow> (\<exists>a. r = Inr a \<and> f a = (Inr b, s'))"
  by (cases r) auto

lemma try_in_Inl_iff:
  "try_in s r f = (Inl e, s') \<longleftrightarrow> r = Inl e \<and> s' = s \<or> (\<exists>a. r = Inr a \<and> f a = (Inl e, s'))"
  by (cases r) auto

section \<open>Saturating machine arithmetic\<close>

text \<open>\<^verbatim>\<open>saturating_add\<close>, \<^verbatim>\<open>saturating_sub\<close> and \<^verbatim>\<open>checked_sub\<close> of the
  unsigned integers.\<close>

definition sat_add :: "'a::len word \<Rightarrow> 'a word \<Rightarrow> 'a word" where
  "sat_add a b = (if unat a + unat b < 2 ^ LENGTH('a) then a + b else - 1)"

definition sat_sub :: "'a::len word \<Rightarrow> 'a word \<Rightarrow> 'a word" where
  "sat_sub a b = (if b \<le> a then a - b else 0)"

definition checked_sub :: "'a::len word \<Rightarrow> 'a word \<Rightarrow> 'a word option" where
  "checked_sub a b = (if b \<le> a then Some (a - b) else None)"

lemma unat_max_word: "unat (- 1 :: 'a::len word) = 2 ^ LENGTH('a) - 1"
  by (simp add: unsigned_minus_1_eq_mask mask_eq_exp_minus_1)

lemma unat_sat_add [word_facts]:
  "unat (sat_add a b) = min (unat a + unat b) (2 ^ LENGTH('a) - 1)"
  for a b :: "'a::len word"
proof (cases "unat a + unat b < 2 ^ LENGTH('a)")
  case True
  then show ?thesis by (simp add: sat_add_def unat_word_ariths)
next
  case False
  then show ?thesis by (simp add: sat_add_def unat_max_word)
qed

lemma unat_sat_sub [word_facts]: "unat (sat_sub a b) = unat a - unat b"
  by (auto simp: sat_sub_def unat_sub word_le_nat_alt)

lemma checked_sub_Some_iff:
  "checked_sub a b = Some c \<longleftrightarrow> b \<le> a \<and> c = a - b"
  by (auto simp: checked_sub_def)

lemma sat_add_0 [simp]: "sat_add a 0 = a"
  by (simp add: sat_add_def)

lemma sat_sub_0 [simp]: "sat_sub a 0 = a"
  by (simp add: sat_sub_def)

lemma unat_less_pow: "unat (a :: 'a::len word) < 2 ^ LENGTH('a)"
  by (rule unsigned_less)

lemma unat_le_max: "unat (a :: 'a::len word) \<le> 2 ^ LENGTH('a) - 1"
  using unat_less_pow [of a] by linarith

lemma sat_add_mono: "a \<le> sat_add a b"
  using unat_le_max [of a] unfolding word_le_nat_alt unat_sat_add by linarith

lemma max_word_unat [word_facts]: "unat (max a b) = max (unat a) (unat b)" for a b :: "'a::len word"
  by (simp add: max_def word_le_nat_alt)

lemma min_word_unat [word_facts]: "unat (min a b) = min (unat a) (unat b)" for a b :: "'a::len word"
  by (simp add: min_def word_le_nat_alt)

section \<open>Association lists\<close>

lemma map_of_rev_distinct:
  "distinct (map fst xs) \<Longrightarrow> map_of (rev xs) = map_of xs"
  by (rule map_of_eqI) (auto simp: rev_map [symmetric] map_of_eq_Some_iff intro!: map_of_is_SomeI)

lemma map_of_filter_distinct:
  "distinct (map fst xs) \<Longrightarrow>
    map_of (filter keep xs) k = Option.bind (map_of xs k) (\<lambda>v. if keep (k, v) then Some v else None)"
proof (induction xs)
  case (Cons x xs)
  then have "map_of xs (fst x) = None" by (simp add: map_of_eq_None_iff image_iff)
  with Cons show ?case by (cases x) (auto split: option.splits)
qed simp

section \<open>Decimal output\<close>

text \<open>Formatting of an unsigned integer with \<^verbatim>\<open>{}\<close>.\<close>

definition digit_char :: "nat \<Rightarrow> char" where
  "digit_char d = ''0123456789'' ! d"

fun show_nat :: "nat \<Rightarrow> string" where
  "show_nat n = (if n < 10 then [digit_char n] else show_nat (n div 10) @ [digit_char (n mod 10)])"

declare show_nat.simps [simp del]

definition show_word :: "'a::len word \<Rightarrow> string" where
  "show_word w = show_nat (unat w)"

section \<open>Runs of a command log\<close>

text \<open>
  The state machine of the cluster is driven by a log of commands; \<open>run_log\<close> is the state
  after a log, whatever the outcome of each command was.
\<close>

primrec run_log :: "('c \<Rightarrow> ('s, 'e, 'r) handler) \<Rightarrow> 'c list \<Rightarrow> 's \<Rightarrow> 's" where
  "run_log step [] s = s"
| "run_log step (c # cs) s = run_log step cs (snd (step c s))"

text \<open>The commands of a log that succeed when they are reached.\<close>

primrec accepted :: "('c \<Rightarrow> ('s, 'e, 'r) handler) \<Rightarrow> 'c list \<Rightarrow> 's \<Rightarrow> 'c list" where
  "accepted step [] s = []"
| "accepted step (c # cs) s =
     (if is_ok (fst (step c s)) then c # accepted step cs (snd (step c s))
      else accepted step cs (snd (step c s)))"

text \<open>A log each of whose commands satisfies a condition on the command and the state it meets.\<close>

primrec admissible :: "('c \<Rightarrow> ('s, 'e, 'r) handler) \<Rightarrow> ('c \<Rightarrow> 's \<Rightarrow> bool) \<Rightarrow> 'c list \<Rightarrow> 's \<Rightarrow> bool" where
  "admissible step ok [] s = True"
| "admissible step ok (c # cs) s = (ok c s \<and> admissible step ok cs (snd (step c s)))"

lemma admissible_True [simp]: "admissible step (\<lambda>_ _. True) cs s"
  by (induction cs arbitrary: s) simp_all

lemma admissible_append:
  "admissible step ok (xs @ ys) s \<longleftrightarrow> admissible step ok xs s \<and> admissible step ok ys (run_log step xs s)"
  by (induction xs arbitrary: s) auto

lemma run_log_append: "run_log step (xs @ ys) s = run_log step ys (run_log step xs s)"
  by (induction xs arbitrary: s) auto

text \<open>
  What a client of a state machine asks of it: every admissible command keeps the invariant. The
  law for one command lifts to logs, and to every intermediate state of a log. \<open>ok\<close> says which
  commands may meet which state (a command carries values whose types have invariants of their own,
  and identifiers its author has to choose fresh).
\<close>

locale invariant_machine =
  fixes step :: "'c \<Rightarrow> ('s, 'e, 'r) handler"
    and ok :: "'c \<Rightarrow> 's \<Rightarrow> bool"
    and inv :: "'s \<Rightarrow> bool"
  assumes step_inv: "\<lbrakk>ok c s; inv s\<rbrakk> \<Longrightarrow> inv (snd (step c s))"
begin

lemma run_inv: "\<lbrakk>admissible step ok cs s; inv s\<rbrakk> \<Longrightarrow> inv (run_log step cs s)"
  by (induction cs arbitrary: s) (auto intro: step_inv)

lemma run_inv_prefix: "\<lbrakk>admissible step ok (xs @ ys) s; inv s\<rbrakk> \<Longrightarrow> inv (run_log step xs s)"
  by (auto intro: run_inv simp: admissible_append)

end

text \<open>
  A state machine whose failing commands change nothing: the replicas that replay a log and
  those that see only its accepted commands agree.
\<close>

locale atomic_machine =
  fixes step :: "'c \<Rightarrow> ('s, 'e, 'r) handler"
  assumes step_atomic: "fst (step c s) = Inl e \<Longrightarrow> snd (step c s) = s"
begin

lemma step_rejected: "\<not> is_ok (fst (step c s)) \<Longrightarrow> snd (step c s) = s"
  by (cases "fst (step c s)") (auto intro: step_atomic)

lemma run_accepted: "run_log step (accepted step cs s) s = run_log step cs s"
  by (induction cs arbitrary: s) (auto simp: step_rejected)

lemma accepted_idem: "accepted step (accepted step cs s) s = accepted step cs s"
  by (induction cs arbitrary: s) (auto simp: step_rejected)

end

text \<open>
  A quantity that no command decreases, read in a preorder: it never decreases along a log.
\<close>

locale monotone_machine =
  fixes step :: "'c \<Rightarrow> ('s, 'e, 'r) handler"
    and ok :: "'c \<Rightarrow> 's \<Rightarrow> bool"
    and inv :: "'s \<Rightarrow> bool"
    and le :: "'s \<Rightarrow> 's \<Rightarrow> bool"
  assumes step_keeps: "\<lbrakk>ok c s; inv s\<rbrakk> \<Longrightarrow> inv (snd (step c s))"
    and le_refl: "le s s"
    and le_trans: "le s t \<Longrightarrow> le t u \<Longrightarrow> le s u"
    and step_le: "\<lbrakk>ok c s; inv s\<rbrakk> \<Longrightarrow> le s (snd (step c s))"
begin

lemma run_le: "\<lbrakk>admissible step ok cs s; inv s\<rbrakk> \<Longrightarrow> le s (run_log step cs s)"
proof (induction cs arbitrary: s)
  case Nil
  show ?case by (simp add: le_refl)
next
  case (Cons c cs)
  then have ok: "ok c s" "admissible step ok cs (snd (step c s))" by simp_all
  have "le s (snd (step c s))" by (rule step_le [OF ok(1) Cons.prems(2)])
  moreover have "le (snd (step c s)) (run_log step cs (snd (step c s)))"
    by (rule Cons.IH [OF ok(2) step_keeps [OF ok(1) Cons.prems(2)]])
  ultimately show ?case by (auto intro: le_trans)
qed

end

sublocale monotone_machine \<subseteq> invariant_machine step ok inv
  by unfold_locales (rule step_keeps)

end
