(* ===== verification/Xp_Quota_Policy.thy ===== *)
theory Xp_Quota_Policy
  imports Xp_Prelude
begin

text \<open>
  The shared-quota arithmetic of \<^verbatim>\<open>quota_policy.rs\<close>: the distributable part of a node
  quota, the allocation of a total by weights, and the daily token bank with its carry-over
  cap. All quantities keep the widths of the source; the products of the allocation are
  128 bits wide.
\<close>

section \<open>Operations\<close>

definition DEFAULT_USER_NODE_WEIGHT :: u16 where
  "DEFAULT_USER_NODE_WEIGHT = 100"

definition buffer_bytes :: "u64 \<Rightarrow> u64" where
  "buffer_bytes quota_limit_bytes = max (256 * 1024 * 1024) (quota_limit_bytes div 200)"

definition distributable_bytes :: "u64 \<Rightarrow> u64" where
  "distributable_bytes quota_limit_bytes =
     (if quota_limit_bytes = 0 then 0
      else sat_sub quota_limit_bytes (buffer_bytes quota_limit_bytes))"

definition effective_weights :: "('i \<times> u16) list \<Rightarrow> u64 list" where
  "effective_weights items =
     (let weights = map (\<lambda>(_, w). ucast w :: u64) items
      in if sum_list weights = 0 then map (\<lambda>_. 1) weights else weights)"

definition add_to_items :: "u64 \<Rightarrow> nat list \<Rightarrow> ('i \<times> u64) list \<Rightarrow> ('i \<times> u64) list" where
  "add_to_items d idxs out =
     fold (\<lambda>idx out. out[idx := (fst (out ! idx), sat_add (snd (out ! idx)) d)]) idxs out"

definition allocate_total_by_weight :: "u64 \<Rightarrow> ('i \<times> u16) list \<Rightarrow> ('i \<times> u64) list" where
  "allocate_total_by_weight total_bytes items =
     (if items = [] then []
      else
        let weights = effective_weights items;
            sum_w = sum_list weights;
            v128s = map (\<lambda>w. (ucast total_bytes * ucast w) div ucast sum_w :: u128) weights;
            out = map2 (\<lambda>(i, _) v. (i, ucast v :: u64)) items v128s;
            allocated = fold (\<lambda>v a. sat_add a v) v128s 0;
            rem = ucast (sat_sub (ucast total_bytes) allocated) :: u64
        in if 0 < rem then
             let eligible = filter (\<lambda>idx. 0 < weights ! idx) [0..<length weights];
                 n = of_nat (length eligible) :: u64
             in if n = 0 then out
                else
                  let per = rem div n;
                      extra = rem mod n;
                      out = (if 0 < per then add_to_items per eligible out else out)
                  in add_to_items 1 (take (unat extra) eligible) out
           else out)"

definition daily_credit_bytes :: "u64 \<Rightarrow> u32 \<Rightarrow> u32 \<Rightarrow> u64" where
  "daily_credit_bytes base_quota_bytes cycle_days day_index =
     (if cycle_days = 0 then 0
      else
        let base = base_quota_bytes div ucast cycle_days;
            rem = base_quota_bytes mod ucast cycle_days;
            bump = ucast day_index < rem
        in base + (if bump then 1 else 0))"

text \<open>The days of the inclusive range \<^verbatim>\<open>start..=end\<close>.\<close>

definition days_incl :: "u32 \<Rightarrow> u32 \<Rightarrow> u32 list" where
  "days_incl start end = map of_nat [unat start..<Suc (unat end)]"

definition cap_bytes_for_day :: "u64 \<Rightarrow> u32 \<Rightarrow> u32 \<Rightarrow> u32 \<Rightarrow> u64" where
  "cap_bytes_for_day base_quota_bytes cycle_days day_index carry_days =
     (if carry_days = 0 \<or> cycle_days = 0 then 0
      else
        let start = sat_sub day_index (sat_sub carry_days 1)
        in fold (\<lambda>i sum. sat_add sum (daily_credit_bytes base_quota_bytes cycle_days i))
             (days_incl start day_index) 0)"

definition apply_daily_rollover :: "u64 \<Rightarrow> u64 \<Rightarrow> u32 \<Rightarrow> u32 \<Rightarrow> u32 \<Rightarrow> u64 \<times> u64" where
  "apply_daily_rollover bank_bytes base_quota_bytes cycle_days day_index carry_days =
     (let credit = daily_credit_bytes base_quota_bytes cycle_days day_index;
          cap = cap_bytes_for_day base_quota_bytes cycle_days day_index carry_days;
          nxt = sat_add bank_bytes credit
      in if cap < nxt then (cap, nxt - cap) else (nxt, 0))"

definition replay_day :: "u64 \<Rightarrow> u32 \<Rightarrow> u32 \<Rightarrow> u32 \<Rightarrow> u64 \<times> u64 \<Rightarrow> u64 \<times> u64" where
  "replay_day base_quota_bytes cycle_days carry_days day = (\<lambda>(bank, remaining).
     (let credit = daily_credit_bytes base_quota_bytes cycle_days day;
          cap = cap_bytes_for_day base_quota_bytes cycle_days day carry_days;
          bank = sat_add bank credit;
          bank = (if cap < bank then cap else bank)
      in if remaining = 0 then (bank, remaining)
         else
           let spend_today = min remaining bank
           in (sat_sub bank spend_today, sat_sub remaining spend_today)))"

definition replay_rollovers_and_spend ::
  "u64 \<Rightarrow> u64 \<Rightarrow> u64 \<Rightarrow> u32 \<Rightarrow> u32 \<Rightarrow> u32 \<Rightarrow> u32 \<Rightarrow> u64 \<times> u64" where
  "replay_rollovers_and_spend starting_bank_bytes spend_bytes base_quota_bytes cycle_days
     day_start day_end carry_days =
     (if cycle_days = 0 \<or> carry_days = 0 \<or> day_end < day_start
      then (starting_bank_bytes, spend_bytes)
      else fold (replay_day base_quota_bytes cycle_days carry_days)
             (days_incl day_start day_end) (starting_bank_bytes, spend_bytes))"

section \<open>Word facts\<close>

lemma unat_ucast_up [word_facts]:
  "LENGTH('a) \<le> LENGTH('b) \<Longrightarrow> unat (ucast (w :: 'a::len word) :: 'b::len word) = unat w"
  by (simp add: unsigned_ucast_eq take_bit_nat_eq_self_iff)
     (metis (mono_tags) order_less_le_trans one_le_numeral power_increasing unsigned_less)

lemma unat_ucast_small [word_facts]:
  "unat (w :: 'a::len word) < 2 ^ LENGTH('b) \<Longrightarrow> unat (ucast w :: 'b::len word) = unat w"
  by (simp add: unsigned_ucast_eq take_bit_nat_eq_self_iff)

lemma min_add_min: "min (min x m + z) m = min (x + z) m" for m x z :: nat
  by (simp add: min_def)

lemma unat_fold_sat_add:
  "unat (fold (\<lambda>v a. sat_add a v) vs a) = min (unat a + sum_list (map unat vs)) (2 ^ LENGTH('a) - 1)"
  for a :: "'a::len word"
proof (induction vs arbitrary: a)
  case Nil
  show ?case using unat_le_max [of a] by (simp add: min_absorb1)
next
  case (Cons v vs)
  then show ?case by (simp only: fold_simps unat_sat_add min_add_min list.map sum_list.Cons add.assoc)
qed

lemma unat_sum_list:
  "sum_list (map unat ws) < 2 ^ LENGTH('a) \<Longrightarrow> unat (sum_list ws) = sum_list (map unat ws)"
  for ws :: "'a::len word list"
proof (induction ws)
  case (Cons w ws)
  then have "unat (sum_list ws) = sum_list (map unat ws)" by simp
  with Cons.prems show ?case by (simp add: unat_word_ariths)
qed simp

section \<open>The allocation\<close>

text \<open>
  The reference: every item gets the floor of its proportional share, and the units the
  floors lose go one each to the first items with a positive weight.
\<close>

definition floor_shares :: "nat \<Rightarrow> nat list \<Rightarrow> nat list" where
  "floor_shares t ws = map (\<lambda>w. t * w div sum_list ws) ws"

definition eligible_items :: "nat list \<Rightarrow> nat list" where
  "eligible_items ws = filter (\<lambda>i. 0 < ws ! i) [0..<length ws]"

definition fair_share :: "nat \<Rightarrow> nat list \<Rightarrow> nat \<Rightarrow> nat" where
  "fair_share t ws i =
     t * ws ! i div sum_list ws +
     (if i \<in> set (take (t - sum_list (floor_shares t ws)) (eligible_items ws)) then 1 else 0)"

lemma length_floor_shares [simp]: "length (floor_shares t ws) = length ws"
  by (simp add: floor_shares_def)

lemma floor_split:
  "sum_list (map (\<lambda>w. t * w div s) ws) * s + sum_list (map (\<lambda>w. t * w mod s) ws) = t * sum_list ws"
  for t s :: nat
proof (induction ws)
  case (Cons w ws)
  have "(t * w div s) * s + t * w mod s = t * w" by simp
  with Cons show ?case by (simp add: add_mult_distrib add_mult_distrib2)
qed simp

lemma floor_rests:
  "0 < s \<Longrightarrow> sum_list (map (\<lambda>w. t * w mod s) ws) \<le> (s - 1) * length (filter (\<lambda>w. 0 < w) ws)"
  for t s :: nat
proof (induction ws)
  case (Cons w ws)
  have "t * w mod s \<le> s - 1" using Cons.prems by (simp add: less_eq_Suc_le [symmetric] flip: less_Suc_eq_le)
  with Cons show ?case by (cases "w = 0") auto
qed simp

lemma length_eligible: "length (eligible_items ws) = length (filter (\<lambda>w. 0 < w) ws)"
proof -
  have "filter (\<lambda>w. 0 < w) ws = map ((!) ws) (eligible_items ws)"
    unfolding eligible_items_def by (metis (no_types, lifting) comp_apply filter_cong filter_map map_nth)
  then show ?thesis by simp
qed

lemma floor_sum_le: "0 < sum_list ws \<Longrightarrow> sum_list (floor_shares t ws) \<le> t"
proof -
  assume s: "0 < sum_list ws"
  have "sum_list (floor_shares t ws) * sum_list ws \<le> t * sum_list ws"
    using floor_split [of t "sum_list ws" ws] unfolding floor_shares_def by linarith
  with s show ?thesis by simp
qed

lemma lost_lt_eligible:
  assumes s: "0 < sum_list ws"
  shows "t - sum_list (floor_shares t ws) < length (eligible_items ws)"
proof -
  define s r n where "s = sum_list ws" and "r = t - sum_list (floor_shares t ws)"
    and "n = length (eligible_items ws)"
  have "\<exists>w \<in> set ws. w \<noteq> 0" using s by (metis less_irrefl sum_list_eq_0_iff)
  then have n: "0 < n" by (auto simp: n_def length_eligible filter_empty_conv)
  have "t = sum_list (floor_shares t ws) + r" using floor_sum_le [OF s, of t] by (simp add: r_def)
  then have "r * s = sum_list (map (\<lambda>w. t * w mod s) ws)"
    using floor_split [of t s ws] unfolding floor_shares_def s_def [symmetric]
    by (metis add_left_cancel add_mult_distrib)
  also have "\<dots> \<le> (s - 1) * n" using floor_rests [of s t ws] s by (simp add: s_def n_def length_eligible)
  also have "\<dots> < s * n" using n s by (simp add: s_def)
  finally show ?thesis by (simp add: r_def n_def mult.commute)
qed

lemma take_eligible: "set (take k (eligible_items ws)) \<subseteq> {i. i < length ws \<and> 0 < ws ! i}"
  using set_take_subset [of k "eligible_items ws"] by (auto simp: eligible_items_def)

lemma distinct_eligible: "distinct (eligible_items ws)"
  by (simp add: eligible_items_def)

lemma fair_share_sum:
  assumes s: "0 < sum_list ws"
  shows "(\<Sum>i<length ws. fair_share t ws i) = t"
proof -
  define r where "r = t - sum_list (floor_shares t ws)"
  define A where "A = set (take r (eligible_items ws))"
  have A: "A \<subseteq> {..<length ws}" using take_eligible [of r ws] by (auto simp: A_def)
  have "card A = length (take r (eligible_items ws))"
    unfolding A_def by (rule distinct_card) (simp add: distinct_eligible)
  then have card: "card A = r" using lost_lt_eligible [OF s, of t] by (simp add: r_def)
  have "(\<Sum>i<length ws. fair_share t ws i) =
      (\<Sum>i<length ws. t * ws ! i div sum_list ws) + (\<Sum>i<length ws. if i \<in> A then 1 else 0)"
    unfolding fair_share_def r_def [symmetric] A_def [symmetric] by (rule sum.distrib)
  also have "(\<Sum>i<length ws. if i \<in> A then 1 else 0) = r"
    using A card by (simp add: sum.If_cases Int_absorb1)
  also have "(\<Sum>i<length ws. t * ws ! i div sum_list ws) = sum_list (floor_shares t ws)"
    by (simp add: sum_list_sum_nth floor_shares_def atLeast0LessThan)
  finally show ?thesis using floor_sum_le [OF s, of t] by (simp add: r_def)
qed

lemma fair_share_le:
  assumes "0 < sum_list ws" "i < length ws"
  shows "fair_share t ws i \<le> t"
  using fair_share_sum [OF assms(1), of t] assms(2)
  by (metis finite_lessThan lessThan_iff member_le_sum zero_le)

lemma length_effective_weights [simp]: "length (effective_weights items) = length items"
  by (simp add: effective_weights_def Let_def)

lemma sum_list_bounded:
  "(\<forall>w \<in> set ws. w \<le> b) \<Longrightarrow> sum_list ws \<le> b * length ws" for b :: nat
  by (induction ws) auto

lemma unat_ucast_weight: "unat (ucast (w :: u16) :: u64) \<le> 65535"
  using unat_le_max [of w] by (simp add: unat_ucast_up)

lemma effective_weights_cases:
  assumes len: "length items < 2 ^ 48"
  obtains (zero) "\<forall>w \<in> set (map snd items). w = 0" "effective_weights items = map (\<lambda>_. 1) items"
  | (given) "\<exists>w \<in> set (map snd items). w \<noteq> 0"
      "effective_weights items = map (\<lambda>(_, w). ucast w) items"
proof -
  define ws where "ws = map (\<lambda>(_, w). ucast w :: u64) items"
  have *: "map unat ws = map (\<lambda>(_, w). unat w) items" by (auto simp: ws_def unat_ucast_up)
  have "sum_list (map unat ws) \<le> (2 ^ 16 - 1) * length ws"
    by (rule order_trans [OF sum_list_bounded [of _ "2 ^ 16 - 1"]])
       (auto simp: ws_def unat_ucast_weight)
  then have "sum_list (map unat ws) < 2 ^ 64"
    using len by (simp add: ws_def)
  then have s: "unat (sum_list ws) = sum_list (map (\<lambda>(_, w). unat w) items)"
    using unat_sum_list [of ws] by (simp add: *)
  have z: "sum_list ws = 0 \<longleftrightarrow> (\<forall>w \<in> set (map snd items). w = 0)"
    unfolding unat_eq_0 [symmetric] s sum_list_eq_0_iff by (auto simp: unat_eq_0)
  show thesis
  proof (cases "sum_list ws = 0")
    case True
    with z that(1) show thesis
      by (auto simp: effective_weights_def Let_def ws_def [symmetric]) (simp add: ws_def comp_def)
  next
    case False
    with z that(2) show thesis
      by (auto simp: effective_weights_def Let_def ws_def [symmetric])
  qed
qed

lemma effective_weights_sum:
  assumes "items \<noteq> []" "length items < 2 ^ 48"
  shows "0 < sum_list (map unat (effective_weights items))"
    and "sum_list (map unat (effective_weights items)) < 2 ^ 64"
proof -
  have "0 < sum_list (map unat (effective_weights items)) \<and>
        (\<forall>w \<in> set (map unat (effective_weights items)). w \<le> 2 ^ 16 - 1)"
    using assms(2)
  proof (cases rule: effective_weights_cases)
    case zero
    with assms show ?thesis by (simp add: comp_def sum_list_triv)
  next
    case given
    then obtain i w where iw: "(i, w) \<in> set items" "w \<noteq> 0" by auto
    then have "unat (ucast w :: u64) \<noteq> 0" by (simp add: unat_ucast_up unat_eq_0)
    with iw given(2) have "\<exists>x \<in> set (map unat (effective_weights items)). x \<noteq> 0" by force
    then have "0 < sum_list (map unat (effective_weights items))"
      by (metis neq0_conv sum_list_eq_0_iff)
    then show ?thesis
      by (auto simp: given(2) unat_ucast_weight)
  qed
  then show "0 < sum_list (map unat (effective_weights items))"
    and "sum_list (map unat (effective_weights items)) < 2 ^ 64"
    using sum_list_bounded [of "map unat (effective_weights items)" "2 ^ 16 - 1"] assms(2) by auto
qed

lemma add_to_items_nth:
  "\<lbrakk>distinct idxs; \<forall>i \<in> set idxs. i < length out; j < length out\<rbrakk> \<Longrightarrow>
     add_to_items d idxs out ! j =
       (if j \<in> set idxs then (fst (out ! j), sat_add (snd (out ! j)) d) else out ! j)"
  unfolding add_to_items_def
proof (induction idxs arbitrary: out)
  case (Cons i js)
  then show ?case by (auto simp: nth_list_update)
qed simp

lemma length_add_to_items [simp]: "length (add_to_items d idxs out) = length out"
  unfolding add_to_items_def by (induction idxs arbitrary: out) auto

lemma wide_quotient:
  fixes a b c :: u64
  shows "unat ((ucast a * ucast b) div ucast c :: u128) = unat a * unat b div unat c"
proof -
  have "unat a * unat b < 2 ^ 64 * 2 ^ 64"
    using unat_less_pow [of a] unat_less_pow [of b] by (intro mult_strict_mono) auto
  then have "unat (ucast a * ucast b :: u128) = unat a * unat b"
    by (simp add: unat_word_ariths unat_ucast_up)
  then show ?thesis by (simp add: unat_div_distrib unat_ucast_up)
qed

text \<open>The allocation computes the reference.\<close>

lemma allocate_unfold:
  fixes tot :: u64 and items :: "('i \<times> u16) list"
  assumes "items \<noteq> []" "length items < 2 ^ 48"
  defines "W \<equiv> map unat (effective_weights items)"
  defines "lost \<equiv> unat tot - sum_list (floor_shares (unat tot) W)"
  defines "fl \<equiv> map2 (\<lambda>(i, _) v. (i, ucast v :: u64)) items
                (map (\<lambda>w. (ucast tot * ucast w) div ucast (sum_list (effective_weights items)) :: u128)
                   (effective_weights items))"
  shows "allocate_total_by_weight tot items = add_to_items 1 (take lost (eligible_items W)) fl"
proof -
  define ws where "ws = effective_weights items"
  define vs where "vs = map (\<lambda>w. (ucast tot * ucast w) div ucast (sum_list ws) :: u128) ws"
  define allocated where "allocated = fold (\<lambda>v a. sat_add a v) vs 0"
  define rem where "rem = (ucast (sat_sub (ucast tot) allocated) :: u64)"
  note sums = effective_weights_sum [OF assms(1,2)]
  have S: "unat (sum_list ws) = sum_list W"
    using sums(2) unat_sum_list [of ws] by (simp add: W_def ws_def)
  have vs: "map unat vs = floor_shares (unat tot) W"
    by (simp add: vs_def floor_shares_def W_def ws_def [symmetric] wide_quotient S comp_def)
  have le: "sum_list (floor_shares (unat tot) W) \<le> unat tot"
    using sums(1) by (intro floor_sum_le) (simp add: W_def)
  then have "unat allocated = sum_list (floor_shares (unat tot) W)"
    using unat_fold_sat_add [of vs 0] unat_less_pow [of tot] by (simp add: allocated_def vs)
  then have rem: "unat rem = lost"
    using unat_less_pow [of tot]
    by (simp add: rem_def unat_ucast_small unat_sat_sub unat_ucast_up lost_def)
  have lt: "lost < length (eligible_items W)"
    using sums(1) unfolding lost_def by (intro lost_lt_eligible) (simp add: W_def)
  have "length (eligible_items W) \<le> length items"
    by (simp add: length_eligible W_def order_trans [OF length_filter_le])
  then have n: "unat (of_nat (length (eligible_items W)) :: u64) = length (eligible_items W)"
    using assms(2) by (simp add: unat_of_nat)
  have el: "filter (\<lambda>idx. 0 < ws ! idx) [0..<length ws] = eligible_items W"
    unfolding eligible_items_def by (auto simp: W_def ws_def word_less_nat_alt intro!: filter_cong)
  have per: "rem div of_nat (length (eligible_items W)) = 0"
    using rem lt n by (simp add: unat_eq_0 [symmetric] unat_div_distrib)
  have ex: "unat (rem mod of_nat (length (eligible_items W))) = lost"
    using rem lt n by (simp add: unat_mod_distrib)
  have n0: "of_nat (length (eligible_items W)) \<noteq> (0 :: u64)"
    using n lt by (metis gr_implies_not0 unat_0)
  have "allocate_total_by_weight tot items =
      (if 0 < rem then add_to_items 1 (take lost (eligible_items W)) fl else fl)"
    using assms(1) n0
    by (simp add: allocate_total_by_weight_def Let_def ws_def [symmetric] vs_def [symmetric]
        allocated_def [symmetric] rem_def [symmetric] el per ex fl_def)
  moreover have "\<not> 0 < rem \<Longrightarrow> lost = 0" using rem by (simp add: word_less_nat_alt)
  ultimately show ?thesis by (auto simp: add_to_items_def)
qed

lemma allocate_nth:
  fixes tot :: u64
  assumes "items \<noteq> []" "length items < 2 ^ 48" "i < length items"
  shows "fst (allocate_total_by_weight tot items ! i) = fst (items ! i)"
    and "unat (snd (allocate_total_by_weight tot items ! i)) =
           fair_share (unat tot) (map unat (effective_weights items)) i"
proof -
  define W where "W = map unat (effective_weights items)"
  define lost where "lost = unat tot - sum_list (floor_shares (unat tot) W)"
  define fl where "fl = map2 (\<lambda>(i, _) v. (i, ucast v :: u64)) items
      (map (\<lambda>w. (ucast tot * ucast w) div ucast (sum_list (effective_weights items)) :: u128)
        (effective_weights items))"
  note sums = effective_weights_sum [OF assms(1,2)]
  have lenW: "length W = length items" and len: "length fl = length items"
    by (simp_all add: W_def fl_def)
  have S: "unat (sum_list (effective_weights items)) = sum_list W"
    using sums(2) unat_sum_list [of "effective_weights items"] by (simp add: W_def)
  have share: "fair_share (unat tot) W i \<le> unat tot"
    using sums(1) assms(3) lenW by (intro fair_share_le) (simp_all add: W_def)
  have fl: "fst (fl ! i) = fst (items ! i)"
    using assms(3) by (simp add: fl_def split: prod.splits)
  have "unat tot * W ! i div sum_list W < 2 ^ 64"
    using share unat_less_pow [of tot] by (simp add: fair_share_def split: if_splits)
  then have v: "unat (snd (fl ! i)) = unat tot * W ! i div sum_list W"
    using assms(3) S by (simp add: fl_def W_def wide_quotient unat_ucast_small split: prod.splits)
  have add: "allocate_total_by_weight tot items ! i =
      (if i \<in> set (take lost (eligible_items W)) then (fst (fl ! i), sat_add (snd (fl ! i)) 1)
       else fl ! i)"
    unfolding allocate_unfold [OF assms(1,2), of tot, folded W_def, folded lost_def fl_def]
    using take_eligible [of lost W] assms(3) len lenW
    by (intro add_to_items_nth) (auto simp: distinct_eligible)
  then show "fst (allocate_total_by_weight tot items ! i) = fst (items ! i)" using fl by simp
  show "unat (snd (allocate_total_by_weight tot items ! i)) = fair_share (unat tot) W i"
    using add v share unat_less_pow [of tot]
    by (auto simp: fair_share_def lost_def [symmetric] unat_sat_add)
qed

lemma length_allocate:
  fixes tot :: u64
  assumes "length items < 2 ^ 48"
  shows "length (allocate_total_by_weight tot items) = length items"
proof (cases "items = []")
  case True
  then show ?thesis by (simp add: allocate_total_by_weight_def)
next
  case False
  show ?thesis using allocate_unfold [OF False assms, of tot] by simp
qed

section \<open>The daily token bank\<close>

lemma daily_credit_unat:
  assumes "cycle_days \<noteq> 0"
  shows "unat (daily_credit_bytes q cycle_days d) =
    unat q div unat cycle_days + (if unat d < unat q mod unat cycle_days then 1 else 0)"
proof -
  define c where "c = unat cycle_days"
  have c: "0 < c" using assms by (simp add: c_def unat_gt_0)
  have uc: "unat (ucast cycle_days :: u64) = c" by (simp add: c_def unat_ucast_up)
  have qd: "unat (q div ucast cycle_days) = unat q div c"
    and qm: "unat (q mod ucast cycle_days) = unat q mod c"
    by (simp_all add: unat_div_distrib unat_mod_distrib uc)
  have "unat q mod c \<noteq> 0 \<Longrightarrow> unat q div c < unat q"
    using c by (cases "c = 1") (auto intro!: div_less_dividend gr0I)
  then have "unat q mod c \<noteq> 0 \<Longrightarrow> unat q div c + 1 < 2 ^ 64"
    using unat_less_pow [of q] by simp
  then have up: "unat q mod c \<noteq> 0 \<Longrightarrow> unat (q div ucast cycle_days + 1) = unat q div c + 1"
    using unat_word_ariths(1) [of "q div ucast cycle_days" 1] qd by simp
  have less: "ucast d < q mod ucast cycle_days \<longleftrightarrow> unat d < unat q mod c"
    by (simp only: word_less_nat_alt qm) (simp add: unat_ucast_up)
  show ?thesis
    using assms up qd by (simp add: daily_credit_bytes_def Let_def less c_def [symmetric])
qed

definition credit_sum :: "u64 \<Rightarrow> u32 \<Rightarrow> nat \<Rightarrow> nat \<Rightarrow> nat" where
  "credit_sum q cycle_days a b =
     (\<Sum>i = a..<b. unat (daily_credit_bytes q cycle_days (of_nat i)))"

lemma credit_prefix:
  assumes "cycle_days \<noteq> 0" "n \<le> unat cycle_days"
  shows "credit_sum q cycle_days 0 n =
    n * (unat q div unat cycle_days) + min n (unat q mod unat cycle_days)"
  using assms(2)
proof (induction n)
  case (Suc n)
  have "n < 2 ^ 32" using Suc.prems unat_less_pow [of cycle_days] by simp
  then have "unat (of_nat n :: u32) = n" by (simp add: unat_of_nat)
  with Suc show ?case
    by (simp add: credit_sum_def daily_credit_unat assms(1) min_def)
qed (simp add: credit_sum_def)

lemma credit_total:
  assumes "cycle_days \<noteq> 0"
  shows "credit_sum q cycle_days 0 (unat cycle_days) = unat q"
proof -
  have "unat q mod unat cycle_days < unat cycle_days" using assms by (simp add: unat_gt_0)
  then show ?thesis using assms by (simp add: credit_prefix min_absorb2)
qed



lemma rollover_fst:
  "unat (fst (apply_daily_rollover bank q cycle_days d carry_days)) =
     min (min (unat bank + unat (daily_credit_bytes q cycle_days d)) (2 ^ 64 - 1))
         (unat (cap_bytes_for_day q cycle_days d carry_days))"
  by (auto simp: apply_daily_rollover_def Let_def word_less_nat_alt unat_sat_add min_def)

text \<open>
  A day-by-day spending schedule: after each rollover the day's spend fits the bank.
\<close>

fun feasible :: "u64 \<Rightarrow> u32 \<Rightarrow> u32 \<Rightarrow> u64 \<Rightarrow> u32 list \<Rightarrow> u64 list \<Rightarrow> bool" where
  "feasible q cycle_days carry_days bank [] [] = True"
| "feasible q cycle_days carry_days bank (d # ds) (s # ss) =
     (let bank' = fst (apply_daily_rollover bank q cycle_days d carry_days)
      in s \<le> bank' \<and> feasible q cycle_days carry_days (bank' - s) ds ss)"
| "feasible q cycle_days carry_days bank _ _ = False"

lemma replay_day_eq:
  "replay_day q cycle_days carry_days d (bank, r) =
     (let bank' = fst (apply_daily_rollover bank q cycle_days d carry_days); s = min r bank'
      in (bank' - s, r - s))"
proof -
  have sub: "sat_sub x y = x - y" if "y \<le> x" for x y :: u64
    using that by (auto simp: sat_sub_def)
  show ?thesis
    by (auto simp: replay_day_def apply_daily_rollover_def Let_def sub split: if_splits)
qed

lemma replay_zero: "snd (fold (replay_day q cycle_days carry_days) ds (bank, 0)) = 0"
  by (induction ds arbitrary: bank) (simp_all add: replay_day_eq Let_def)

lemma replay_schedule_exists:
  "\<exists>ss. feasible q cycle_days carry_days bank ds ss \<and>
     sum_list (map unat ss) + unat (snd (fold (replay_day q cycle_days carry_days) ds (bank, r))) =
     unat r"
proof (induction ds arbitrary: bank r)
  case Nil
  have "feasible q cycle_days carry_days bank [] []" by simp
  then show ?case by (metis (no_types, lifting) add_cancel_left_left fold_simps(1) list.map(1) snd_conv sum_list.Nil)
next
  case (Cons d ds)
  define b where "b = fst (apply_daily_rollover bank q cycle_days d carry_days)"
  define s where "s = min r b"
  obtain ss where ss: "feasible q cycle_days carry_days (b - s) ds ss"
    "sum_list (map unat ss) + unat (snd (fold (replay_day q cycle_days carry_days) ds (b - s, r - s)))
       = unat (r - s)"
    using Cons.IH by blast
  have "s \<le> r" "s \<le> b" by (simp_all add: s_def)
  moreover have "unat (r - s) + unat s = unat r"
    using \<open>s \<le> r\<close> by (metis le_add_diff_inverse2 unat_sub word_le_nat_alt)
  ultimately have "feasible q cycle_days carry_days bank (d # ds) (s # ss) \<and>
    sum_list (map unat (s # ss)) +
    unat (snd (fold (replay_day q cycle_days carry_days) (d # ds) (bank, r))) = unat r"
    using ss by (simp add: replay_day_eq Let_def b_def [symmetric] s_def [symmetric])
  then show ?case by blast
qed

text \<open>
  The earliest-first replay spends at least as much as any schedule: it never holds more in
  the bank than the other, and loses no more to the caps.
\<close>

lemma replay_optimal:
  assumes "feasible q cycle_days carry_days b ds ss"
    and "r = 0 \<or> (unat g \<le> unat b \<and> unat r + unat b \<le> sum_list (map unat ss) + unat g)"
  shows "snd (fold (replay_day q cycle_days carry_days) ds (g, r)) = 0"
  using assms
proof (induction q cycle_days carry_days b ds ss arbitrary: g r rule: feasible.induct)
  case (1 q cycle_days carry_days b)
  then have "unat r = 0" by auto
  then show ?case by (simp add: unat_eq_0)
next
  case (2 q cycle_days carry_days b d ds s ss)
  define b' where "b' = fst (apply_daily_rollover b q cycle_days d carry_days)"
  define g' where "g' = fst (apply_daily_rollover g q cycle_days d carry_days)"
  define t where "t = min r g'"
  have s: "s \<le> b'" and f: "feasible q cycle_days carry_days (b' - s) ds ss"
    using "2.prems"(1) by (simp_all add: Let_def b'_def)
  have us: "unat (b' - s) = unat b' - unat s" "unat s \<le> unat b'"
    using s by (simp_all add: unat_sub word_le_nat_alt)
  have ut: "unat (g' - t) = unat g' - unat t" "unat (r - t) = unat r - unat t"
    "unat t = min (unat r) (unat g')"
    by (simp_all add: t_def unat_sub min_word_unat)
  have "r - t = 0 \<or> (unat (g' - t) \<le> unat (b' - s) \<and>
      unat (r - t) + unat (b' - s) \<le> sum_list (map unat ss) + unat (g' - t))"
  proof (cases "unat r \<le> unat g'")
    case True
    then show ?thesis by (auto simp: t_def min_def word_le_nat_alt)
  next
    case False
    then have r: "r \<noteq> 0" by (metis unat_0 zero_le)
    then have gb: "unat g \<le> unat b"
      and rb: "unat r + unat b \<le> unat s + sum_list (map unat ss) + unat g"
      using "2.prems"(2) by auto
    have "unat b' + unat g \<le> unat g' + unat b"
      using gb unfolding b'_def g'_def rollover_fst by linarith
    with False rb us ut show ?thesis by auto
  qed
  with f have "snd (fold (replay_day q cycle_days carry_days) ds (g' - t, r - t)) = 0"
    by (intro "2.IH") (simp_all add: b'_def)
  then show ?case by (simp add: replay_day_eq Let_def g'_def [symmetric] t_def [symmetric])
qed simp_all

section \<open>Properties\<close>

text \<open>C9: the allocation hands out exactly the total, whatever the weights (fewer than
  \<open>2 ^ 48\<close> items), and keeps the items in their order.\<close>

theorem allocate_conserves_total:
  assumes "items \<noteq> []" "length items < 2 ^ 48"
  shows "sum_list (map (\<lambda>(_, v). unat v) (allocate_total_by_weight tot items)) = unat tot \<and>
         map fst (allocate_total_by_weight tot items) = map fst items"
proof
  define W where "W = map unat (effective_weights items)"
  note len = length_allocate [OF assms(2), of tot]
  note nth = allocate_nth [OF assms, where tot = tot]
  have "sum_list (map (\<lambda>(_, v). unat v) (allocate_total_by_weight tot items)) =
      (\<Sum>i<length items. unat (snd (allocate_total_by_weight tot items ! i)))"
    by (simp add: sum_list_sum_nth len atLeast0LessThan case_prod_beta)
  also have "\<dots> = (\<Sum>i<length W. fair_share (unat tot) W i)"
    by (rule sum.cong) (simp_all add: nth W_def)
  also have "\<dots> = unat tot"
    using effective_weights_sum(1) [OF assms] by (intro fair_share_sum) (simp add: W_def)
  finally show "sum_list (map (\<lambda>(_, v). unat v) (allocate_total_by_weight tot items)) = unat tot" .
  show "map fst (allocate_total_by_weight tot items) = map fst items"
    by (rule nth_equalityI) (simp_all add: len nth)
qed

theorem allocate_conserves_total_witness:
  "sum_list (map (\<lambda>(_, v). unat v)
     (allocate_total_by_weight 100 [(''a'', 1 :: u16), (''b'', 0), (''c'', 2)])) = unat (100 :: u64)"
  using allocate_conserves_total [of "[(''a'', 1 :: u16), (''b'', 0), (''c'', 2)]" 100] by simp

text \<open>C10: every item gets the floor of its proportional share or one unit more; an item
  of weight zero gets nothing, unless all weights are zero and the shares are equal.\<close>

theorem allocate_proportional:
  fixes tot :: u64 and items :: "('i \<times> u16) list"
  assumes "length items < 2 ^ 48" "i < length items"
  defines "weight \<equiv> \<lambda>j. (if list_all (\<lambda>(_, w). w = 0) items then 1 else unat (snd (items ! j)))"
  defines "share \<equiv> unat tot * weight i div (\<Sum>j < length items. weight j)"
  defines "v \<equiv> unat (snd (allocate_total_by_weight tot items ! i))"
  shows "share \<le> v \<and> v \<le> share + 1 \<and> (weight i = 0 \<longrightarrow> v = 0)"
proof -
  define W where "W = map unat (effective_weights items)"
  have ne: "items \<noteq> []" using assms(2) by auto
  have W: "W ! j = weight j" if "j < length items" for j
    using assms(1)
  proof (cases rule: effective_weights_cases)
    case zero
    then have "list_all (\<lambda>(_, w). w = 0) items" by (auto simp: list_all_iff)
    with zero that show ?thesis by (simp add: W_def weight_def)
  next
    case given
    then have "\<not> list_all (\<lambda>(_, w). w = 0) items" by (auto simp: list_all_iff)
    with given that show ?thesis by (simp add: W_def weight_def unat_ucast_up case_prod_beta)
  qed
  have "map weight [0..<length items] = W"
    by (rule nth_equalityI) (simp_all add: W, simp_all add: W_def)
  then have "(\<Sum>j < length items. weight j) = sum_list W"
    using interv_sum_list_conv_sum_set_nat [of weight 0 "length items"] by (simp add: atLeast0LessThan)
  then have share: "share = unat tot * W ! i div sum_list W"
    by (simp add: share_def W assms(2))
  have v: "v = fair_share (unat tot) W i"
    by (simp add: v_def W_def allocate_nth [OF ne assms(1,2)])
  have "weight i = 0 \<longrightarrow> v = 0"
    using take_eligible [of "unat tot - sum_list (floor_shares (unat tot) W)" W] W [OF assms(2)]
    by (auto simp: v fair_share_def)
  then show ?thesis by (auto simp: v share fair_share_def)
qed

theorem allocate_proportional_witness:
  "unat (snd (allocate_total_by_weight 101 [(''a'', 1 :: u16), (''b'', 0), (''c'', 2)] ! 2)) \<in> {67, 68} \<and>
   unat (snd (allocate_total_by_weight 101 [(''a'', 1 :: u16), (''b'', 0), (''c'', 2)] ! 1)) = 0"
  using allocate_proportional [of "[(''a'', 1 :: u16), (''b'', 0), (''c'', 2)]" 2 101]
    allocate_proportional [of "[(''a'', 1 :: u16), (''b'', 0), (''c'', 2)]" 1 101]
  by (simp add: lessThan_Suc le_Suc_eq, linarith?)

text \<open>C13: the daily credits of one cycle add up to the base quota, no byte more or less.\<close>

theorem daily_credits_exhaust_quota:
  assumes "cycle_days \<noteq> 0"
  shows "(\<Sum>d<unat cycle_days. unat (daily_credit_bytes q cycle_days (of_nat d))) = unat q"
  using credit_total [OF assms, of q] by (simp add: credit_sum_def atLeast0LessThan)

theorem daily_credits_exhaust_quota_witness:
  "(\<Sum>d<unat (30 :: u32). unat (daily_credit_bytes 1000 30 (of_nat d))) = unat (1000 :: u64)"
  by (rule daily_credits_exhaust_quota) simp



text \<open>C11: the replay of missed days finds a feasible schedule whenever one exists: nothing
  of the spend remains exactly when some day-by-day schedule within the capped bank spends it all.\<close>

theorem replay_complete:
  assumes "cycle_days \<noteq> 0" "carry_days \<noteq> 0" "day_start \<le> day_end"
  shows "snd (replay_rollovers_and_spend bank spend q cycle_days day_start day_end carry_days) = 0 \<longleftrightarrow>
    (\<exists>ss. feasible q cycle_days carry_days bank (days_incl day_start day_end) ss \<and>
          sum_list (map unat ss) = unat spend)"
proof -
  define final where
    "final = fold (replay_day q cycle_days carry_days) (days_incl day_start day_end) (bank, spend)"
  have *: "replay_rollovers_and_spend bank spend q cycle_days day_start day_end carry_days = final"
    using assms by (simp add: replay_rollovers_and_spend_def final_def leD)
  show ?thesis
  proof
    assume "snd (replay_rollovers_and_spend bank spend q cycle_days day_start day_end carry_days) = 0"
    with replay_schedule_exists [of q cycle_days carry_days bank "days_incl day_start day_end" spend]
    show "\<exists>ss. feasible q cycle_days carry_days bank (days_incl day_start day_end) ss \<and>
          sum_list (map unat ss) = unat spend"
      by (simp add: * final_def)
  next
    assume "\<exists>ss. feasible q cycle_days carry_days bank (days_incl day_start day_end) ss \<and>
          sum_list (map unat ss) = unat spend"
    then show "snd (replay_rollovers_and_spend bank spend q cycle_days day_start day_end carry_days) = 0"
      using replay_optimal [of q cycle_days carry_days bank _ _ spend bank] by (auto simp: * final_def)
  qed
qed

theorem replay_complete_witness:
  "snd (replay_rollovers_and_spend 0 150 3000 30 4 5 2) = 0"
proof -
  have "feasible 3000 30 2 0 (days_incl 4 5) [100, 50]"
    by (simp add: days_incl_def upt_rec apply_daily_rollover_def cap_bytes_for_day_def
        daily_credit_bytes_def Let_def sat_add_def sat_sub_def)
  moreover have "sum_list (map unat [100, 50 :: u64]) = unat (150 :: u64)" by simp
  ultimately have "\<exists>ss. feasible 3000 30 2 0 (days_incl 4 5) ss \<and> sum_list (map unat ss) = unat (150 :: u64)"
    by blast
  then show ?thesis by (rule iffD2 [OF replay_complete, rotated 3]) simp_all
qed

end
