(* ===== verification/Xp_BTree.thy ===== *)
theory Xp_BTree
  imports Xp_Prelude
begin

text \<open>
  The ordered containers of the Rust standard library that carry the program's state:
  \<^verbatim>\<open>BTreeMap<K, V>\<close> and \<^verbatim>\<open>BTreeSet<T>\<close>. A map is the list of its entries in
  strictly increasing key order, which is what iteration yields; the representation is
  canonical, so equality of maps is the \<^verbatim>\<open>PartialEq\<close> of the source. A set is a map to
  \<open>unit\<close>, as in the standard library.

  The operations are specified by their lookups (\<open>bt_get\<close>); component proofs use these laws
  and never the representation.
\<close>

section \<open>Ordered maps\<close>

typedef (overloaded) ('k::linorder, 'v) btree_map =
  "{xs :: ('k \<times> 'v) list. sorted_wrt (<) (map fst xs)}"
  morphisms bt_entries Bt_map
proof
  show "[] \<in> {xs :: ('k \<times> 'v) list. sorted_wrt (<) (map fst xs)}" by simp
qed

setup_lifting type_definition_btree_map

fun ins_entry :: "'k::linorder \<Rightarrow> 'v \<Rightarrow> ('k \<times> 'v) list \<Rightarrow> ('k \<times> 'v) list" where
  "ins_entry k v [] = [(k, v)]"
| "ins_entry k v ((k', v') # xs) =
     (if k < k' then (k, v) # (k', v') # xs
      else if k = k' then (k, v) # xs
      else (k', v') # ins_entry k v xs)"

lemma fst_ins_entry: "fst ` set (ins_entry k v xs) = insert k (fst ` set xs)"
  by (induction k v xs rule: ins_entry.induct) auto

lemma sorted_ins_entry:
  "sorted_wrt (<) (map fst xs) \<Longrightarrow> sorted_wrt (<) (map fst (ins_entry k v xs))"
proof (induction k v xs rule: ins_entry.induct)
  case (1 k v)
  then show ?case by simp
next
  case (2 k v k' v' xs)
  have keys: "set (map fst (ins_entry k v xs)) = insert k (set (map fst xs))"
    using fst_ins_entry [of k v xs] by simp
  show ?case
  proof (cases "k < k' \<or> k = k'")
    case True
    with "2.prems" show ?thesis by (auto intro: less_trans)
  next
    case False
    with "2.IH" "2.prems" have "sorted_wrt (<) (map fst (ins_entry k v xs))" by auto
    moreover have "\<forall>y\<in>set (map fst (ins_entry k v xs)). k' < y"
      using False "2.prems" unfolding keys by auto
    ultimately show ?thesis using False by auto
  qed
qed

lift_definition bt_empty :: "('k::linorder, 'v) btree_map" is "[]"
  by simp

lift_definition bt_insert :: "'k::linorder \<Rightarrow> 'v \<Rightarrow> ('k, 'v) btree_map \<Rightarrow> ('k, 'v) btree_map"
  is ins_entry
  by (rule sorted_ins_entry)

lemma sorted_wrt_filter_fst:
  "sorted_wrt (<) (map fst xs) \<Longrightarrow> sorted_wrt (<) (map fst (filter P xs))"
  by (induction xs) auto

lift_definition bt_retain :: "('k::linorder \<Rightarrow> 'v \<Rightarrow> bool) \<Rightarrow> ('k, 'v) btree_map \<Rightarrow> ('k, 'v) btree_map"
  is "\<lambda>P. filter (\<lambda>(k, v). P k v)"
  by (rule sorted_wrt_filter_fst)

lemma map_fst_map_value: "map fst (map (\<lambda>(k, v). (k, f k v)) xs) = map fst xs"
  by (induction xs) auto

text \<open>A loop over \<^verbatim>\<open>values_mut()\<close> or \<^verbatim>\<open>iter_mut()\<close>.\<close>

lift_definition bt_map_values :: "('k::linorder \<Rightarrow> 'v \<Rightarrow> 'w) \<Rightarrow> ('k, 'v) btree_map \<Rightarrow> ('k, 'w) btree_map"
  is "\<lambda>f. map (\<lambda>(k, v). (k, f k v))"
  by (simp add: comp_def split_def)

definition bt_get :: "('k::linorder, 'v) btree_map \<Rightarrow> 'k \<Rightarrow> 'v option" where
  "bt_get m k = map_of (bt_entries m) k"

definition bt_contains_key :: "('k::linorder, 'v) btree_map \<Rightarrow> 'k \<Rightarrow> bool" where
  "bt_contains_key m k = (bt_get m k \<noteq> None)"

definition bt_keys :: "('k::linorder, 'v) btree_map \<Rightarrow> 'k list" where
  "bt_keys m = map fst (bt_entries m)"

definition bt_values :: "('k::linorder, 'v) btree_map \<Rightarrow> 'v list" where
  "bt_values m = map snd (bt_entries m)"

definition bt_len :: "('k::linorder, 'v) btree_map \<Rightarrow> nat" where
  "bt_len m = length (bt_entries m)"

definition bt_is_empty :: "('k::linorder, 'v) btree_map \<Rightarrow> bool" where
  "bt_is_empty m = (bt_entries m = [])"

definition bt_remove :: "'k::linorder \<Rightarrow> ('k, 'v) btree_map \<Rightarrow> ('k, 'v) btree_map" where
  "bt_remove k m = bt_retain (\<lambda>k' _. k' \<noteq> k) m"

text \<open>\<^verbatim>\<open>collect()\<close> into a map: later entries overwrite earlier ones.\<close>

definition bt_of_list :: "('k::linorder \<times> 'v) list \<Rightarrow> ('k, 'v) btree_map" where
  "bt_of_list xs = fold (\<lambda>(k, v). bt_insert k v) xs bt_empty"

text \<open>\<^verbatim>\<open>get(k).unwrap_or_default()\<close> and the \<^verbatim>\<open>entry\<close> interface.\<close>

definition bt_get_or :: "'v \<Rightarrow> ('k::linorder, 'v) btree_map \<Rightarrow> 'k \<Rightarrow> 'v" where
  "bt_get_or d m k = (case bt_get m k of None \<Rightarrow> d | Some v \<Rightarrow> v)"

definition bt_entry :: "'k::linorder \<Rightarrow> 'v \<Rightarrow> ('v \<Rightarrow> 'v) \<Rightarrow> ('k, 'v) btree_map \<Rightarrow> ('k, 'v) btree_map" where
  "bt_entry k d f m = bt_insert k (f (bt_get_or d m k)) m"

text \<open>An update through \<^verbatim>\<open>get_mut(k)\<close>: nothing happens to a missing key.\<close>

definition bt_modify :: "'k::linorder \<Rightarrow> ('v \<Rightarrow> 'v) \<Rightarrow> ('k, 'v) btree_map \<Rightarrow> ('k, 'v) btree_map" where
  "bt_modify k f m = (case bt_get m k of None \<Rightarrow> m | Some v \<Rightarrow> bt_insert k (f v) m)"

section \<open>Laws of lookup\<close>

lemma bt_entries_sorted: "sorted_wrt (<) (map fst (bt_entries m))"
  using bt_entries [of m] by simp

lemma bt_keys_sorted: "sorted_wrt (<) (bt_keys m)"
  by (simp add: bt_keys_def bt_entries_sorted)

lemma bt_keys_distinct: "distinct (bt_keys m)"
  using bt_keys_sorted strict_sorted_iff by blast

lemma bt_entries_distinct: "distinct (map fst (bt_entries m))"
  using bt_keys_distinct [of m] by (simp add: bt_keys_def)

lemma map_of_ins_entry:
  "sorted_wrt (<) (map fst xs) \<Longrightarrow> map_of (ins_entry k v xs) = (map_of xs)(k \<mapsto> v)"
  by (induction k v xs rule: ins_entry.induct) (auto simp: fun_eq_iff)

lemma bt_get_empty [simp, bt_simps]: "bt_get bt_empty k = None"
  by (simp add: bt_get_def bt_empty.rep_eq)

lemma bt_get_insert [simp, bt_simps]:
  "bt_get (bt_insert k v m) k' = (if k' = k then Some v else bt_get m k')"
  by (simp add: bt_get_def bt_insert.rep_eq map_of_ins_entry bt_entries_sorted)

lemma bt_get_retain [bt_simps]:
  "bt_get (bt_retain P m) k =
     (case bt_get m k of None \<Rightarrow> None | Some v \<Rightarrow> if P k v then Some v else None)"
  by (simp add: bt_get_def bt_retain.rep_eq map_of_filter_distinct [OF bt_entries_distinct] split: option.split bind_split)

lemma bt_get_remove [simp, bt_simps]:
  "bt_get (bt_remove k m) k' = (if k' = k then None else bt_get m k')"
  by (auto simp: bt_remove_def bt_get_retain split: option.splits)

lemma bt_get_map_values [bt_simps]:
  "bt_get (bt_map_values f m) k = map_option (f k) (bt_get m k)"
proof -
  have "map_of (map (\<lambda>(k, v). (k, f k v)) xs) k = map_option (f k) (map_of xs k)" for xs
    by (induction xs) auto
  then show ?thesis by (simp add: bt_get_def bt_map_values.rep_eq)
qed

lemma bt_contains_insert [simp, bt_simps]:
  "bt_contains_key (bt_insert k v m) k' \<longleftrightarrow> k' = k \<or> bt_contains_key m k'"
  by (simp add: bt_contains_key_def)

lemma bt_contains_remove [simp, bt_simps]:
  "bt_contains_key (bt_remove k m) k' \<longleftrightarrow> k' \<noteq> k \<and> bt_contains_key m k'"
  by (simp add: bt_contains_key_def)

lemma bt_contains_empty [simp, bt_simps]: "\<not> bt_contains_key bt_empty k"
  by (simp add: bt_contains_key_def)

lemma bt_contains_map_values [simp, bt_simps]:
  "bt_contains_key (bt_map_values f m) k \<longleftrightarrow> bt_contains_key m k"
  by (simp add: bt_contains_key_def bt_get_map_values)

lemma bt_contains_iff: "bt_contains_key m k \<longleftrightarrow> (\<exists>v. bt_get m k = Some v)"
  by (auto simp: bt_contains_key_def)

lemma bt_get_SomeD [dest]: "bt_get m k = Some v \<Longrightarrow> bt_contains_key m k"
  by (simp add: bt_contains_key_def)

lemma bt_entries_iff: "(k, v) \<in> set (bt_entries m) \<longleftrightarrow> bt_get m k = Some v"
  using map_of_eq_Some_iff [OF bt_entries_distinct [of m]] unfolding bt_get_def by metis

lemma bt_keys_iff [simp]: "k \<in> set (bt_keys m) \<longleftrightarrow> bt_contains_key m k"
  by (force simp: bt_keys_def bt_contains_iff bt_entries_iff [symmetric])

lemma bt_values_iff: "v \<in> set (bt_values m) \<longleftrightarrow> (\<exists>k. bt_get m k = Some v)"
  by (force simp: bt_values_def bt_entries_iff [symmetric])

text \<open>Maps with the same lookups are equal: the representation is canonical.\<close>

lemma sorted_entries_unique:
  assumes "sorted_wrt (<) (map fst xs)" "sorted_wrt (<) (map fst ys)"
    and "map_of xs = map_of ys"
  shows "xs = (ys :: ('k::linorder \<times> 'v) list)"
proof -
  have d: "distinct (map fst xs)" "distinct (map fst ys)"
    using assms(1,2) strict_sorted_iff by blast+
  have dom: "set (map fst xs) = set (map fst ys)"
    using assms(3) by (metis dom_map_of_conv_image_fst set_map)
  have keys: "map fst xs = map fst ys"
    by (rule strict_sorted_equal [OF assms(2,1) dom])
  have "p \<in> set xs \<longleftrightarrow> p \<in> set ys" for p
    using map_of_eq_Some_iff [OF d(1), of "fst p" "snd p"]
      map_of_eq_Some_iff [OF d(2), of "fst p" "snd p"] assms(3) by simp
  then have set: "set xs = set ys" by blast
  show ?thesis
  proof (rule nth_equalityI)
    show "length xs = length ys" using keys by (metis length_map)
  next
    fix i
    assume i: "i < length xs"
    have len: "length xs = length ys" using keys by (metis length_map)
    have f: "fst (xs ! i) = fst (ys ! i)"
      using i len keys by (metis nth_map)
    have "xs ! i \<in> set ys" using i set nth_mem by blast
    then have x: "(fst (ys ! i), snd (xs ! i)) \<in> set ys" by (simp flip: f)
    have y: "(fst (ys ! i), snd (ys ! i)) \<in> set ys" using i len by simp
    have "snd (xs ! i) = snd (ys ! i)" by (rule eq_key_imp_eq_value [OF d(2) x y])
    with f show "xs ! i = ys ! i" by (rule prod_eqI)
  qed
qed

lemma bt_eqI: "(\<And>k. bt_get m k = bt_get m' k) \<Longrightarrow> m = m'"
  by (rule bt_entries_inject [THEN iffD1], rule sorted_entries_unique)
    (auto simp: bt_entries_sorted bt_get_def fun_eq_iff)

lemma bt_eq_iff: "m = m' \<longleftrightarrow> (\<forall>k. bt_get m k = bt_get m' k)"
  by (auto intro: bt_eqI)

lemma bt_is_empty_iff [bt_simps]: "bt_is_empty m \<longleftrightarrow> (\<forall>k. bt_get m k = None)"
proof -
  have "bt_entries m = [] \<longleftrightarrow> m = bt_empty"
    by (metis bt_empty.rep_eq bt_entries_inject)
  then show ?thesis by (auto simp: bt_is_empty_def bt_eq_iff)
qed

lemma bt_is_empty_empty [simp]: "bt_is_empty bt_empty"
  by (simp add: bt_is_empty_iff)

lemma bt_get_or_simps [simp]:
  "bt_get m k = Some v \<Longrightarrow> bt_get_or d m k = v"
  "bt_get m k = None \<Longrightarrow> bt_get_or d m k = d"
  by (simp_all add: bt_get_or_def)

lemma bt_get_entry [simp, bt_simps]:
  "bt_get (bt_entry k d f m) k' = (if k' = k then Some (f (bt_get_or d m k)) else bt_get m k')"
  by (simp add: bt_entry_def)

lemma bt_get_modify [simp, bt_simps]:
  "bt_get (bt_modify k f m) k' = (if k' = k then map_option f (bt_get m k) else bt_get m k')"
  by (auto simp: bt_modify_def split: option.splits)

lemma bt_contains_modify [simp, bt_simps]: "bt_contains_key (bt_modify k f m) k' \<longleftrightarrow> bt_contains_key m k'"
  by (auto simp: bt_contains_key_def)

lemma bt_contains_entry [simp, bt_simps]:
  "bt_contains_key (bt_entry k d f m) k' \<longleftrightarrow> k' = k \<or> bt_contains_key m k'"
  by (simp add: bt_entry_def)

lemma bt_contains_retainD: "bt_contains_key (bt_retain P m) k \<Longrightarrow> bt_contains_key m k"
  by (auto simp: bt_contains_key_def bt_get_retain split: option.splits)

lemma bt_remove_absent: "\<not> bt_contains_key m k \<Longrightarrow> bt_remove k m = m"
  by (rule bt_eqI) (auto simp: bt_contains_key_def)

lemma bt_retain_all: "(\<And>k v. bt_get m k = Some v \<Longrightarrow> P k v) \<Longrightarrow> bt_retain P m = m"
  by (rule bt_eqI) (auto simp: bt_get_retain split: option.splits)

lemma bt_get_fold_insert:
  "bt_get (fold (\<lambda>(k, v). bt_insert k v) xs m) k =
     (case map_of (rev xs) k of None \<Rightarrow> bt_get m k | Some v \<Rightarrow> Some v)"
proof (induction xs arbitrary: m)
  case Nil
  then show ?case by simp
next
  case (Cons x xs)
  then show ?case
    by (cases x) (auto simp: map_add_def split: option.splits)
qed

lemma bt_get_of_list [bt_simps]: "bt_get (bt_of_list xs) k = map_of (rev xs) k"
  by (simp add: bt_of_list_def bt_get_fold_insert split: option.splits)

lemma bt_len_insert:
  "bt_len (bt_insert k v m) = (if bt_contains_key m k then bt_len m else Suc (bt_len m))"
proof -
  have "sorted_wrt (<) (map fst xs) \<Longrightarrow>
      length (ins_entry k v xs) = (if k \<in> fst ` set xs then length xs else Suc (length xs))" for xs
    by (induction k v xs rule: ins_entry.induct) force+
  from this [OF bt_entries_sorted [of m]] show ?thesis
    using bt_keys_iff [of k m] by (simp add: bt_len_def bt_insert.rep_eq bt_keys_def)
qed

lemma bt_len_retain_le: "bt_len (bt_retain P m) \<le> bt_len m"
  by (simp add: bt_len_def bt_retain.rep_eq)

lemma bt_len_0_iff: "bt_len m = 0 \<longleftrightarrow> bt_is_empty m"
  by (simp add: bt_len_def bt_is_empty_def)

section \<open>Ordered sets\<close>

type_synonym 'a btree_set = "('a, unit) btree_map"

definition bs_contains :: "'a::linorder btree_set \<Rightarrow> 'a \<Rightarrow> bool" where
  "bs_contains s x = bt_contains_key s x"

definition bs_insert :: "'a::linorder \<Rightarrow> 'a btree_set \<Rightarrow> 'a btree_set" where
  "bs_insert x s = bt_insert x () s"

definition bs_remove :: "'a::linorder \<Rightarrow> 'a btree_set \<Rightarrow> 'a btree_set" where
  "bs_remove x s = bt_remove x s"

definition bs_retain :: "('a::linorder \<Rightarrow> bool) \<Rightarrow> 'a btree_set \<Rightarrow> 'a btree_set" where
  "bs_retain P s = bt_retain (\<lambda>x _. P x) s"

definition bs_list :: "'a::linorder btree_set \<Rightarrow> 'a list" where
  "bs_list s = bt_keys s"

definition bs_of_list :: "'a::linorder list \<Rightarrow> 'a btree_set" where
  "bs_of_list xs = fold bs_insert xs bt_empty"

definition bs_is_subset :: "'a::linorder btree_set \<Rightarrow> 'a btree_set \<Rightarrow> bool" where
  "bs_is_subset s t = list_all (bs_contains t) (bs_list s)"

definition bs_difference :: "'a::linorder btree_set \<Rightarrow> 'a btree_set \<Rightarrow> 'a list" where
  "bs_difference s t = filter (\<lambda>x. \<not> bs_contains t x) (bs_list s)"

text \<open>The elements of an ordered set.\<close>

definition bs_set :: "'a::linorder btree_set \<Rightarrow> 'a set" where
  "bs_set s = set (bs_list s)"

lemma bs_contains_iff [simp]: "bs_contains s x \<longleftrightarrow> x \<in> bs_set s"
  by (simp add: bs_contains_def bs_set_def bs_list_def)

lemma set_bs_list [simp]: "set (bs_list s) = bs_set s"
  by (simp add: bs_set_def)

lemma bs_set_get: "x \<in> bs_set s \<longleftrightarrow> bt_get s x = Some ()"
  unfolding bs_set_def bs_list_def by (simp add: bt_contains_iff)

lemma bs_set_empty [simp]: "bs_set bt_empty = {}"
  by (auto simp: bs_set_get)

lemma bs_set_insert [simp]: "bs_set (bs_insert x s) = insert x (bs_set s)"
  by (auto simp: bs_set_get bs_insert_def split: if_splits)

lemma bs_set_remove [simp]: "bs_set (bs_remove x s) = bs_set s - {x}"
  by (auto simp: bs_set_get bs_remove_def split: if_splits)

lemma bs_set_retain [simp]: "bs_set (bs_retain P s) = {x \<in> bs_set s. P x}"
  by (auto simp: bs_set_get bs_retain_def bt_get_retain split: option.splits if_splits)

lemma bs_set_fold_insert: "bs_set (fold bs_insert xs s) = set xs \<union> bs_set s"
  by (induction xs arbitrary: s) auto

lemma bs_set_of_list [simp]: "bs_set (bs_of_list xs) = set xs"
  by (simp add: bs_of_list_def bs_set_fold_insert)

lemma bs_is_subset_iff [simp]: "bs_is_subset s t \<longleftrightarrow> bs_set s \<subseteq> bs_set t"
  by (auto simp: bs_is_subset_def list_all_iff)

lemma set_bs_difference [simp]: "set (bs_difference s t) = bs_set s - bs_set t"
  by (auto simp: bs_difference_def)

lemma bs_is_empty_iff [simp]: "bt_is_empty (s :: 'a::linorder btree_set) \<longleftrightarrow> bs_set s = {}"
  unfolding bt_is_empty_def bs_set_def bs_list_def bt_keys_def by simp

lemma finite_bs_set [simp]: "finite (bs_set s)"
  unfolding bs_set_def by (rule finite_set)

lemma bs_eqI: "bs_set s = bs_set t \<Longrightarrow> s = t"
proof (rule bt_eqI)
  fix x
  assume "bs_set s = bs_set t"
  then have "x \<in> bs_set s \<longleftrightarrow> x \<in> bs_set t" by simp
  then show "bt_get s x = bt_get t x"
    unfolding bs_set_get by (cases "bt_get s x"; cases "bt_get t x") auto
qed

lemma bs_eq_iff: "s = t \<longleftrightarrow> bs_set s = bs_set t" for s t :: "'a::linorder btree_set"
  by (auto intro: bs_eqI)

lemma bs_list_distinct [simp]: "distinct (bs_list s)"
  by (simp add: bs_list_def bt_keys_distinct)

lemma bs_list_sorted: "sorted_wrt (<) (bs_list s)"
  by (simp add: bs_list_def bt_keys_sorted)

lemma length_bs_difference: "length (bs_difference s t) = card (bs_set s - bs_set t)"
  by (metis bs_difference_def bs_list_distinct distinct_card distinct_filter set_bs_difference)

section \<open>Executable equality\<close>

text \<open>
  \<^verbatim>\<open>PartialEq\<close> of the containers compares the sequences of entries; keys are compared
  by their order.
\<close>

fun same_entries :: "('k::linorder \<times> 'v) list \<Rightarrow> ('k \<times> 'v) list \<Rightarrow> bool" where
  "same_entries [] [] = True"
| "same_entries ((k, v) # xs) ((l, w) # ys) = (k \<le> l \<and> l \<le> k \<and> v = w \<and> same_entries xs ys)"
| "same_entries _ _ = False"

lemma same_entries_iff: "same_entries xs ys \<longleftrightarrow> xs = ys"
  by (induction xs ys rule: same_entries.induct) auto

instantiation btree_map :: (linorder, equal) equal
begin

definition equal_btree_map :: "('a, 'b) btree_map \<Rightarrow> ('a, 'b) btree_map \<Rightarrow> bool" where
  "equal_btree_map m m' \<longleftrightarrow> same_entries (bt_entries m) (bt_entries m')"

instance
  by standard (simp add: equal_btree_map_def same_entries_iff bt_entries_inject)

end

section \<open>Interface\<close>

text \<open>
  What the components rely on when they keep a table: the laws of a finite map with a retained
  part. They are stated once and the client lemmas are proved from them; the ordered map of the
  standard library provides them.
\<close>

locale table =
  fixes empty :: "'m"
    and get :: "'m \<Rightarrow> 'k \<Rightarrow> 'v option"
    and put :: "'k \<Rightarrow> 'v \<Rightarrow> 'm \<Rightarrow> 'm"
    and keep :: "('k \<Rightarrow> 'v \<Rightarrow> bool) \<Rightarrow> 'm \<Rightarrow> 'm"
  assumes get_empty: "get empty k = None"
    and get_put: "get (put k v m) k' = (if k' = k then Some v else get m k')"
    and get_keep: "get (keep P m) k =
      (case get m k of None \<Rightarrow> None | Some v \<Rightarrow> if P k v then Some v else None)"
    and ext: "(\<And>k. get m k = get m' k) \<Longrightarrow> m = m'"
begin

lemma put_put_same: "put k v (put k w m) = put k v m"
  by (rule ext) (simp add: get_put)

lemma put_commute: "k \<noteq> k' \<Longrightarrow> put k v (put k' w m) = put k' w (put k v m)"
  by (rule ext) (simp add: get_put)

lemma put_get_same: "get m k = Some v \<Longrightarrow> put k v m = m"
  by (rule ext) (simp add: get_put)

lemma keep_keep: "keep P (keep Q m) = keep (\<lambda>k v. P k v \<and> Q k v) m"
  by (rule ext) (simp add: get_keep split: option.splits)

lemma keep_idem: "keep P (keep P m) = keep P m"
  by (simp add: keep_keep)

lemma keep_put: "keep P (put k v m) = (if P k v then put k v (keep P m) else keep (\<lambda>k' w. k' \<noteq> k \<and> P k' w) m)"
  by (rule ext) (auto simp: get_keep get_put split: option.splits)

lemma get_fold_put:
  assumes "distinct (map key xs)"
  shows "get (fold (\<lambda>x. put (key x) (val x)) xs m) k =
    (case find (\<lambda>x. key x = k) xs of None \<Rightarrow> get m k | Some x \<Rightarrow> Some (val x))"
  using assms
proof (induction xs arbitrary: m)
  case Nil
  then show ?case by simp
next
  case (Cons x xs)
  have "find (\<lambda>y. key y = key x) xs = None"
    using Cons.prems unfolding find_None_iff by (metis distinct.simps(2) image_eqI list.simps(9) set_map)
  with Cons show ?case by (auto simp: get_put split: option.splits)
qed

end

interpretation bt: table bt_empty bt_get bt_insert bt_retain
  by unfold_locales (auto simp: bt_get_retain intro: bt_eqI)

end
