(* ===== verification/Xp_Text.thy ===== *)
theory Xp_Text
  imports Xp_BTree "HOL-Library.Sublist"
begin

text \<open>
  The string operations of the Rust standard library that the sources use. A Rust
  \<^verbatim>\<open>String\<close> is the list of its UTF-8 bytes (\<open>char\<close> is a byte), so
  \<^verbatim>\<open>len()\<close> is \<open>length\<close> and \<^verbatim>\<open>Ord\<close> is the lexicographic order of
  bytes. The white space of \<^verbatim>\<open>trim\<close> is the Unicode property, given by the encodings of
  its 25 characters; UTF-8 is self-synchronising, so an encoding found at the ends of a
  string is a character of it.
\<close>

section \<open>White space and trimming\<close>

definition white_space :: "string list" where
  "white_space =
     [[CHR 0x09], [CHR 0x0A], [CHR 0x0B], [CHR 0x0C], [CHR 0x0D], [CHR 0x20],
      [CHR 0xC2, CHR 0x85], [CHR 0xC2, CHR 0xA0],
      [CHR 0xE1, CHR 0x9A, CHR 0x80],
      [CHR 0xE2, CHR 0x80, CHR 0x80], [CHR 0xE2, CHR 0x80, CHR 0x81],
      [CHR 0xE2, CHR 0x80, CHR 0x82], [CHR 0xE2, CHR 0x80, CHR 0x83],
      [CHR 0xE2, CHR 0x80, CHR 0x84], [CHR 0xE2, CHR 0x80, CHR 0x85],
      [CHR 0xE2, CHR 0x80, CHR 0x86], [CHR 0xE2, CHR 0x80, CHR 0x87],
      [CHR 0xE2, CHR 0x80, CHR 0x88], [CHR 0xE2, CHR 0x80, CHR 0x89],
      [CHR 0xE2, CHR 0x80, CHR 0x8A],
      [CHR 0xE2, CHR 0x80, CHR 0xA8], [CHR 0xE2, CHR 0x80, CHR 0xA9],
      [CHR 0xE2, CHR 0x80, CHR 0xAF], [CHR 0xE2, CHR 0x81, CHR 0x9F],
      [CHR 0xE3, CHR 0x80, CHR 0x80]]"

fun strip_one :: "string list \<Rightarrow> string \<Rightarrow> string option" where
  "strip_one [] s = None"
| "strip_one (p # ps) s =
     (if p \<noteq> [] \<and> take (length p) s = p then Some (drop (length p) s) else strip_one ps s)"

lemma strip_one_shorter: "strip_one ps s = Some t \<Longrightarrow> length t < length s"
proof (induction ps)
  case Nil
  then show ?case by simp
next
  case (Cons p ps)
  show ?case
  proof (cases "p \<noteq> [] \<and> take (length p) s = p")
    case True
    then have "length p \<le> length s" by (metis length_take min.cobounded1)
    moreover have "0 < length p" using True by simp
    moreover have "length t = length s - length p" using True Cons.prems by auto
    ultimately show ?thesis by linarith
  next
    case False
    with Cons show ?thesis by simp
  qed
qed

function strip_all :: "string list \<Rightarrow> string \<Rightarrow> string" where
  "strip_all ps s = (case strip_one ps s of None \<Rightarrow> s | Some t \<Rightarrow> strip_all ps t)"
  by pat_completeness auto
termination
  by (relation "measure (\<lambda>(ps, s). length s)") (auto dest: strip_one_shorter)

declare strip_all.simps [simp del]

definition trim_start :: "string \<Rightarrow> string" where
  "trim_start s = strip_all white_space s"

definition trim_end :: "string \<Rightarrow> string" where
  "trim_end s = rev (strip_all (map rev white_space) (rev s))"

definition trim :: "string \<Rightarrow> string" where
  "trim s = trim_end (trim_start s)"

text \<open>\<^verbatim>\<open>chars().any(|c| c.is_whitespace())\<close>.\<close>

fun has_white_space :: "string \<Rightarrow> bool" where
  "has_white_space [] = False"
| "has_white_space (c # s) = (strip_one white_space (c # s) \<noteq> None \<or> has_white_space s)"

text \<open>\<^verbatim>\<open>chars().any(char::is_control)\<close>: U+0000 to U+001F and U+007F to U+009F.\<close>

fun has_control :: "string \<Rightarrow> bool" where
  "has_control [] = False"
| "has_control (c # s) =
     (of_char c < (32 :: nat) \<or> of_char c = (127 :: nat) \<or>
      (c = CHR 0xC2 \<and> (case s of [] \<Rightarrow> False | d # _ \<Rightarrow> 128 \<le> (of_char d :: nat) \<and> of_char d < (160 :: nat))) \<or>
      has_control s)"

lemma strip_one_strip_all: "strip_one ps (strip_all ps s) = None"
proof (induction ps s rule: strip_all.induct)
  case (1 ps s)
  show ?case
  proof (cases "strip_one ps s")
    case None
    then show ?thesis by (simp add: strip_all.simps [of ps s])
  next
    case (Some t)
    with "1.IH" show ?thesis by (simp add: strip_all.simps [of ps s])
  qed
qed

lemma strip_all_fixed: "strip_one ps s = None \<Longrightarrow> strip_all ps s = s"
  by (simp add: strip_all.simps)

lemma strip_all_suffix: "\<exists>u. s = u @ strip_all ps s"
proof (induction ps s rule: strip_all.induct)
  case (1 ps s)
  show ?case
  proof (cases "strip_one ps s")
    case None
    then show ?thesis by (auto simp: strip_all_fixed)
  next
    case (Some t)
    then obtain v where v: "s = v @ t"
    proof (induction ps)
      case (Cons p ps)
      then show ?case by (auto split: if_splits) (metis append_take_drop_id)
    qed simp
    from "1.IH" Some obtain u where "t = u @ strip_all ps t" by blast
    moreover have "strip_all ps s = strip_all ps t" using Some by (simp add: strip_all.simps [of ps s])
    ultimately have "s = (v @ u) @ strip_all ps s" using v by simp
    then show ?thesis by blast
  qed
qed

lemma strip_one_append: "strip_one ps s \<noteq> None \<Longrightarrow> strip_one ps (s @ u) \<noteq> None"
proof (induction ps)
  case (Cons p ps)
  show ?case
  proof (cases "p \<noteq> [] \<and> take (length p) s = p")
    case True
    then have "length p \<le> length s" by (metis length_take min.cobounded1)
    with True show ?thesis by simp
  next
    case False
    with Cons show ?thesis by simp
  qed
qed simp

lemma trim_start_fixed: "strip_one white_space s = None \<Longrightarrow> trim_start s = s"
  by (simp add: trim_start_def strip_all_fixed)

lemma strip_one_trim: "strip_one white_space (trim s) = None"
proof -
  obtain u where u: "rev (trim_start s) = u @ strip_all (map rev white_space) (rev (trim_start s))"
    using strip_all_suffix by blast
  then have "trim_start s = trim s @ rev u"
    by (metis rev_append rev_rev_ident trim_def trim_end_def)
  moreover have "strip_one white_space (trim_start s) = None"
    by (simp add: trim_start_def strip_one_strip_all)
  ultimately show ?thesis using strip_one_append by metis
qed

text \<open>Trimming is idempotent.\<close>

lemma trim_trim [simp]: "trim (trim s) = trim s"
proof -
  have "trim_start (trim s) = trim s" by (rule trim_start_fixed [OF strip_one_trim])
  moreover have "trim_end (trim s) = trim s"
    by (simp add: trim_def trim_end_def strip_all_fixed strip_one_strip_all)
  ultimately show ?thesis unfolding trim_def [of "trim s"] by simp
qed

section \<open>Searching and splitting\<close>

fun contains_str :: "string \<Rightarrow> string \<Rightarrow> bool" where
  "contains_str p [] = (p = [])"
| "contains_str p (c # s) = (take (length p) (c # s) = p \<or> contains_str p s)"

definition contains_char :: "char \<Rightarrow> string \<Rightarrow> bool" where
  "contains_char c s = (c \<in> set s)"

definition starts_with :: "char \<Rightarrow> string \<Rightarrow> bool" where
  "starts_with c s = (case s of [] \<Rightarrow> False | d # _ \<Rightarrow> d = c)"

definition ends_with :: "char \<Rightarrow> string \<Rightarrow> bool" where
  "ends_with c s = starts_with c (rev s)"

definition strip_prefix :: "string \<Rightarrow> string \<Rightarrow> string option" where
  "strip_prefix p s = (if take (length p) s = p then Some (drop (length p) s) else None)"

definition strip_suffix_char :: "char \<Rightarrow> string \<Rightarrow> string option" where
  "strip_suffix_char c s = (if ends_with c s then Some (butlast s) else None)"

fun split_on :: "char \<Rightarrow> string \<Rightarrow> string list" where
  "split_on c [] = [[]]"
| "split_on c (x # s) =
     (if x = c then [] # split_on c s
      else (case split_on c s of [] \<Rightarrow> [[x]] | l # ls \<Rightarrow> (x # l) # ls))"

definition split_once :: "char \<Rightarrow> string \<Rightarrow> (string \<times> string) option" where
  "split_once c s =
     (if c \<in> set s then Some (takeWhile (\<lambda>x. x \<noteq> c) s, tl (dropWhile (\<lambda>x. x \<noteq> c) s)) else None)"

definition rsplit_once :: "char \<Rightarrow> string \<Rightarrow> (string \<times> string) option" where
  "rsplit_once c s =
     (case split_once c (rev s) of None \<Rightarrow> None | Some (a, b) \<Rightarrow> Some (rev b, rev a))"

lemma split_on_nonempty [simp]: "split_on c s \<noteq> []"
  by (induction c s rule: split_on.induct) (auto split: list.splits)

lemma split_on_free: "l \<in> set (split_on c s) \<Longrightarrow> c \<notin> set l"
proof (induction c s arbitrary: l rule: split_on.induct)
  case (1 c)
  then show ?case by simp
next
  case (2 c x s)
  then show ?case by (cases "split_on c s") (auto split: if_splits)
qed

lemma first_occurrence:
  "c \<in> set s \<Longrightarrow>
     s = takeWhile (\<lambda>x. x \<noteq> c) s @ c # tl (dropWhile (\<lambda>x. x \<noteq> c) s) \<and>
     c \<notin> set (takeWhile (\<lambda>x. x \<noteq> c) s)"
  by (induction s) auto

lemma split_once_eq: "split_once c s = Some (a, b) \<Longrightarrow> s = a @ c # b \<and> c \<notin> set a"
  using first_occurrence [of c s] by (auto simp: split_once_def split: if_splits)

lemma rsplit_once_eq: "rsplit_once c s = Some (a, b) \<Longrightarrow> s = a @ c # b \<and> c \<notin> set b"
proof -
  assume "rsplit_once c s = Some (a, b)"
  then have "split_once c (rev s) = Some (rev b, rev a)"
    by (auto simp: rsplit_once_def split: option.splits)
  then have "rev s = rev b @ c # rev a \<and> c \<notin> set (rev b)" by (rule split_once_eq)
  then show ?thesis
    by (metis append.assoc append_Cons append_Nil rev.simps(2) rev_append rev_rev_ident set_rev)
qed

section \<open>ASCII classes and case\<close>

definition is_ascii_digit :: "char \<Rightarrow> bool" where
  "is_ascii_digit c = (48 \<le> (of_char c :: nat) \<and> of_char c \<le> (57 :: nat))"

definition is_ascii_upper :: "char \<Rightarrow> bool" where
  "is_ascii_upper c = (65 \<le> (of_char c :: nat) \<and> of_char c \<le> (90 :: nat))"

definition is_ascii_lower :: "char \<Rightarrow> bool" where
  "is_ascii_lower c = (97 \<le> (of_char c :: nat) \<and> of_char c \<le> (122 :: nat))"

definition is_ascii_alphanumeric :: "char \<Rightarrow> bool" where
  "is_ascii_alphanumeric c = (is_ascii_digit c \<or> is_ascii_upper c \<or> is_ascii_lower c)"

definition is_ascii_hexdigit :: "char \<Rightarrow> bool" where
  "is_ascii_hexdigit c =
     (is_ascii_digit c \<or> (65 \<le> (of_char c :: nat) \<and> of_char c \<le> (70 :: nat)) \<or>
      (97 \<le> (of_char c :: nat) \<and> of_char c \<le> (102 :: nat)))"

text \<open>The lower-case letter differs from the upper-case one in bit 5 only.\<close>

definition to_ascii_lower_char :: "char \<Rightarrow> char" where
  "to_ascii_lower_char c =
     (if is_ascii_upper c
      then (case c of Char b0 b1 b2 b3 b4 b5 b6 b7 \<Rightarrow> Char b0 b1 b2 b3 b4 True b6 b7) else c)"

definition to_ascii_lowercase :: "string \<Rightarrow> string" where
  "to_ascii_lowercase s = map to_ascii_lower_char s"

lemma of_char_set_bit5:
  "of_char (Char b0 b1 b2 b3 b4 True b6 b7) =
     (of_char (Char b0 b1 b2 b3 b4 False b6 b7) + 32 :: nat)"
  by simp

lemma to_ascii_lower_char_not_upper: "\<not> is_ascii_upper (to_ascii_lower_char c)"
proof (cases "is_ascii_upper c")
  case False
  then show ?thesis by (simp add: to_ascii_lower_char_def)
next
  case True
  obtain b0 b1 b2 b3 b4 b5 b6 b7 where c: "c = Char b0 b1 b2 b3 b4 b5 b6 b7" by (cases c)
  from True show ?thesis
    unfolding c to_ascii_lower_char_def is_ascii_upper_def
    by (cases b0; cases b1; cases b2; cases b3; cases b4; cases b5; cases b6; cases b7; simp)
qed

lemma to_ascii_lowercase_idem [simp]:
  "to_ascii_lowercase (to_ascii_lowercase s) = to_ascii_lowercase s"
  by (simp add: to_ascii_lowercase_def to_ascii_lower_char_def [of "to_ascii_lower_char _"]
      to_ascii_lower_char_not_upper)

section \<open>Numbers and socket addresses\<close>

text \<open>
  The parsers of \<^verbatim>\<open>std::net\<close>: each returns what it read and the rest. Digits are read
  greedily; more than \<open>max\<close> digits, no digit, an overflow, or (where leading zeros are not
  allowed) a leading zero is a failure.
\<close>

definition digit_value :: "nat \<Rightarrow> char \<Rightarrow> nat option" where
  "digit_value radix c =
     (let n = (of_char c :: nat);
          d = (if is_ascii_digit c then Some (n - 48)
               else if is_ascii_lower c then Some (n - 87)
               else if is_ascii_upper c then Some (n - 55) else None)
      in case d of None \<Rightarrow> None | Some v \<Rightarrow> if v < radix then Some v else None)"

fun number_of :: "nat \<Rightarrow> nat \<Rightarrow> string \<Rightarrow> nat" where
  "number_of radix acc [] = acc"
| "number_of radix acc (c # s) =
     number_of radix (acc * radix + (case digit_value radix c of None \<Rightarrow> 0 | Some d \<Rightarrow> d)) s"

definition read_number ::
  "nat \<Rightarrow> nat option \<Rightarrow> bool \<Rightarrow> nat \<Rightarrow> string \<Rightarrow> (nat \<times> string) option" where
  "read_number radix max_digits allow_zero_prefix limit s =
     (let ds = takeWhile (\<lambda>c. digit_value radix c \<noteq> None) s;
          v = number_of radix 0 ds
      in if ds = [] then None
         else if (case max_digits of None \<Rightarrow> False | Some m \<Rightarrow> m < length ds) then None
         else if limit \<le> v then None
         else if \<not> allow_zero_prefix \<and> hd ds = CHR ''0'' \<and> 1 < length ds then None
         else Some (v, drop (length ds) s))"

definition read_char :: "char \<Rightarrow> string \<Rightarrow> string option" where
  "read_char c s = (case s of [] \<Rightarrow> None | d # t \<Rightarrow> if d = c then Some t else None)"

definition read_octet :: "string \<Rightarrow> (nat \<times> string) option" where
  "read_octet s = read_number 10 (Some 3) False 256 s"

definition read_ipv4_addr :: "string \<Rightarrow> string option" where
  "read_ipv4_addr s =
     Option.bind (read_octet s) (\<lambda>(_, s).
     Option.bind (read_char CHR ''.'' s) (\<lambda>s.
     Option.bind (read_octet s) (\<lambda>(_, s).
     Option.bind (read_char CHR ''.'' s) (\<lambda>s.
     Option.bind (read_octet s) (\<lambda>(_, s).
     Option.bind (read_char CHR ''.'' s) (\<lambda>s.
     Option.bind (read_octet s) (\<lambda>(_, s). Some s)))))))"

text \<open>
  \<^verbatim>\<open>read_groups\<close> of the IPv6 parser: at most \<open>limit\<close> groups, the result is the number
  of groups, whether an IPv4 tail was read, and the rest. \<open>i\<close> is the loop index; the first
  argument, the number of groups still allowed, makes the recursion structural.
\<close>

definition skip_separator :: "nat \<Rightarrow> string \<Rightarrow> string option" where
  "skip_separator i s = (if 0 < i then read_char CHR '':'' s else Some s)"

fun read_groups :: "nat \<Rightarrow> nat \<Rightarrow> nat \<Rightarrow> string \<Rightarrow> nat \<times> bool \<times> string" where
  "read_groups 0 i limit s = (i, False, s)"
| "read_groups (Suc n) i limit s =
     (let v4 = (if i < limit - 1 then Option.bind (skip_separator i s) read_ipv4_addr else None)
      in case v4 of
           Some t \<Rightarrow> (i + 2, True, t)
         | None \<Rightarrow>
             (case Option.bind (skip_separator i s) (read_number 16 (Some 4) True 65536) of
                None \<Rightarrow> (i, False, s)
              | Some (_, t) \<Rightarrow> read_groups n (i + 1) limit t))"

definition read_ipv6_addr :: "string \<Rightarrow> string option" where
  "read_ipv6_addr s =
     (let (head_size, head_ipv4, rest) = read_groups 8 0 8 s
      in if head_size = 8 then Some rest
         else if head_ipv4 then None
         else Option.bind (read_char CHR '':'' rest) (\<lambda>r.
              Option.bind (read_char CHR '':'' r) (\<lambda>r.
              (let limit = 8 - (head_size + 1); (_, _, r) = read_groups limit 0 limit r in Some r))))"

definition read_port :: "string \<Rightarrow> (nat \<times> string) option" where
  "read_port s = Option.bind (read_char CHR '':'' s) (read_number 10 None True 65536)"

definition read_scope_id :: "string \<Rightarrow> (nat \<times> string) option" where
  "read_scope_id s = Option.bind (read_char CHR ''%'' s) (read_number 10 None True (2 ^ 32))"

definition read_socket_addr_v4 :: "string \<Rightarrow> (nat \<times> string) option" where
  "read_socket_addr_v4 s = Option.bind (read_ipv4_addr s) read_port"

definition read_socket_addr_v6 :: "string \<Rightarrow> (nat \<times> string) option" where
  "read_socket_addr_v6 s =
     Option.bind (read_char CHR ''['' s) (\<lambda>s.
     Option.bind (read_ipv6_addr s) (\<lambda>s.
     Option.bind (read_char CHR '']'' (case read_scope_id s of None \<Rightarrow> s | Some (_, t) \<Rightarrow> t))
       read_port))"

definition is_ipv4_addr :: "string \<Rightarrow> bool" where
  "is_ipv4_addr s = (length s \<le> 15 \<and> read_ipv4_addr s = Some [])"

definition is_ipv6_addr :: "string \<Rightarrow> bool" where
  "is_ipv6_addr s = (read_ipv6_addr s = Some [])"

text \<open>The port of a string that parses as \<^verbatim>\<open>SocketAddr\<close>.\<close>

definition parse_socket_addr_port :: "string \<Rightarrow> nat option" where
  "parse_socket_addr_port s =
     (case (case read_socket_addr_v4 s of Some r \<Rightarrow> Some r | None \<Rightarrow> read_socket_addr_v6 s) of
        Some (port, []) \<Rightarrow> Some port | _ \<Rightarrow> None)"

text \<open>\<^verbatim>\<open>str::parse::<u16>\<close>: an optional plus sign, then digits only.\<close>

definition parse_u16 :: "string \<Rightarrow> nat option" where
  "parse_u16 s =
     (let ds = (case s of [] \<Rightarrow> [] | c # t \<Rightarrow> if c = CHR ''+'' then t else s)
      in if ds = [] \<or> \<not> list_all is_ascii_digit ds then None
         else (let v = number_of 10 0 ds in if v < 65536 then Some v else None))"

lemma parse_u16_bound: "parse_u16 s = Some p \<Longrightarrow> p < 65536"
  by (auto simp: parse_u16_def Let_def split: if_splits)

lemma read_number_bound: "read_number r m z l s = Some (v, t) \<Longrightarrow> v < l"
  by (auto simp: read_number_def Let_def split: if_splits)

end
