(* ===== verification/Xp_Domain.thy ===== *)
theory Xp_Domain
  imports Xp_Text
begin

text \<open>
  The domain types of \<^verbatim>\<open>domain/mod.rs\<close> and their validations: nodes, endpoints,
  users, quota resets, REALITY domains, and the error type of the desired state. A struct
  is a record whose fields carry a short prefix (the fields of different structs share one
  name space); an enum is a datatype with the source's constructors. A
  \<^verbatim>\<open>serde_json::Value\<close> is the datatype \<open>json\<close>, whose objects are listed in key order
  (the crate is used without \<^verbatim>\<open>preserve_order\<close>).
\<close>

section \<open>JSON values\<close>

datatype json =
    JNull
  | JBool bool
  | JInt int
  | JFloat string
  | JStr string
  | JArr "json list"
  | JObj "(string \<times> json) list"

definition json_field :: "string \<Rightarrow> json \<Rightarrow> json option" where
  "json_field k v = (case v of JObj kvs \<Rightarrow> map_of kvs k | _ \<Rightarrow> None)"

definition json_insert :: "string \<Rightarrow> json \<Rightarrow> (string \<times> json) list \<Rightarrow> (string \<times> json) list" where
  "json_insert k v kvs = ins_entry k v kvs"

definition is_object :: "json \<Rightarrow> bool" where
  "is_object v = (case v of JObj _ \<Rightarrow> True | _ \<Rightarrow> False)"

section \<open>Errors\<close>

datatype domain_error =
    InvalidPort u16
  | InvalidCycleDayOfMonth u8
  | InvalidTzOffsetMinutes int
  | InvalidNodeQuotaConfig string
  | MissingUser string
  | MissingNode string
  | MissingEndpoint string
  | EndpointChanged string
  | NodeInUse string string
  | NodeEndpointSetChanged string
  | NodeLifecycleOperationActive string
  | InvalidRealityServerName string string
  | InvalidAcceptedAuthority string string
  | VlessRealityServerNamesEmpty string
  | RealityDomainNameConflict string
  | RealityDomainNotFound string
  | RealityDomainsReorderInvalid string
  | RealityDomainsWouldBreakEndpoint string string

fun domain_error_code :: "domain_error \<Rightarrow> string" where
  "domain_error_code (RealityDomainNotFound _) = ''not_found''"
| "domain_error_code (NodeInUse _ _) = ''conflict''"
| "domain_error_code (NodeEndpointSetChanged _) = ''conflict''"
| "domain_error_code (NodeLifecycleOperationActive _) = ''conflict''"
| "domain_error_code (EndpointChanged _) = ''conflict''"
| "domain_error_code (RealityDomainNameConflict _) = ''conflict''"
| "domain_error_code _ = ''invalid_request''"

section \<open>Scalar validations\<close>

definition validate_port :: "u16 \<Rightarrow> domain_error + unit" where
  "validate_port port = (if port = 0 then Inl (InvalidPort port) else Inr ())"

definition validate_cycle_day_of_month :: "u8 \<Rightarrow> domain_error + unit" where
  "validate_cycle_day_of_month day =
     (if \<not> (1 \<le> day \<and> day \<le> 31) then Inl (InvalidCycleDayOfMonth day) else Inr ())"

definition validate_tz_offset_minutes :: "int \<Rightarrow> domain_error + unit" where
  "validate_tz_offset_minutes tz =
     (if \<not> (- 720 \<le> tz \<and> tz \<le> 840) then Inl (InvalidTzOffsetMinutes tz) else Inr ())"

lemma validate_port_ok [result_simps]: "validate_port p = Inr u \<longleftrightarrow> p \<noteq> 0"
  by (simp add: validate_port_def)

lemma validate_cycle_day_ok [result_simps]:
  "validate_cycle_day_of_month d = Inr u \<longleftrightarrow> 1 \<le> d \<and> d \<le> 31"
  by (simp add: validate_cycle_day_of_month_def)

lemma validate_tz_ok [result_simps]:
  "validate_tz_offset_minutes tz = Inr u \<longleftrightarrow> - 720 \<le> tz \<and> tz \<le> 840"
  by (simp add: validate_tz_offset_minutes_def)

section \<open>Data\<close>

datatype endpoint_kind = VlessRealityVisionTcp | Ss2022_2022Blake3Aes128Gcm

text \<open>The derived \<^verbatim>\<open>Ord\<close>: constructors in the order of their declaration.\<close>

instantiation endpoint_kind :: linorder
begin

definition less_eq_endpoint_kind :: "endpoint_kind \<Rightarrow> endpoint_kind \<Rightarrow> bool" where
  "less_eq_endpoint_kind a b = (a = b \<or> a = VlessRealityVisionTcp)"

definition less_endpoint_kind :: "endpoint_kind \<Rightarrow> endpoint_kind \<Rightarrow> bool" where
  "less_endpoint_kind a b = (a = VlessRealityVisionTcp \<and> b = Ss2022_2022Blake3Aes128Gcm)"

instance
proof
  fix x y z :: endpoint_kind
  show "(x < y) = (x \<le> y \<and> \<not> y \<le> x)"
    by (cases x; cases y) (simp_all add: less_eq_endpoint_kind_def less_endpoint_kind_def)
  show "x \<le> x" by (simp add: less_eq_endpoint_kind_def)
  show "x \<le> y \<Longrightarrow> y \<le> z \<Longrightarrow> x \<le> z" by (auto simp: less_eq_endpoint_kind_def)
  show "x \<le> y \<Longrightarrow> y \<le> x \<Longrightarrow> x = y" by (auto simp: less_eq_endpoint_kind_def)
  show "x \<le> y \<or> y \<le> x" by (cases x; cases y) (simp_all add: less_eq_endpoint_kind_def)
qed

end

datatype quota_reset_source = QrsUser | QrsNode

datatype user_quota_reset = UqrUnlimited int | UqrMonthly u8 int

datatype node_quota_reset = NqrUnlimited "int option" | NqrMonthly u8 "int option"

datatype user_priority_tier = P1 | P2 | P3

definition default_user_quota_reset :: user_quota_reset where
  "default_user_quota_reset = UqrMonthly 1 480"

definition default_node_quota_reset :: node_quota_reset where
  "default_node_quota_reset = NqrMonthly 1 None"

record node =
  n_node_id :: string
  n_node_name :: string
  n_access_host :: string
  n_api_base_url :: string
  n_quota_limit_bytes :: u64
  n_quota_reset :: node_quota_reset

record endpoint =
  ep_endpoint_id :: string
  ep_node_id :: string
  ep_tag :: string
  ep_kind :: endpoint_kind
  ep_port :: u16
  ep_meta :: json

record user =
  u_user_id :: string
  u_display_name :: string
  u_subscription_token :: string
  u_credential_epoch :: u32
  u_priority_tier :: user_priority_tier
  u_quota_reset :: user_quota_reset

record user_node_quota =
  unq_user_id :: string
  unq_node_id :: string
  unq_quota_limit_bytes :: u64
  unq_quota_reset_source :: quota_reset_source

record reality_domain =
  rd_domain_id :: string
  rd_server_name :: string
  rd_disabled_node_ids :: "string btree_set"

end
