(* ===== verification/Xp_Protocol.thy ===== *)
theory Xp_Protocol
  imports Xp_Domain
begin

unbundle bit_operations_syntax

text \<open>
  The endpoint protocol data of \<^verbatim>\<open>protocol.rs\<close>: the metadata of VLESS REALITY and
  Shadowsocks-2022 endpoints, the validation of server names, destinations, canary upstreams and
  smux settings, the normal form of accepted authorities, and the rotation of short ids. The URL
  parser of \<^verbatim>\<open>reqwest\<close> and the hexadecimal encoder of \<^verbatim>\<open>hex\<close> are parameters.
\<close>

section \<open>Data\<close>

datatype reality_server_names_source = SnManual | SnGlobal

datatype canary_upstream_mode = CumAuto | CumHttp1 | CumH2c

datatype vless_reality_transport = VisionTcp | Xhttp

record reality_config =
  rc_dest :: string
  rc_server_names :: "string list"
  rc_server_names_source :: reality_server_names_source
  rc_fingerprint :: string

record canary_upstream_config =
  cu_url :: string
  cu_mode :: canary_upstream_mode

record mihomo_smux_config =
  ms_enabled :: bool
  ms_max_connections :: u16
  ms_min_streams :: u16
  ms_only_tcp :: bool

record reality_keys =
  rk_private_key :: string
  rk_public_key :: string

record vless_meta =
  vm_reality :: reality_config
  vm_reality_keys :: reality_keys
  vm_short_ids :: "string list"
  vm_active_short_id :: string
  vm_canary_upstream :: "canary_upstream_config option"
  vm_accepted_authorities :: "string list"
  vm_mihomo_smux :: mihomo_smux_config
  vm_transport :: vless_reality_transport
  vm_managed_default :: bool

record ss2022_meta =
  ss_method :: string
  ss_server_psk_b64 :: string
  ss_mihomo_smux :: mihomo_smux_config
  ss_managed_default :: bool

definition default_mihomo_smux_config :: mihomo_smux_config where
  "default_mihomo_smux_config =
     \<lparr>ms_enabled = True, ms_max_connections = 4, ms_min_streams = 4, ms_only_tcp = True\<rparr>"

definition mihomo_smux_validate :: "mihomo_smux_config \<Rightarrow> string + unit" where
  "mihomo_smux_validate c =
     (if ms_max_connections c = 0 \<or> 16 < ms_max_connections c
      then Inl ''max_connections must be between 1 and 16''
      else if ms_min_streams c = 0 \<or> 64 < ms_min_streams c
      then Inl ''min_streams must be between 1 and 64''
      else Inr ())"

section \<open>Server names and hosts\<close>

definition quoted_hyphen :: string where
  "quoted_hyphen = [CHR 0x27, CHR ''-'', CHR 0x27]"

definition hostname_byte :: "char \<Rightarrow> bool" where
  "hostname_byte b = (is_ascii_alphanumeric b \<or> b = CHR ''.'' \<or> b = CHR ''-'')"

definition label_byte :: "char \<Rightarrow> bool" where
  "label_byte b = (is_ascii_alphanumeric b \<or> b = CHR ''-'')"

definition validate_server_name_label :: "string \<Rightarrow> string + unit" where
  "validate_server_name_label label =
     (if label = [] then Inl ''server_name contains an empty label''
      else if 63 < length label then Inl ''server_name label is too long (max 63)''
      else if starts_with CHR ''-'' label \<or> ends_with CHR ''-'' label
      then Inl (''server_name labels must not start/end with '' @ quoted_hyphen)
      else if \<not> list_all label_byte label then Inl (''server_name labels must be alnum or '' @ quoted_hyphen)
      else Inr ())"

definition validate_reality_server_name :: "string \<Rightarrow> string + unit" where
  "validate_reality_server_name host =
     (let trimmed = trim host in
      if trimmed = [] then Inl ''server_name is required''
      else if has_white_space trimmed then Inl ''server_name must not contain spaces''
      else if contains_str ''://'' trimmed then Inl ''server_name must not include scheme (://)''
      else if contains_char CHR ''/'' trimmed then Inl ''server_name must not include path (/)''
      else if contains_char CHR '':'' trimmed then Inl ''server_name must not include port (:)''
      else if contains_char CHR ''*'' trimmed then Inl ''server_name must not include wildcard (*)''
      else if 253 < length trimmed then Inl ''server_name is too long (max 253)''
      else if starts_with CHR ''.'' trimmed \<or> ends_with CHR ''.'' trimmed
      then Inl ''server_name must not start or end with a dot (.)''
      else if contains_str ''..'' trimmed
      then Inl ''server_name must not contain consecutive dots (..)''
      else if \<not> list_all hostname_byte trimmed
      then Inl ''server_name must be a valid hostname (letters/digits/dots/hyphens)''
      else
        let labels = split_on CHR ''.'' trimmed in
        if length labels < 2
        then Inl ''server_name must contain at least one dot (example.com)''
        else if length (last labels) < 2 then Inl ''server_name TLD is too short (min 2)''
        else check_each validate_server_name_label labels)"

definition validate_authority_label :: "string \<Rightarrow> string + unit" where
  "validate_authority_label label =
     (if label = [] then Inl ''accepted_authority host contains an empty label''
      else if 63 < length label then Inl ''accepted_authority host label is too long (max 63)''
      else if starts_with CHR ''-'' label \<or> ends_with CHR ''-'' label
      then Inl (''accepted_authority host labels must not start/end with '' @ quoted_hyphen)
      else if \<not> list_all label_byte label
      then Inl (''accepted_authority host labels must be alnum or '' @ quoted_hyphen)
      else Inr ())"

definition validate_accepted_authority_host :: "string \<Rightarrow> string + unit" where
  "validate_accepted_authority_host host =
     (let trimmed = trim host in
      if trimmed = [] then Inl ''accepted_authority host is required''
      else if 253 < length trimmed then Inl ''accepted_authority host is too long (max 253)''
      else if starts_with CHR ''.'' trimmed \<or> ends_with CHR ''.'' trimmed
      then Inl ''accepted_authority host must not start or end with a dot (.)''
      else if contains_str ''..'' trimmed
      then Inl ''accepted_authority host must not contain consecutive dots (..)''
      else if \<not> list_all hostname_byte trimmed
      then Inl ''accepted_authority host must be a valid hostname''
      else check_each validate_authority_label (split_on CHR ''.'' trimmed))"

definition validate_reality_dest :: "string \<Rightarrow> string + unit" where
  "validate_reality_dest dest =
     (let trimmed = trim dest in
      if trimmed = [] then Inl ''dest is required''
      else if has_white_space trimmed then Inl ''dest must not contain spaces''
      else
        let trimmed = (case strip_prefix ''tcp://'' trimmed of Some t \<Rightarrow> t | None \<Rightarrow> trimmed);
            trimmed = (case strip_prefix ''tcp:'' trimmed of Some t \<Rightarrow> t | None \<Rightarrow> trimmed)
        in if contains_char CHR ''/'' trimmed then Inl ''dest must not include path (/)''
           else (case parse_socket_addr_port trimmed of
               Some port \<Rightarrow> if port = 0 then Inl ''dest port must be 1..65535'' else Inr ()
             | None \<Rightarrow>
                 (case rsplit_once CHR '':'' trimmed of
                    None \<Rightarrow> Inl ''dest must include port (:)''
                  | Some (host, port) \<Rightarrow>
                      and_then (validate_reality_server_name host) (\<lambda>_.
                        case parse_u16 port of
                          None \<Rightarrow> Inl ''dest port must be 1..65535''
                        | Some p \<Rightarrow> if p = 0 then Inl ''dest port must be 1..65535'' else Inr ()))))"

section \<open>Canary upstreams\<close>

record url =
  url_scheme :: string
  url_host_str :: "string option"
  url_username :: string
  url_password :: "string option"
  url_path :: string
  url_query :: "string option"
  url_fragment :: "string option"

definition validate_canary_upstream ::
  "(string \<Rightarrow> url option) \<Rightarrow> canary_upstream_config \<Rightarrow> string + unit" where
  "validate_canary_upstream url_parse config =
     (let trimmed = trim (cu_url config) in
      if trimmed = [] then Inl ''canary_upstream.url is required''
      else if has_white_space trimmed then Inl ''canary_upstream.url must not contain spaces''
      else (case url_parse trimmed of
          None \<Rightarrow> Inl ''canary_upstream.url must be a URL''
        | Some url \<Rightarrow>
            if url_scheme url \<noteq> ''http'' \<and> url_scheme url \<noteq> ''https''
            then Inl ''canary_upstream.url must use http or https''
            else if url_host_str url = None then Inl ''canary_upstream.url must include host''
            else if url_username url \<noteq> [] \<or> url_password url \<noteq> None
            then Inl ''canary_upstream.url must not include credentials''
            else if url_path url \<noteq> ''/'' \<or> url_query url \<noteq> None \<or> url_fragment url \<noteq> None
            then Inl ''canary_upstream.url must be an origin without path, query, or fragment''
            else if cu_mode config = CumH2c \<and> url_scheme url \<noteq> ''http''
            then Inl ''canary_upstream.mode h2c requires http URL''
            else Inr ()))"

section \<open>Accepted authorities\<close>

definition authority_port :: "string \<Rightarrow> string + nat" where
  "authority_port port =
     (case parse_u16 port of
        None \<Rightarrow> Inl ''accepted_authority port must be 1..65535''
      | Some p \<Rightarrow> if p = 0 then Inl ''accepted_authority port must be 1..65535'' else Inr p)"

text \<open>The part after host and port are known: \<open>bracketed\<close> is \<^verbatim>\<open>bracketed_host\<close>.\<close>

definition authority_of_host :: "string \<Rightarrow> nat \<Rightarrow> bool \<Rightarrow> string + string" where
  "authority_of_host host port bracketed =
     (if is_ipv6_addr host
      then Inr (''['' @ to_ascii_lowercase host @ '']:'' @ show_nat port)
      else if bracketed then Inl ''accepted_authority bracketed host must be IPv6''
      else
        let normalized_host =
          (case strip_suffix_char CHR ''.'' host of Some h \<Rightarrow> h | None \<Rightarrow> host)
        in if is_ipv4_addr normalized_host
           then Inr (normalized_host @ '':'' @ show_nat port)
           else if list_all (\<lambda>label. label \<noteq> [] \<and> list_all is_ascii_digit label)
                     (split_on CHR ''.'' normalized_host)
           then Inl ''accepted_authority must use a valid IPv4, hostname, or [ipv6]''
           else and_then (validate_accepted_authority_host normalized_host) (\<lambda>_.
                  Inr (to_ascii_lowercase normalized_host @ '':'' @ show_nat port)))"

lemma strip_all_keeps:
  "\<lbrakk>c \<in> set s; \<forall>p \<in> set ps. c \<notin> set p\<rbrakk> \<Longrightarrow> c \<in> set (strip_all ps s)"
proof (induction ps s rule: strip_all.induct)
  case (1 ps s)
  show ?case
  proof (cases "strip_one ps s")
    case None
    with "1.prems" show ?thesis by (simp add: strip_all_fixed)
  next
    case (Some t)
    then have "\<exists>p \<in> set ps. s = p @ t"
    proof (induction ps)
      case (Cons p ps)
      then show ?case by (auto split: if_splits) (metis append_take_drop_id)
    qed simp
    with "1.prems" have "c \<in> set t" by auto
    with "1.IH" "1.prems" Some show ?thesis by (simp add: strip_all.simps [of ps s])
  qed
qed

lemma trim_keeps_colon: "CHR '':'' \<in> set s \<Longrightarrow> CHR '':'' \<in> set (trim s)"
proof -
  have ws: "\<forall>p \<in> set white_space. CHR '':'' \<notin> set p" by (simp add: white_space_def)
  assume "CHR '':'' \<in> set s"
  then have "CHR '':'' \<in> set (trim_start s)"
    using ws by (simp add: trim_start_def strip_all_keeps)
  then show ?thesis using ws by (simp add: trim_def trim_end_def strip_all_keeps)
qed

text \<open>
  A bare host is normalised with port 443 by a call on \<^verbatim>\<open>host:443\<close>; that call finds a
  colon, so the recursion has depth one.
\<close>

function normalize_accepted_authority :: "string \<Rightarrow> string + string" where
  "normalize_accepted_authority authority =
     (let trimmed = trim authority in
      if trimmed = [] then Inl ''accepted_authority is required''
      else if has_white_space trimmed then Inl ''accepted_authority must not contain spaces''
      else if contains_str ''://'' trimmed
      then Inl ''accepted_authority must not include scheme (://)''
      else if contains_char CHR ''/'' trimmed
      then Inl ''accepted_authority must not include path (/)''
      else if contains_char CHR ''?'' trimmed
      then Inl ''accepted_authority must not include query (?)''
      else if contains_char CHR ''#'' trimmed
      then Inl ''accepted_authority must not include fragment (#)''
      else
        (case strip_prefix ''['' trimmed of
           Some bracketed \<Rightarrow>
             (case split_once CHR '']'' bracketed of
                None \<Rightarrow> Inl ''accepted_authority IPv6 host must use [addr] or [addr]:port''
              | Some (host, rest) \<Rightarrow>
                  if rest = [] then authority_of_host host 443 True
                  else (case strip_prefix '':'' rest of
                      None \<Rightarrow> Inl ''accepted_authority IPv6 host must use [addr] or [addr]:port''
                    | Some port \<Rightarrow>
                        and_then (authority_port port) (\<lambda>p. authority_of_host host p True)))
         | None \<Rightarrow>
             (case rsplit_once CHR '':'' trimmed of
                None \<Rightarrow>
                  if contains_char CHR '':'' trimmed
                  then Inl ''accepted_authority IPv6 host must use [addr] or [addr]:port''
                  else normalize_accepted_authority (trimmed @ '':443'')
              | Some (host, port) \<Rightarrow>
                  if contains_char CHR '':'' host
                  then Inl ''accepted_authority IPv6 host must use [addr] or [addr]:port''
                  else and_then (authority_port port) (\<lambda>p. authority_of_host host p False))))"
  by pat_completeness auto
termination
  by (relation "measure (\<lambda>s. if CHR '':'' \<in> set (trim s) then 0 else 1)")
     (auto simp: contains_char_def trim_keeps_colon)

declare normalize_accepted_authority.simps [simp del]

fun normalize_authorities_loop ::
  "string list \<Rightarrow> string btree_set \<Rightarrow> string list \<Rightarrow> (string \<times> string) + string list" where
  "normalize_authorities_loop [] seen out = Inr out"
| "normalize_authorities_loop (a # as) seen out =
     (case normalize_accepted_authority a of
        Inl reason \<Rightarrow> Inl (reason, a)
      | Inr normalized \<Rightarrow>
          if bs_contains seen normalized then normalize_authorities_loop as seen out
          else normalize_authorities_loop as (bs_insert normalized seen) (out @ [normalized]))"

definition normalize_accepted_authorities ::
  "string list \<Rightarrow> (string \<times> string) + string list" where
  "normalize_accepted_authorities authorities =
     normalize_authorities_loop authorities bt_empty []"

section \<open>Short ids and keys\<close>

definition validate_short_id :: "string \<Rightarrow> string + unit" where
  "validate_short_id short_id =
     (if short_id = [] then Inl ''short_id must be non-empty''
      else if 16 < length short_id then Inl ''short_id length must be <= 16''
      else if \<not> even (length short_id) then Inl ''short_id length must be even''
      else if \<not> list_all is_ascii_hexdigit short_id then Inl ''short_id must be hex''
      else Inr ())"

text \<open>
  \<open>hex_encode\<close> is the encoder of the \<^verbatim>\<open>hex\<close> crate, \<open>bytes\<close> the 8 bytes the
  random generator fills in.
\<close>

definition generate_short_id_16hex :: "(u8 list \<Rightarrow> string) \<Rightarrow> u8 list \<Rightarrow> string" where
  "generate_short_id_16hex hex_encode bytes = hex_encode bytes"

definition rotate_short_ids_in_place ::
  "(u8 list \<Rightarrow> string) \<Rightarrow> u8 list \<Rightarrow> string list \<Rightarrow> string list \<times> string" where
  "rotate_short_ids_in_place hex_encode bytes short_ids =
     (let new_id = generate_short_id_16hex hex_encode bytes;
          short_ids = short_ids @ [new_id];
          short_ids = (if 8 < length short_ids then drop (length short_ids - 8) short_ids else short_ids)
      in (short_ids, new_id))"

definition clamp_x25519_private_key_bytes :: "u8 list \<Rightarrow> u8 list" where
  "clamp_x25519_private_key_bytes key =
     (let key = key[0 := key ! 0 AND 248];
          key = key[31 := key ! 31 AND 127]
      in key[31 := key ! 31 OR 64])"

definition ss2022_password :: "string \<Rightarrow> string \<Rightarrow> string" where
  "ss2022_password server_psk_b64 user_psk_b64 = server_psk_b64 @ '':'' @ user_psk_b64"

section \<open>What a server name is\<close>

text \<open>
  The reference: a host name of at most 253 bytes with at least two labels; a label has 1 to 63
  letters, digits or hyphens and no hyphen at its ends; the last one has at least two bytes.
\<close>

definition dns_label :: "string \<Rightarrow> bool" where
  "dns_label l = (l \<noteq> [] \<and> length l \<le> 63 \<and> list_all label_byte l \<and>
     hd l \<noteq> CHR ''-'' \<and> last l \<noteq> CHR ''-'')"

definition dns_hostname :: "string \<Rightarrow> bool" where
  "dns_hostname s =
     (length s \<le> 253 \<and>
      (let ls = split_on CHR ''.'' s
       in 2 \<le> length ls \<and> 2 \<le> length (last ls) \<and> list_all dns_label ls))"

lemma starts_with_hd: "s \<noteq> [] \<Longrightarrow> starts_with c s \<longleftrightarrow> hd s = c"
  by (cases s) (auto simp: starts_with_def)

lemma ends_with_last: "s \<noteq> [] \<Longrightarrow> ends_with c s \<longleftrightarrow> last s = c"
  by (simp add: ends_with_def starts_with_hd hd_rev)

lemma label_ok_iff [result_simps]: "validate_server_name_label l = Inr () \<longleftrightarrow> dns_label l"
  by (auto simp: validate_server_name_label_def dns_label_def starts_with_hd ends_with_last)

lemma authority_label_ok_iff [result_simps]: "validate_authority_label l = Inr () \<longleftrightarrow> dns_label l"
  by (auto simp: validate_authority_label_def dns_label_def starts_with_hd ends_with_last)

lemma split_on_append: "split_on c (a @ c # b) = split_on c a @ split_on c b"
  by (induction a) (auto split: list.splits simp: append_eq_Cons_conv)

lemma split_on_set: "x \<in> set s \<Longrightarrow> x = c \<or> (\<exists>l \<in> set (split_on c s). x \<in> set l)"
proof (induction s)
  case (Cons y s)
  then show ?case by (cases "split_on c s") auto
qed simp

lemma contains_str_split: "contains_str p s \<Longrightarrow> \<exists>a b. s = a @ p @ b"
proof (induction s)
  case Nil
  then show ?case by simp
next
  case (Cons c s)
  from Cons.prems consider "take (length p) (c # s) = p" | "contains_str p s" by auto
  then show ?case
  proof cases
    case 1
    then have "c # s = [] @ p @ drop (length p) (c # s)" by (metis append.left_neutral append_take_drop_id)
    then show ?thesis by blast
  next
    case 2
    with Cons.IH obtain a b where "s = a @ p @ b" by blast
    then have "c # s = (c # a) @ p @ b" by simp
    then show ?thesis by blast
  qed
qed

lemma strip_one_head: "strip_one ps (c # s) \<noteq> None \<Longrightarrow> \<exists>p \<in> set ps. p \<noteq> [] \<and> hd p = c"
proof (induction ps)
  case (Cons p ps)
  show ?case
  proof (cases "p \<noteq> [] \<and> take (length p) (c # s) = p")
    case True
    then have "hd p = c" by (metis hd_take length_greater_0_conv list.sel(1))
    with True show ?thesis by auto
  next
    case False
    then have "strip_one (p # ps) (c # s) = strip_one ps (c # s)" by (simp only: strip_one.simps if_False)
    with Cons obtain q where "q \<in> set ps" "q \<noteq> []" "hd q = c" by auto
    then show ?thesis by auto
  qed
qed simp

lemma hostname_byte_not_white: "hostname_byte c \<Longrightarrow> p \<in> set white_space \<Longrightarrow> p \<noteq> [] \<Longrightarrow> hd p \<noteq> c"
  by (auto simp: white_space_def hostname_byte_def is_ascii_alphanumeric_def is_ascii_digit_def
      is_ascii_upper_def is_ascii_lower_def)

lemma hostname_no_white: "list_all hostname_byte s \<Longrightarrow> \<not> has_white_space s"
proof (induction s)
  case (Cons c s)
  then have "strip_one white_space (c # s) = None"
    using strip_one_head [of white_space c s] hostname_byte_not_white [of c]
    by (metis list.pred_inject(2))
  with Cons show ?case by simp
qed simp

lemma hostname_bytes:
  assumes "list_all dns_label (split_on CHR ''.'' s)"
  shows "list_all hostname_byte s"
  using split_on_set [of _ s "CHR ''.''"] assms
  by (fastforce simp: list_all_iff dns_label_def label_byte_def hostname_byte_def)

lemma hostname_byte_excludes:
  "\<not> hostname_byte CHR ''/''" "\<not> hostname_byte CHR '':''" "\<not> hostname_byte CHR ''*''"
  by (simp_all add: hostname_byte_def is_ascii_alphanumeric_def is_ascii_digit_def
      is_ascii_upper_def is_ascii_lower_def)

lemma no_empty_label_dots:
  assumes "[] \<notin> set (split_on c s)"
  shows "\<not> starts_with c s" "\<not> ends_with c s" "\<not> contains_str [c, c] s"
proof -
  show "\<not> starts_with c s"
    using assms by (cases s) (auto simp: starts_with_def)
  show "\<not> ends_with c s"
  proof
    assume "ends_with c s"
    then obtain t where "s = t @ [c]"
      by (cases s rule: rev_cases) (auto simp: ends_with_def starts_with_def)
    then show False using assms split_on_append [of c t "[]"] by simp
  qed
  show "\<not> contains_str [c, c] s"
  proof
    assume "contains_str [c, c] s"
    then obtain a b where "s = a @ [c, c] @ b" using contains_str_split by blast
    then show False using assms split_on_append [of c a "c # b"] by simp
  qed
qed

section \<open>Properties\<close>

text \<open>C19: the chain of checks on a REALITY server name accepts exactly the host names of the
  reference definition, whatever order the checks are made in.\<close>

theorem server_name_validation_exact:
  "validate_reality_server_name host = Inr () \<longleftrightarrow> dns_hostname (trim host)"
proof
  assume "validate_reality_server_name host = Inr ()"
  then show "dns_hostname (trim host)"
    by (auto simp: validate_reality_server_name_def dns_hostname_def Let_def check_each_ok_iff
        label_ok_iff list_all_iff split: if_splits)
next
  assume ok: "dns_hostname (trim host)"
  define s where "s = trim host"
  from ok have labels: "list_all dns_label (split_on CHR ''.'' s)"
    and len: "length s \<le> 253" "2 \<le> length (split_on CHR ''.'' s)"
      "2 \<le> length (last (split_on CHR ''.'' s))"
    by (simp_all add: dns_hostname_def Let_def s_def)
  from labels have "[] \<notin> set (split_on CHR ''.'' s)" by (auto simp: list_all_iff dns_label_def)
  note dots = no_empty_label_dots [OF this]
  note bytes = hostname_bytes [OF labels]
  have out: "CHR ''/'' \<notin> set s" "CHR '':'' \<notin> set s" "CHR ''*'' \<notin> set s"
    using bytes hostname_byte_excludes by (auto simp: list_all_iff)
  then have "\<not> contains_str ''://'' s" using contains_str_split [of "''://''" s] by auto
  moreover have "s \<noteq> []" using len(2) by auto
  ultimately show "validate_reality_server_name host = Inr ()"
    using dots bytes out len labels hostname_no_white [OF bytes]
    by (simp add: validate_reality_server_name_def Let_def s_def [symmetric] contains_char_def
        check_each_ok_iff label_ok_iff list_all_iff)
qed

end
