(* ===== verification/Xp_Lifecycle.thy ===== *)
theory Xp_Lifecycle
  imports Xp_Prelude
begin

text \<open>
  The contract of the phase machines of the program (join sessions, membership operations,
  repository members): a table of allowed transitions that includes staying, terminal phases that
  are never left, and a rank that every real change raises. What the clients need of a phase machine
  is proved from the contract once.
\<close>

locale lifecycle =
  fixes may :: "'p \<Rightarrow> 'p \<Rightarrow> bool"
    and final :: "'p \<Rightarrow> bool"
    and rank :: "'p \<Rightarrow> nat"
  assumes may_refl: "may p p"
    and final_stays: "\<lbrakk>final p; may p q\<rbrakk> \<Longrightarrow> q = p"
    and may_ranked: "\<lbrakk>may p q; q \<noteq> p\<rbrakk> \<Longrightarrow> rank p < rank q"
begin

lemma rank_mono: "may\<^sup>*\<^sup>* p q \<Longrightarrow> rank p \<le> rank q"
proof (induction rule: rtranclp_induct)
  case (step q r)
  then show ?case using may_ranked [of q r] by (cases "r = q") auto
qed simp

lemma final_absorbing: "\<lbrakk>may\<^sup>*\<^sup>* p q; final p\<rbrakk> \<Longrightarrow> q = p"
  by (induction rule: rtranclp_induct) (auto dest: final_stays)

lemma changed_ranked: "\<lbrakk>may\<^sup>*\<^sup>* p q; q \<noteq> p\<rbrakk> \<Longrightarrow> rank p < rank q"
proof (induction rule: rtranclp_induct)
  case (step q r)
  show ?case
  proof (cases "q = p")
    case True
    with step show ?thesis using may_ranked by blast
  next
    case False
    with step.IH have "rank p < rank q" by blast
    also have "rank q \<le> rank r" using step.hyps(2) rank_mono by blast
    finally show ?thesis .
  qed
qed simp

text \<open>A phase that was left is never entered again.\<close>

lemma no_return: "\<lbrakk>may\<^sup>*\<^sup>* p q; may\<^sup>*\<^sup>* q p\<rbrakk> \<Longrightarrow> q = p"
  by (metis changed_ranked less_asym)

end

end
