(* ===== verification/Xp_Join_Session.thy ===== *)
theory Xp_Join_Session
  imports Xp_Domain Xp_Lifecycle
begin

text \<open>
  The durable join session of \<^verbatim>\<open>join_session.rs\<close>: its status machine and the check a
  successor of a stored session has to pass. Time stamps are strings, as in the source.
\<close>

definition ACTIVATION_TIMEOUT_secs :: u64 where
  "ACTIVATION_TIMEOUT_secs = 10 * 60"

datatype join_session_status = Reserved | JsLearnerRegistered | Consumed | JsExpired

definition is_pending :: "join_session_status \<Rightarrow> bool" where
  "is_pending s = (s = Reserved \<or> s = JsLearnerRegistered)"

fun status_may_transition_to :: "join_session_status \<Rightarrow> join_session_status \<Rightarrow> bool" where
  "status_may_transition_to Reserved nxt = (nxt = Reserved \<or> nxt = JsLearnerRegistered \<or> nxt = JsExpired)"
| "status_may_transition_to JsLearnerRegistered nxt =
     (nxt = JsLearnerRegistered \<or> nxt = Consumed \<or> nxt = JsExpired)"
| "status_may_transition_to Consumed nxt = (nxt = Consumed)"
| "status_may_transition_to JsExpired nxt = (nxt = JsExpired)"

record join_session =
  js_node_id :: string
  js_request_fingerprint :: string
  js_signed_cert_pem :: string
  js_token_expires_at :: string
  js_activation_deadline :: string
  js_required_log_index :: u64
  js_status :: join_session_status
  js_terminal_at :: "string option"

text \<open>
  The request fingerprint: \<open>to_vec\<close> is the serialiser of \<^verbatim>\<open>serde_json\<close>, \<open>digest\<close>
  SHA-256 and \<open>hex_encode\<close> the encoder of the \<^verbatim>\<open>hex\<close> crate.
\<close>

definition request_fingerprint ::
  "(json \<Rightarrow> 'e + u8 list) \<Rightarrow> (u8 list \<Rightarrow> u8 list) \<Rightarrow> (u8 list \<Rightarrow> string) \<Rightarrow>
   string \<Rightarrow> string \<Rightarrow> string \<Rightarrow> string \<Rightarrow> 'e + string" where
  "request_fingerprint to_vec digest hex_encode node_name access_host api_base_url csr_pem =
     and_then (to_vec (JObj [(''access_host'', JStr access_host),
                             (''api_base_url'', JStr api_base_url),
                             (''csr_pem'', JStr csr_pem),
                             (''node_name'', JStr node_name)]))
       (\<lambda>bytes. Inr (hex_encode (digest bytes)))"

definition learner_registered :: "u64 \<Rightarrow> join_session \<Rightarrow> join_session" where
  "learner_registered required_log_index s =
     s\<lparr>js_required_log_index := max (js_required_log_index s) required_log_index,
       js_status := JsLearnerRegistered\<rparr>"

definition join_validate_successor :: "join_session \<Rightarrow> join_session \<Rightarrow> string + unit" where
  "join_validate_successor self nxt =
     (if js_node_id self \<noteq> js_node_id nxt \<or>
         js_request_fingerprint self \<noteq> js_request_fingerprint nxt \<or>
         js_signed_cert_pem self \<noteq> js_signed_cert_pem nxt \<or>
         js_token_expires_at self \<noteq> js_token_expires_at nxt \<or>
         js_activation_deadline self \<noteq> js_activation_deadline nxt
      then Inl ''immutable join session identity changed''
      else if \<not> status_may_transition_to (js_status self) (js_status nxt)
      then Inl ''invalid join session status transition''
      else if js_required_log_index nxt < js_required_log_index self
      then Inl ''join session required log index moved backwards''
      else Inr ())"

section \<open>The status machine\<close>

fun status_rank :: "join_session_status \<Rightarrow> nat" where
  "status_rank Reserved = 0"
| "status_rank JsLearnerRegistered = 1"
| "status_rank Consumed = 2"
| "status_rank JsExpired = 2"

interpretation js: lifecycle status_may_transition_to "\<lambda>s. \<not> is_pending s" status_rank
proof unfold_locales
  fix p q :: join_session_status
  show "status_may_transition_to p p" by (cases p) auto
  show "\<lbrakk>\<not> is_pending p; status_may_transition_to p q\<rbrakk> \<Longrightarrow> q = p"
    by (cases p) (auto simp: is_pending_def)
  show "\<lbrakk>status_may_transition_to p q; q \<noteq> p\<rbrakk> \<Longrightarrow> status_rank p < status_rank q"
    by (cases p) auto
qed

text \<open>
  The order a stored session and its later versions are in: same identity, allowed status, log
  index not smaller. The status is a path of transitions because each stored version was checked
  only against its predecessor.
\<close>

definition session_le :: "join_session \<Rightarrow> join_session \<Rightarrow> bool" where
  "session_le s t =
     (js_node_id s = js_node_id t \<and>
      js_request_fingerprint s = js_request_fingerprint t \<and>
      js_signed_cert_pem s = js_signed_cert_pem t \<and>
      js_token_expires_at s = js_token_expires_at t \<and>
      js_activation_deadline s = js_activation_deadline t \<and>
      status_may_transition_to\<^sup>*\<^sup>* (js_status s) (js_status t) \<and>
      js_required_log_index s \<le> js_required_log_index t)"

lemma session_le_refl [simp]: "session_le s s"
  by (simp add: session_le_def)

lemma session_le_trans: "\<lbrakk>session_le s t; session_le t u\<rbrakk> \<Longrightarrow> session_le s u"
  by (auto simp: session_le_def)

lemma successor_le: "join_validate_successor s t = Inr u \<Longrightarrow> session_le s t"
  by (auto simp: join_validate_successor_def session_le_def split: if_splits)

lemma session_le_final: "\<lbrakk>session_le s t; \<not> is_pending (js_status s)\<rbrakk> \<Longrightarrow> js_status t = js_status s"
  by (auto simp: session_le_def intro: js.final_absorbing)

lemma learner_registered_accepted:
  "is_pending (js_status s) \<Longrightarrow> join_validate_successor s (learner_registered i s) = Inr ()"
  by (auto simp: join_validate_successor_def learner_registered_def is_pending_def)

end
