(* ===== verification/Xp_Membership_Operation.thy ===== *)
theory Xp_Membership_Operation
  imports Xp_Domain Xp_Lifecycle
begin

text \<open>
  The durable membership operation of \<^verbatim>\<open>state/membership_operation.rs\<close>: its phase machine
  and the check a transition has to pass. The RFC 3339 parser of \<^verbatim>\<open>chrono\<close> is the parameter
  \<open>rfc3339\<close>, from a string to a point of time, or \<open>None\<close> where it fails.
\<close>

datatype membership_operation_kind = Join | Restore | RemoveNode | RepairOrphanVoter

datatype membership_operation_phase =
  Prepared | LearnerRegistered | VoterPromoted | MembershipRemoved | Completed | Blocked | Expired

definition is_terminal :: "membership_operation_phase \<Rightarrow> bool" where
  "is_terminal p = (p = Completed \<or> p = Blocked \<or> p = Expired)"

fun phase_may_transition_to ::
  "membership_operation_phase \<Rightarrow> membership_operation_phase \<Rightarrow> bool" where
  "phase_may_transition_to Prepared nxt =
     (nxt = Prepared \<or> nxt = LearnerRegistered \<or> nxt = MembershipRemoved \<or> nxt = Blocked \<or> nxt = Expired)"
| "phase_may_transition_to LearnerRegistered nxt =
     (nxt = LearnerRegistered \<or> nxt = VoterPromoted \<or> nxt = Blocked \<or> nxt = Expired)"
| "phase_may_transition_to VoterPromoted nxt =
     (nxt = VoterPromoted \<or> nxt = Completed \<or> nxt = Blocked)"
| "phase_may_transition_to MembershipRemoved nxt =
     (nxt = MembershipRemoved \<or> nxt = Completed \<or> nxt = Blocked)"
| "phase_may_transition_to Completed nxt = (nxt = Completed)"
| "phase_may_transition_to Blocked nxt = (nxt = Blocked)"
| "phase_may_transition_to Expired nxt = (nxt = Expired)"

record membership_operation =
  mo_operation_id :: string
  mo_kind :: membership_operation_kind
  mo_raft_node_id :: u64
  mo_node_id :: "string option"
  mo_expected_membership :: string
  mo_phase :: membership_operation_phase
  mo_legacy :: bool
  mo_delete_endpoints :: bool
  mo_expected_endpoint_ids :: "string list"
  mo_expected_endpoint_tags :: "string list"
  mo_created_at :: string
  mo_next_retry_at :: "string option"
  mo_terminal_at :: "string option"
  mo_evidence :: "string option"

definition is_active :: "membership_operation \<Rightarrow> bool" where
  "is_active operation = (\<not> is_terminal (mo_phase operation))"

definition op_validate_successor ::
  "(string \<Rightarrow> int option) \<Rightarrow> membership_operation \<Rightarrow> membership_operation \<Rightarrow> string + unit" where
  "op_validate_successor rfc3339 self nxt =
     (if mo_operation_id self \<noteq> mo_operation_id nxt \<or>
         mo_kind self \<noteq> mo_kind nxt \<or>
         mo_raft_node_id self \<noteq> mo_raft_node_id nxt \<or>
         mo_node_id self \<noteq> mo_node_id nxt \<or>
         mo_created_at self \<noteq> mo_created_at nxt \<or>
         mo_legacy self \<noteq> mo_legacy nxt \<or>
         mo_delete_endpoints self \<noteq> mo_delete_endpoints nxt \<or>
         mo_expected_endpoint_ids self \<noteq> mo_expected_endpoint_ids nxt \<or>
         mo_expected_endpoint_tags self \<noteq> mo_expected_endpoint_tags nxt
      then Inl ''immutable membership operation identity changed''
      else if \<not> phase_may_transition_to (mo_phase self) (mo_phase nxt)
      then Inl ''invalid membership operation phase transition''
      else if is_terminal (mo_phase nxt) \<noteq> (mo_terminal_at nxt \<noteq> None)
      then Inl ''terminal membership operation must have terminal_at''
      else if is_terminal (mo_phase nxt) \<and>
              (case mo_evidence nxt of None \<Rightarrow> True | Some e \<Rightarrow> trim e = [])
      then Inl ''terminal membership operation must have evidence''
      else if is_terminal (mo_phase nxt) \<and>
              (case mo_terminal_at nxt of None \<Rightarrow> True | Some t \<Rightarrow> rfc3339 t = None)
      then Inl ''terminal membership operation timestamp is invalid''
      else Inr ())"

definition remove_node_target :: "membership_operation \<Rightarrow> string option" where
  "remove_node_target operation =
     (case mo_node_id operation of
        None \<Rightarrow> None
      | Some node_id \<Rightarrow> if trim node_id \<noteq> [] then Some node_id else None)"

section \<open>The phase machine\<close>

fun phase_rank :: "membership_operation_phase \<Rightarrow> nat" where
  "phase_rank Prepared = 0"
| "phase_rank LearnerRegistered = 1"
| "phase_rank VoterPromoted = 2"
| "phase_rank MembershipRemoved = 2"
| "phase_rank Completed = 3"
| "phase_rank Blocked = 3"
| "phase_rank Expired = 3"

interpretation mo: lifecycle phase_may_transition_to is_terminal phase_rank
proof unfold_locales
  fix p q :: membership_operation_phase
  show "phase_may_transition_to p p" by (cases p) auto
  show "\<lbrakk>is_terminal p; phase_may_transition_to p q\<rbrakk> \<Longrightarrow> q = p"
    by (cases p) (auto simp: is_terminal_def)
  show "\<lbrakk>phase_may_transition_to p q; q \<noteq> p\<rbrakk> \<Longrightarrow> phase_rank p < phase_rank q"
    by (cases p) auto
qed

text \<open>
  The order of a stored operation and its later versions, and the record a terminal operation
  carries: a time stamp and evidence.
\<close>

definition operation_le :: "membership_operation \<Rightarrow> membership_operation \<Rightarrow> bool" where
  "operation_le a b =
     (mo_operation_id a = mo_operation_id b \<and> mo_kind a = mo_kind b \<and>
      mo_raft_node_id a = mo_raft_node_id b \<and> mo_node_id a = mo_node_id b \<and>
      mo_created_at a = mo_created_at b \<and> mo_legacy a = mo_legacy b \<and>
      mo_delete_endpoints a = mo_delete_endpoints b \<and>
      mo_expected_endpoint_ids a = mo_expected_endpoint_ids b \<and>
      mo_expected_endpoint_tags a = mo_expected_endpoint_tags b \<and>
      phase_may_transition_to\<^sup>*\<^sup>* (mo_phase a) (mo_phase b))"

definition terminal_recorded :: "(string \<Rightarrow> int option) \<Rightarrow> membership_operation \<Rightarrow> bool" where
  "terminal_recorded rfc3339 a =
     (is_terminal (mo_phase a) \<longrightarrow>
        (\<exists>t e. mo_terminal_at a = Some t \<and> rfc3339 t \<noteq> None \<and> mo_evidence a = Some e \<and> trim e \<noteq> []))"

lemma operation_le_refl [simp]: "operation_le a a"
  by (simp add: operation_le_def)

lemma operation_le_trans: "\<lbrakk>operation_le a b; operation_le b c\<rbrakk> \<Longrightarrow> operation_le a c"
  by (auto simp: operation_le_def)

lemma op_successor_le: "op_validate_successor rfc3339 a b = Inr u \<Longrightarrow> operation_le a b"
  by (auto simp: op_validate_successor_def operation_le_def split: if_splits)

lemma op_successor_recorded: "op_validate_successor rfc3339 a b = Inr u \<Longrightarrow> terminal_recorded rfc3339 b"
  by (auto simp: op_validate_successor_def terminal_recorded_def split: if_splits option.splits)

lemma op_successor_active:
  "\<lbrakk>op_validate_successor rfc3339 a b = Inr u; is_active b\<rbrakk> \<Longrightarrow> is_active a \<and> mo_terminal_at b = None"
  by (auto simp: op_validate_successor_def is_active_def is_terminal_def split: if_splits)

lemma operation_le_terminal:
  "\<lbrakk>operation_le a b; is_terminal (mo_phase a)\<rbrakk> \<Longrightarrow> mo_phase b = mo_phase a"
  by (auto simp: operation_le_def intro: mo.final_absorbing)

end
