(* ===== verification/Xp_Reverse_Mesh.thy ===== *)
theory Xp_Reverse_Mesh
  imports Xp_Domain Xp_Lifecycle "HOL-Library.Multiset"
begin

text \<open>
  The deterministic part of the reverse relay of \<^verbatim>\<open>reverse_mesh.rs\<close>: the choice of a primary
  and a standby rendezvous node per target, the link state machine, the tombstones of retired tags,
  and the failure back-off. SHA-256 is the parameter \<open>sha256\<close> (bytes to bytes) of the score;
  an \<^verbatim>\<open>expect\<close> that fails is the value \<open>None\<close> of the whole assignment.
\<close>

section \<open>Assignments and candidates\<close>

record reverse_mesh_assignment =
  ra_target_node_id :: string
  ra_generation :: u64
  ra_membership_revision :: u64
  ra_primary_node_id :: string
  ra_standby_node_id :: "string option"
  ra_credential_epoch :: u64

definition rendezvous_ids :: "reverse_mesh_assignment \<Rightarrow> string list" where
  "rendezvous_ids a =
     ra_primary_node_id a # (case ra_standby_node_id a of None \<Rightarrow> [] | Some s \<Rightarrow> [s])"

definition contains_rendezvous :: "reverse_mesh_assignment \<Rightarrow> string \<Rightarrow> bool" where
  "contains_rendezvous a node_id = list_ex (\<lambda>x. x = node_id) (rendezvous_ids a)"

definition assignment_is_valid :: "reverse_mesh_assignment \<Rightarrow> bool" where
  "assignment_is_valid a =
     (ra_target_node_id a \<noteq> [] \<and> ra_primary_node_id a \<noteq> [] \<and>
      ra_target_node_id a \<noteq> ra_primary_node_id a \<and>
      (case ra_standby_node_id a of
         None \<Rightarrow> True
       | Some s \<Rightarrow> s \<noteq> [] \<and> s \<noteq> ra_primary_node_id a \<and> s \<noteq> ra_target_node_id a))"

record reverse_mesh_candidate =
  rca_node_id :: string
  rca_assignment_capable :: bool
  rca_relay_capable :: bool
  rca_signed_xray_ready :: bool
  rca_managed_vless_endpoint :: bool

definition candidate_eligible :: "reverse_mesh_candidate \<Rightarrow> bool" where
  "candidate_eligible c =
     (rca_node_id c \<noteq> [] \<and> rca_assignment_capable c \<and> rca_relay_capable c \<and>
      rca_signed_xray_ready c \<and> rca_managed_vless_endpoint c)"

section \<open>Selection\<close>

definition u64_from_be_bytes :: "u8 list \<Rightarrow> u64" where
  "u64_from_be_bytes bs = foldl (\<lambda>a b. a * 256 + ucast b) 0 bs"

definition hrw_score :: "(string \<Rightarrow> u8 list) \<Rightarrow> u64 \<Rightarrow> string \<Rightarrow> string \<Rightarrow> u64" where
  "hrw_score sha256 epoch target candidate =
     u64_from_be_bytes (take 8 (sha256
       (''reverse-hrw'' @ [CHR 0x0A] @ show_word epoch @ [CHR 0x0A] @ target @ [CHR 0x0A] @ candidate)))"

text \<open>\<^verbatim>\<open>Iterator::min_by\<close>: the first element no other is below; \<open>gt\<close> is
  \<^verbatim>\<open>Ordering::Greater\<close>.\<close>

fun min_by :: "('a \<Rightarrow> 'a \<Rightarrow> bool) \<Rightarrow> 'a list \<Rightarrow> 'a option" where
  "min_by gt [] = None"
| "min_by gt (x # xs) = Some (fold (\<lambda>y best. if gt best y then y else best) xs x)"

definition pick ::
  "(string \<Rightarrow> u8 list) \<Rightarrow> u64 \<Rightarrow> string \<Rightarrow> (string, nat) btree_map \<Rightarrow> string list \<Rightarrow> string btree_set
     \<Rightarrow> string option" where
  "pick sha256 epoch target load choices excluded =
     min_by
       (\<lambda>left right.
          let left_load = bt_get_or 0 load left; right_load = bt_get_or 0 load right
          in right_load < left_load \<or>
             (left_load = right_load \<and> hrw_score sha256 epoch target left < hrw_score sha256 epoch target right))
       (filter (\<lambda>candidate. \<not> bs_contains excluded candidate) choices)"

definition existing_assignment ::
  "(string, reverse_mesh_assignment) btree_map \<Rightarrow> u64 \<Rightarrow> string list \<Rightarrow> string
     \<Rightarrow> reverse_mesh_assignment option" where
  "existing_assignment current epoch choices target =
     (case bt_get current target of
        None \<Rightarrow> None
      | Some a \<Rightarrow>
          if ra_credential_epoch a = epoch \<and> assignment_is_valid a \<and>
             ra_primary_node_id a \<in> set choices \<and>
             (case ra_standby_node_id a of None \<Rightarrow> True | Some s \<Rightarrow> s \<in> set choices)
          then Some a else None)"

definition next_generation ::
  "(string, reverse_mesh_assignment) btree_map \<Rightarrow> (string, u64) btree_map \<Rightarrow> u64 \<Rightarrow> string
     \<Rightarrow> reverse_mesh_assignment option \<Rightarrow> u64" where
  "next_generation current generation_floors membership_revision target existing =
     (let prior_generation =
        max (case bt_get current target of None \<Rightarrow> 0 | Some a \<Rightarrow> ra_generation a)
            (bt_get_or 0 generation_floors target)
      in case existing of
           Some a \<Rightarrow>
             if ra_membership_revision a = membership_revision then max (ra_generation a) 1
             else max (sat_add prior_generation 1) 1
         | None \<Rightarrow> max (sat_add prior_generation 1) 1)"

definition count_load :: "string \<Rightarrow> (string, nat) btree_map \<Rightarrow> (string, nat) btree_map" where
  "count_load node_id load = bt_entry node_id 0 (\<lambda>n. n + 1) load"

text \<open>One iteration of the loop over the targets.\<close>

definition assign_target ::
  "(string \<Rightarrow> u8 list) \<Rightarrow> string list \<Rightarrow> (string, reverse_mesh_assignment) btree_map
     \<Rightarrow> (string, u64) btree_map \<Rightarrow> u64 \<Rightarrow> u64 \<Rightarrow> string
     \<Rightarrow> (string, nat) btree_map \<times> (string, reverse_mesh_assignment) btree_map
     \<Rightarrow> ((string, nat) btree_map \<times> (string, reverse_mesh_assignment) btree_map) option" where
  "assign_target sha256 eligible current generation_floors membership_revision epoch target =
   (\<lambda>(load, result).
     (let choices = filter (\<lambda>candidate. candidate \<noteq> target) eligible
      in if choices = [] then Some (load, result)
         else
           let existing = existing_assignment current epoch choices target
           in case (case existing of
                      Some a \<Rightarrow> Some (ra_primary_node_id a)
                    | None \<Rightarrow> pick sha256 epoch target load choices bt_empty) of
                None \<Rightarrow> None
              | Some primary \<Rightarrow>
                  let standby =
                        (case Option.bind existing ra_standby_node_id of
                           Some s \<Rightarrow> Some s
                         | None \<Rightarrow>
                             if 2 \<le> length choices
                             then pick sha256 epoch target load choices (bs_insert primary bt_empty)
                             else None);
                      load = count_load primary load;
                      load = (case standby of None \<Rightarrow> load | Some s \<Rightarrow> count_load s load);
                      generation =
                        next_generation current generation_floors membership_revision target existing
                  in Some (load, bt_insert target
                       \<lparr>ra_target_node_id = target, ra_generation = generation,
                        ra_membership_revision = membership_revision, ra_primary_node_id = primary,
                        ra_standby_node_id = standby, ra_credential_epoch = epoch\<rparr> result)))"

fun assign_targets ::
  "(string \<Rightarrow> 's \<Rightarrow> 's option) \<Rightarrow> string list \<Rightarrow> 's \<Rightarrow> 's option" where
  "assign_targets f [] s = Some s"
| "assign_targets f (t # ts) s = Option.bind (f t s) (assign_targets f ts)"

definition eligible_ids :: "reverse_mesh_candidate list \<Rightarrow> string list" where
  "eligible_ids candidates =
     remdups_adj (sort (map rca_node_id (filter candidate_eligible candidates)))"

definition assign_reverse_mesh_with_generation_floors ::
  "(string \<Rightarrow> u8 list) \<Rightarrow> string list \<Rightarrow> reverse_mesh_candidate list
     \<Rightarrow> (string, reverse_mesh_assignment) btree_map \<Rightarrow> (string, u64) btree_map \<Rightarrow> u64 \<Rightarrow> u64
     \<Rightarrow> (string, reverse_mesh_assignment) btree_map option" where
  "assign_reverse_mesh_with_generation_floors sha256 target_node_ids candidates current
     generation_floors membership_revision epoch =
     (let targets = sort target_node_ids;
          eligible = eligible_ids candidates;
          load = bt_of_list (map (\<lambda>id.
            (id, length (filter (\<lambda>a. contains_rendezvous a id) (bt_values current)))) eligible)
      in map_option snd
           (assign_targets
              (assign_target sha256 eligible current generation_floors membership_revision epoch)
              targets (load, bt_empty)))"

definition assign_reverse_mesh ::
  "(string \<Rightarrow> u8 list) \<Rightarrow> string list \<Rightarrow> reverse_mesh_candidate list
     \<Rightarrow> (string, reverse_mesh_assignment) btree_map \<Rightarrow> u64 \<Rightarrow> u64
     \<Rightarrow> (string, reverse_mesh_assignment) btree_map option" where
  "assign_reverse_mesh sha256 target_node_ids candidates current membership_revision epoch =
     assign_reverse_mesh_with_generation_floors sha256 target_node_ids candidates current bt_empty
       membership_revision epoch"

definition reverse_mesh_generation_after_failures :: "u64 \<Rightarrow> u8 \<Rightarrow> u64 option" where
  "reverse_mesh_generation_after_failures current_generation consecutive_failures =
     (if 3 \<le> consecutive_failures then Some (max (sat_add current_generation 1) 1) else None)"

definition reverse_backoff :: "nat \<Rightarrow> nat" where
  "reverse_backoff attempt = [30, 60, 120, 240, 300] ! min attempt 4"

section \<open>Links and tombstones\<close>

datatype reverse_link_state =
  LsDesired | LsConnecting | LsHealthVerified | LsActive | LsDraining | LsClosed
| LsRetiredPendingRestart | LsFailed

datatype reverse_role = RrPrimary | RrStandby | RrBootstrap

text \<open>Instants are seconds.\<close>

record reverse_link =
  rl_assignment :: reverse_mesh_assignment
  rl_rendezvous_node_id :: string
  rl_role :: reverse_role
  rl_state :: reverse_link_state
  rl_drain_deadline :: "nat option"

definition REVERSE_DRAIN :: nat where
  "REVERSE_DRAIN = 120"

definition reverse_assignment_role ::
  "reverse_mesh_assignment \<Rightarrow> string \<Rightarrow> bool \<Rightarrow> reverse_role option" where
  "reverse_assignment_role a rendezvous_node_id bootstrap_target =
     (if bootstrap_target
      then (if contains_rendezvous a rendezvous_node_id then Some RrBootstrap else None)
      else if ra_primary_node_id a = rendezvous_node_id then Some RrPrimary
      else if ra_standby_node_id a = Some rendezvous_node_id then Some RrStandby
      else None)"

definition link_allowed :: "reverse_link_state \<Rightarrow> reverse_link_state \<Rightarrow> bool" where
  "link_allowed s t =
     ((s, t) \<in> {(LsDesired, LsConnecting), (LsConnecting, LsHealthVerified), (LsConnecting, LsFailed),
       (LsHealthVerified, LsActive), (LsHealthVerified, LsFailed), (LsActive, LsDraining),
       (LsDraining, LsClosed), (LsDraining, LsRetiredPendingRestart), (LsDraining, LsFailed),
       (LsRetiredPendingRestart, LsClosed)})"

definition link_transition :: "reverse_link_state \<Rightarrow> nat \<Rightarrow> reverse_link \<Rightarrow> bool \<times> reverse_link" where
  "link_transition nxt now link =
     (if \<not> link_allowed (rl_state link) nxt then (False, link)
      else
        let link = link\<lparr>rl_state := nxt\<rparr>
        in (True, if nxt = LsDraining then link\<lparr>rl_drain_deadline := Some (now + REVERSE_DRAIN)\<rparr>
                  else link))"

definition accepts_new_request :: "reverse_link \<Rightarrow> bool" where
  "accepts_new_request link = (rl_state link = LsActive)"

definition drain_expired :: "nat \<Rightarrow> reverse_link \<Rightarrow> bool" where
  "drain_expired now link =
     (rl_state link = LsDraining \<and>
      (case rl_drain_deadline link of None \<Rightarrow> False | Some deadline \<Rightarrow> deadline \<le> now))"

datatype tombstone_decision = Retain | RestartRequired

definition REVERSE_MAX_TOMBSTONES :: nat where
  "REVERSE_MAX_TOMBSTONES = 2"

definition tombstone_record :: "string \<Rightarrow> string list \<Rightarrow> tombstone_decision \<times> string list" where
  "tombstone_record tag tags =
     (if list_ex (\<lambda>existing. existing = tag) tags then (Retain, tags)
      else if REVERSE_MAX_TOMBSTONES \<le> length tags then (RestartRequired, tags)
      else (Retain, tags @ [tag]))"

fun link_rank :: "reverse_link_state \<Rightarrow> nat" where
  "link_rank LsDesired = 0"
| "link_rank LsConnecting = 1"
| "link_rank LsHealthVerified = 2"
| "link_rank LsActive = 3"
| "link_rank LsDraining = 4"
| "link_rank LsRetiredPendingRestart = 5"
| "link_rank LsClosed = 6"
| "link_rank LsFailed = 6"

interpretation rl: lifecycle "\<lambda>s t. s = t \<or> link_allowed s t" "\<lambda>s. s = LsClosed \<or> s = LsFailed" link_rank
  by unfold_locales (auto simp: link_allowed_def)

lemma tombstone_bound:
  "\<lbrakk>distinct tags; length tags \<le> REVERSE_MAX_TOMBSTONES\<rbrakk> \<Longrightarrow>
     distinct (snd (tombstone_record tag tags)) \<and>
     length (snd (tombstone_record tag tags)) \<le> REVERSE_MAX_TOMBSTONES"
  by (auto simp: tombstone_record_def list_ex_iff)

section \<open>Facts about the selection\<close>

lemma fold_best_in: "fold (\<lambda>y best. if gt best y then y else best) xs x \<in> insert x (set xs)"
proof (induction xs arbitrary: x)
  case (Cons y ys)
  from Cons [of "if gt x y then y else x"] show ?case by (auto split: if_splits)
qed simp

lemma min_by_mem: "min_by gt xs = Some x \<Longrightarrow> x \<in> set xs"
  using fold_best_in [of gt] by (cases xs) fastforce+

lemma min_by_None: "min_by gt xs = None \<longleftrightarrow> xs = []"
  by (cases xs) auto

lemma pick_mem:
  "pick sha256 epoch target load choices excluded = Some p \<Longrightarrow>
     p \<in> set choices \<and> \<not> bs_contains excluded p"
  by (auto simp: pick_def dest: min_by_mem)

lemma pick_None:
  "pick sha256 epoch target load choices excluded = None \<longleftrightarrow> set choices \<subseteq> {c. bs_contains excluded c}"
  by (auto simp: pick_def min_by_None filter_empty_conv)

lemma set_eligible_ids:
  "set (eligible_ids candidates) = rca_node_id ` {c \<in> set candidates. candidate_eligible c}"
  by (auto simp: eligible_ids_def)

lemma distinct_remdups_adj_sorted: "sorted xs \<Longrightarrow> distinct (remdups_adj xs)"
  by (induction xs rule: remdups_adj.induct) (auto simp: order.antisym)

lemma eligible_ids_eq: "eligible_ids candidates =
    sorted_list_of_set (rca_node_id ` {c \<in> set candidates. candidate_eligible c})"
proof -
  define xs where "xs = map rca_node_id (filter candidate_eligible candidates)"
  have "sorted (remdups_adj (sort xs))" "distinct (remdups_adj (sort xs))"
    by (simp_all add: sorted_remdups_adj distinct_remdups_adj_sorted)
  then have "sorted_list_of_set (set (remdups_adj (sort xs))) = remdups_adj (sort xs)"
    by (rule sorted_list_of_set.idem_if_sorted_distinct)
  then show ?thesis by (simp add: eligible_ids_def xs_def set_eligible_ids)
qed

lemma distinct_eligible_ids: "distinct (eligible_ids candidates)"
  by (simp add: eligible_ids_eq)

text \<open>What the assignment of one target has to satisfy, given the eligible nodes.\<close>

definition sound_assignment :: "string set \<Rightarrow> string \<Rightarrow> reverse_mesh_assignment \<Rightarrow> bool" where
  "sound_assignment nodes target a =
     (ra_target_node_id a = target \<and>
      ra_primary_node_id a \<in> nodes \<and> ra_primary_node_id a \<noteq> target \<and>
      (case ra_standby_node_id a of
         None \<Rightarrow> nodes \<subseteq> {target, ra_primary_node_id a}
       | Some s \<Rightarrow> s \<in> nodes \<and> s \<noteq> target \<and> s \<noteq> ra_primary_node_id a))"

definition existing_for ::
  "(string, reverse_mesh_assignment) btree_map \<Rightarrow> u64 \<Rightarrow> string list \<Rightarrow> string
     \<Rightarrow> reverse_mesh_assignment option" where
  "existing_for current epoch eligible target =
     existing_assignment current epoch (filter (\<lambda>c. c \<noteq> target) eligible) target"

definition fresh_assignment ::
  "(string, reverse_mesh_assignment) btree_map \<Rightarrow> (string, u64) btree_map \<Rightarrow> u64 \<Rightarrow> u64 \<Rightarrow> string list
     \<Rightarrow> string \<Rightarrow> reverse_mesh_assignment \<Rightarrow> bool" where
  "fresh_assignment current floors mrev epoch eligible target a =
     (let existing = existing_for current epoch eligible target
      in ra_membership_revision a = mrev \<and> ra_credential_epoch a = epoch \<and>
         ra_generation a = next_generation current floors mrev target existing \<and>
         (case existing of
            None \<Rightarrow> True
          | Some b \<Rightarrow> ra_primary_node_id a = ra_primary_node_id b \<and>
              (ra_standby_node_id b \<noteq> None \<longrightarrow> ra_standby_node_id a = ra_standby_node_id b)))"

lemma existing_for_SomeD:
  "existing_for current epoch eligible target = Some b \<Longrightarrow>
     bt_get current target = Some b \<and> ra_primary_node_id b \<in> set eligible \<and>
     ra_primary_node_id b \<noteq> target \<and>
     (\<forall>s. ra_standby_node_id b = Some s \<longrightarrow> s \<in> set eligible \<and> s \<noteq> target \<and> s \<noteq> ra_primary_node_id b)"
  by (auto simp: existing_for_def existing_assignment_def assignment_is_valid_def
      split: option.splits if_splits)

lemma assign_target_total:
  assumes "distinct eligible"
  shows "\<exists>load' a. assign_target sha256 eligible current floors mrev epoch target (load, result) =
      Some (load', if set eligible \<subseteq> {target} then result else bt_insert target a result) \<and>
      (\<not> set eligible \<subseteq> {target} \<longrightarrow>
         sound_assignment (set eligible) target a \<and>
         fresh_assignment current floors mrev epoch eligible target a)"
proof (cases "set eligible \<subseteq> {target}")
  case True
  then have "filter (\<lambda>c. c \<noteq> target) eligible = []" by (auto simp: filter_empty_conv)
  with True show ?thesis by (auto simp: assign_target_def)
next
  case False
  define choices where "choices = filter (\<lambda>c. c \<noteq> target) eligible"
  define existing where "existing = existing_assignment current epoch choices target"
  have ef: "existing = existing_for current epoch eligible target"
    by (simp add: existing_def existing_for_def choices_def)
  have choices: "choices \<noteq> []" "set choices = set eligible - {target}" "distinct choices"
    using False assms by (auto simp: choices_def filter_empty_conv)
  define P where "P = (case existing of Some a \<Rightarrow> Some (ra_primary_node_id a)
    | None \<Rightarrow> pick sha256 epoch target load choices bt_empty)"
  have "P \<noteq> None"
    using choices(1) by (cases existing) (auto simp: P_def pick_None subset_iff neq_Nil_conv)
  then obtain primary where primary: "P = Some primary" by auto
  have pin: "primary \<in> set choices"
    using primary existing_for_SomeD [of current epoch eligible target] pick_mem choices(2)
    unfolding P_def ef by (cases "existing_for current epoch eligible target") fastforce+
  define S where "S = (case Option.bind existing ra_standby_node_id of Some s \<Rightarrow> Some s
    | None \<Rightarrow> if 2 \<le> length choices
        then pick sha256 epoch target load choices (bs_insert primary bt_empty) else None)"
  define a where "a = \<lparr>ra_target_node_id = target,
      ra_generation = next_generation current floors mrev target existing,
      ra_membership_revision = mrev, ra_primary_node_id = primary,
      ra_standby_node_id = S, ra_credential_epoch = epoch\<rparr>"
  have standby: "case S of None \<Rightarrow> set choices \<subseteq> {primary}
      | Some s \<Rightarrow> s \<in> set choices \<and> s \<noteq> primary"
  proof (cases "Option.bind existing ra_standby_node_id")
    case (Some s)
    then obtain b where b: "existing = Some b" "ra_standby_node_id b = Some s"
      by (auto simp: bind_eq_Some_conv)
    then have "primary = ra_primary_node_id b" using primary by (simp add: P_def)
    with b Some existing_for_SomeD [of current epoch eligible target b] choices(2) show ?thesis
      by (simp add: S_def ef)
  next
    case None
    show ?thesis
    proof (cases "2 \<le> length choices")
      case True
      with None show ?thesis
        by (auto simp: S_def pick_None dest!: pick_mem split: option.splits)
    next
      case False
      then obtain x where "choices = [x]" using choices(1) by (cases choices; cases "tl choices") auto
      with False None pin show ?thesis by (simp add: S_def)
    qed
  qed
  have "sound_assignment (set eligible) target a"
    using pin standby choices(2)
    by (auto simp: sound_assignment_def a_def split: option.splits)
  moreover have "fresh_assignment current floors mrev epoch eligible target a"
    using primary by (auto simp: fresh_assignment_def a_def ef P_def S_def split: option.splits)
  moreover have "\<exists>load'. assign_target sha256 eligible current floors mrev epoch target (load, result) =
      Some (load', bt_insert target a result)"
    using choices(1) primary
    by (simp add: assign_target_def choices_def [symmetric] existing_def [symmetric] Let_def
        P_def [symmetric] S_def [symmetric] a_def)
  ultimately show ?thesis using False by auto
qed

lemma assign_targets_total:
  assumes "distinct eligible"
  shows "\<exists>load' result'.
      assign_targets (assign_target sha256 eligible current floors mrev epoch) targets (load, result) =
        Some (load', result') \<and>
      (\<forall>t. bt_contains_key result' t \<longleftrightarrow>
         bt_contains_key result t \<or> (t \<in> set targets \<and> \<not> set eligible \<subseteq> {t})) \<and>
      (\<forall>t a. bt_get result' t = Some a \<longrightarrow>
         bt_get result t = Some a \<or>
         sound_assignment (set eligible) t a \<and> fresh_assignment current floors mrev epoch eligible t a)"
proof (induction targets arbitrary: load result)
  case Nil
  show ?case by simp
next
  case (Cons t ts)
  obtain load1 a1 where one: "assign_target sha256 eligible current floors mrev epoch t (load, result) =
      Some (load1, if set eligible \<subseteq> {t} then result else bt_insert t a1 result)"
    and good: "\<not> set eligible \<subseteq> {t} \<longrightarrow> sound_assignment (set eligible) t a1 \<and>
      fresh_assignment current floors mrev epoch eligible t a1"
    using assign_target_total [OF assms] by metis
  define result1 where "result1 = (if set eligible \<subseteq> {t} then result else bt_insert t a1 result)"
  obtain load' result' where IH:
    "assign_targets (assign_target sha256 eligible current floors mrev epoch) ts (load1, result1) =
       Some (load', result')"
    "\<And>u. bt_contains_key result' u \<longleftrightarrow>
       bt_contains_key result1 u \<or> (u \<in> set ts \<and> \<not> set eligible \<subseteq> {u})"
    "\<And>u a. bt_get result' u = Some a \<Longrightarrow> bt_get result1 u = Some a \<or>
       sound_assignment (set eligible) u a \<and> fresh_assignment current floors mrev epoch eligible u a"
    using Cons.IH [of load1 result1] by blast
  have "assign_targets (assign_target sha256 eligible current floors mrev epoch) (t # ts) (load, result) =
      Some (load', result')"
    by (simp add: one IH(1) result1_def [symmetric])
  moreover have "bt_contains_key result' u \<longleftrightarrow>
      bt_contains_key result u \<or> (u \<in> set (t # ts) \<and> \<not> set eligible \<subseteq> {u})" for u
    by (auto simp: IH(2) result1_def bt_contains_insert)
  moreover have "bt_get result' u = Some a \<Longrightarrow> bt_get result u = Some a \<or>
      sound_assignment (set eligible) u a \<and> fresh_assignment current floors mrev epoch eligible u a" for u a
    using IH(3) [of u a] good by (auto simp: result1_def bt_get_insert split: if_splits)
  ultimately show ?case by blast
qed

definition eligible_nodes :: "reverse_mesh_candidate list \<Rightarrow> string set" where
  "eligible_nodes candidates = rca_node_id ` {c \<in> set candidates. candidate_eligible c}"

lemma assign_total:
  "\<exists>r. assign_reverse_mesh_with_generation_floors sha256 targets candidates current floors mrev epoch = Some r \<and>
     (\<forall>t. bt_contains_key r t \<longleftrightarrow> t \<in> set targets \<and> \<not> eligible_nodes candidates \<subseteq> {t}) \<and>
     (\<forall>t a. bt_get r t = Some a \<longrightarrow>
        sound_assignment (eligible_nodes candidates) t a \<and>
        fresh_assignment current floors mrev epoch (eligible_ids candidates) t a)"
proof -
  define load :: "(string, nat) btree_map" where
    "load = bt_of_list (map (\<lambda>id.
       (id, length (filter (\<lambda>a. contains_rendezvous a id) (bt_values current)))) (eligible_ids candidates))"
  have en: "set (eligible_ids candidates) = eligible_nodes candidates"
    by (simp add: set_eligible_ids eligible_nodes_def)
  obtain load' r where r:
    "assign_targets (assign_target sha256 (eligible_ids candidates) current floors mrev epoch)
       (sort targets) (load, bt_empty) = Some (load', r)"
    "\<forall>t. bt_contains_key r t \<longleftrightarrow>
       bt_contains_key (bt_empty :: (string, reverse_mesh_assignment) btree_map) t \<or>
       (t \<in> set (sort targets) \<and> \<not> eligible_nodes candidates \<subseteq> {t})"
    "\<forall>t a. bt_get r t = Some a \<longrightarrow> bt_get bt_empty t = Some a \<or>
       sound_assignment (eligible_nodes candidates) t a \<and>
       fresh_assignment current floors mrev epoch (eligible_ids candidates) t a"
    using assign_targets_total [OF distinct_eligible_ids, of sha256 candidates current floors mrev epoch
        "sort targets" load bt_empty] unfolding en by - (elim exE conjE, rule that, assumption+)
  have "assign_reverse_mesh_with_generation_floors sha256 targets candidates current floors mrev epoch = Some r"
    by (simp add: assign_reverse_mesh_with_generation_floors_def Let_def load_def [symmetric] r(1))
  with r(2,3) show ?thesis by simp
qed

section \<open>Properties\<close>

text \<open>C14: the assignment never hits its \<^verbatim>\<open>expect\<close>, covers exactly the requested targets
  that have another eligible node, and gives each a primary and a standby that are eligible and
  differ from the target and from each other; the standby is missing only where no third node is
  eligible.\<close>

theorem reverse_assignment_sound:
  "\<exists>r. assign_reverse_mesh_with_generation_floors sha256 targets candidates current floors mrev epoch = Some r \<and>
     (\<forall>t. bt_contains_key r t \<longleftrightarrow> t \<in> set targets \<and> \<not> eligible_nodes candidates \<subseteq> {t}) \<and>
     (\<forall>t a. bt_get r t = Some a \<longrightarrow>
        sound_assignment (eligible_nodes candidates) t a \<and> (t \<noteq> [] \<longrightarrow> assignment_is_valid a))"
proof -
  have valid: "assignment_is_valid a"
    if "sound_assignment (eligible_nodes candidates) t a" "t \<noteq> []" for t a
    using that by (auto simp: sound_assignment_def assignment_is_valid_def eligible_nodes_def
        candidate_eligible_def split: option.splits)
  obtain r where r: "assign_reverse_mesh_with_generation_floors sha256 targets candidates current floors mrev epoch = Some r"
    "\<forall>t. bt_contains_key r t \<longleftrightarrow> t \<in> set targets \<and> \<not> eligible_nodes candidates \<subseteq> {t}"
    "\<forall>t a. bt_get r t = Some a \<longrightarrow> sound_assignment (eligible_nodes candidates) t a \<and>
       fresh_assignment current floors mrev epoch (eligible_ids candidates) t a"
    using assign_total [of sha256 targets candidates current floors mrev epoch]
    by - (elim exE conjE, rule that, assumption+)
  have "\<forall>t a. bt_get r t = Some a \<longrightarrow>
      sound_assignment (eligible_nodes candidates) t a \<and> (t \<noteq> [] \<longrightarrow> assignment_is_valid a)"
    using r(3) valid by blast
  with r(1,2) show ?thesis by (intro exI [of _ r] conjI) assumption+
qed


text \<open>C16: the assignment does not depend on the order in which targets and candidates are
  listed, nor on repeated candidates.\<close>

theorem reverse_assignment_deterministic:
  assumes "mset targets = mset targets'" "set candidates = set candidates'"
  shows "assign_reverse_mesh_with_generation_floors sha256 targets candidates current floors mrev epoch =
         assign_reverse_mesh_with_generation_floors sha256 targets' candidates' current floors mrev epoch"
proof -
  have "sort targets = sort targets'" using assms(1) by (simp add: properties_for_sort)
  moreover have "eligible_ids candidates = eligible_ids candidates'"
    using assms(2) by (simp add: eligible_ids_eq)
  ultimately show ?thesis by (simp add: assign_reverse_mesh_with_generation_floors_def)
qed

section \<open>Witnesses\<close>

definition example_candidates :: "reverse_mesh_candidate list" where
  "example_candidates = map (\<lambda>i. \<lparr>rca_node_id = i, rca_assignment_capable = True,
     rca_relay_capable = True, rca_signed_xray_ready = True, rca_managed_vless_endpoint = True\<rparr>)
     [''a'', ''b'', ''c'']"

lemma example_eligible: "eligible_nodes example_candidates = {''a'', ''b'', ''c''}"
proof -
  have "eligible_nodes example_candidates =
      set (map rca_node_id (filter candidate_eligible example_candidates))"
    by (simp add: eligible_nodes_def)
  then show ?thesis by (simp add: example_candidates_def candidate_eligible_def)
qed

theorem reverse_assignment_sound_witness:
  "\<exists>r. assign_reverse_mesh_with_generation_floors (\<lambda>_. []) [''a''] example_candidates bt_empty bt_empty 1 1 = Some r \<and>
     (\<exists>a. bt_get r ''a'' = Some a \<and> assignment_is_valid a)"
proof -
  obtain r where r: "assign_reverse_mesh_with_generation_floors (\<lambda>_. []) [''a''] example_candidates bt_empty bt_empty 1 1 = Some r"
    "\<forall>t. bt_contains_key r t \<longleftrightarrow> t \<in> set [''a''] \<and> \<not> eligible_nodes example_candidates \<subseteq> {t}"
    "\<forall>t a. bt_get r t = Some a \<longrightarrow>
       sound_assignment (eligible_nodes example_candidates) t a \<and> (t \<noteq> [] \<longrightarrow> assignment_is_valid a)"
    using reverse_assignment_sound [of "\<lambda>_. []" "[''a'']" example_candidates bt_empty bt_empty 1 1]
    by - (elim exE conjE, rule that, assumption+)
  have "bt_contains_key r ''a''" using r(2) by (simp add: example_eligible)
  then obtain a where "bt_get r ''a'' = Some a" by (auto simp: bt_contains_iff)
  moreover from this have "assignment_is_valid a" using r(3) by (meson list.distinct(2))
  ultimately show ?thesis using r(1) by blast
qed



theorem reverse_assignment_deterministic_witness:
  "assign_reverse_mesh_with_generation_floors (\<lambda>_. []) [''a'', ''b''] example_candidates bt_empty bt_empty 1 1 =
   assign_reverse_mesh_with_generation_floors (\<lambda>_. []) [''b'', ''a''] (List.rev example_candidates) bt_empty bt_empty 1 1"
  by (rule reverse_assignment_deterministic) simp_all

end
