(* ===== verification/Xp_Binary_Search.thy ===== *)
theory Xp_Binary_Search
  imports Xp_Prelude
begin

text \<open>
  \<^verbatim>\<open>slice::binary_search_by\<close> of the Rust standard library, with the comparison of a key
  \<open>k x\<close> to a sought key: \<open>Inr i\<close> is the index of a match, \<open>Inl i\<close> the insertion point.
\<close>

function search_base :: "('a \<Rightarrow> 'k::linorder) \<Rightarrow> 'k \<Rightarrow> 'a list \<Rightarrow> nat \<Rightarrow> nat \<Rightarrow> nat" where
  "search_base k t xs base sz =
     (if sz \<le> 1 then base
      else
        let half = sz div 2; mid = base + half
        in search_base k t xs (if t < k (xs ! mid) then base else mid) (sz - half))"
  by pat_completeness auto
termination
  by (relation "measure (\<lambda>(k, t, xs, base, sz). sz)") auto

declare search_base.simps [simp del]

definition binary_search :: "('a \<Rightarrow> 'k::linorder) \<Rightarrow> 'k \<Rightarrow> 'a list \<Rightarrow> nat + nat" where
  "binary_search k t xs =
     (if xs = [] then Inl 0
      else
        let base = search_base k t xs 0 (length xs)
        in if k (xs ! base) = t then Inr base
           else Inl (base + (if k (xs ! base) < t then 1 else 0)))"

abbreviation sorted_by :: "('a \<Rightarrow> 'k::linorder) \<Rightarrow> 'a list \<Rightarrow> bool" where
  "sorted_by k xs \<equiv> sorted_wrt (<) (map k xs)"

lemma sorted_by_less:
  "\<lbrakk>sorted_by k xs; i < j; j < length xs\<rbrakk> \<Longrightarrow> k (xs ! i) < k (xs ! j)"
  using sorted_wrt_nth_less [of "(<)" "map k xs" i j] by simp

lemma search_base_spec:
  assumes "sorted_by k xs" "0 < sz" "base + sz \<le> length xs"
    and "base = 0 \<or> k (xs ! base) \<le> t"
    and "\<forall>i. base + sz \<le> i \<and> i < length xs \<longrightarrow> t < k (xs ! i)"
  defines "b \<equiv> search_base k t xs base sz"
  shows "b < length xs \<and> (b = 0 \<or> k (xs ! b) \<le> t) \<and> (\<forall>i. b < i \<and> i < length xs \<longrightarrow> t < k (xs ! i))"
  using assms(1-5) unfolding b_def
proof (induction k t xs base sz rule: search_base.induct)
  case (1 k t xs base sz)
  show ?case
  proof (cases "sz \<le> 1")
    case True
    with "1.prems" show ?thesis by (auto simp: search_base.simps [of k t xs base sz])
  next
    case False
    define half where "half = sz div 2"
    define mid where "mid = base + half"
    have half: "0 < half" "half < sz" using False by (auto simp: half_def)
    have mid: "mid < length xs" using half "1.prems"(3) by (simp add: mid_def)
    have *: "search_base k t xs base sz =
        search_base k t xs (if t < k (xs ! mid) then base else mid) (sz - half)"
      using False by (simp add: search_base.simps [of k t xs base sz] Let_def half_def mid_def)
    note sorted = "1.prems"(1)
    show ?thesis
      unfolding *
    proof (rule "1.IH" [OF False half_def mid_def sorted])
      show "0 < sz - half" using half by simp
      show "(if t < k (xs ! mid) then base else mid) + (sz - half) \<le> length xs"
        using "1.prems"(3) half by (auto simp: mid_def)
      show "(if t < k (xs ! mid) then base else mid) = 0 \<or>
          k (xs ! (if t < k (xs ! mid) then base else mid)) \<le> t"
        using "1.prems"(4) by auto
      show "\<forall>i. (if t < k (xs ! mid) then base else mid) + (sz - half) \<le> i \<and> i < length xs \<longrightarrow>
          t < k (xs ! i)"
      proof (cases "t < k (xs ! mid)")
        case True
        have "t < k (xs ! i)" if "base + (sz - half) \<le> i" "i < length xs" for i
        proof -
          have "mid \<le> i" using that(1) half by (simp add: mid_def half_def)
          then show ?thesis
            using True sorted_by_less [OF sorted, of mid i] that(2) by (cases "mid = i") auto
        qed
        with True show ?thesis by simp
      next
        case False
        with "1.prems"(5) half show ?thesis by (simp add: mid_def)
      qed
    qed
  qed
qed

lemma search_base_all:
  fixes t :: "'k::linorder"
  assumes "sorted_by k xs" "xs \<noteq> []"
  defines "b \<equiv> search_base k t xs 0 (length xs)"
  shows "b < length xs" "b = 0 \<or> k (xs ! b) \<le> t" "\<forall>i. b < i \<and> i < length xs \<longrightarrow> t < k (xs ! i)"
proof -
  have "b < length xs \<and> (b = 0 \<or> k (xs ! b) \<le> t) \<and> (\<forall>i. b < i \<and> i < length xs \<longrightarrow> t < k (xs ! i))"
    unfolding b_def by (rule search_base_spec [OF assms(1)]) (use assms(2) in auto)
  then show "b < length xs" "b = 0 \<or> k (xs ! b) \<le> t" "\<forall>i. b < i \<and> i < length xs \<longrightarrow> t < k (xs ! i)"
    by blast+
qed

lemma binary_search_Inr: "binary_search k t xs = Inr i \<Longrightarrow> sorted_by k xs \<Longrightarrow> i < length xs \<and> k (xs ! i) = t"
  using search_base_all [of k xs t]
  by (auto simp: binary_search_def Let_def split: if_splits)

lemma binary_search_Inl:
  assumes "binary_search k t xs = Inl i" "sorted_by k xs"
  shows "i \<le> length xs \<and> (\<forall>j<i. k (xs ! j) < t) \<and> (\<forall>j. i \<le> j \<and> j < length xs \<longrightarrow> t < k (xs ! j))"
proof (cases "xs = []")
  case True
  with assms show ?thesis by (simp add: binary_search_def)
next
  case False
  define b where "b = search_base k t xs 0 (length xs)"
  have b: "b < length xs" "b = 0 \<or> k (xs ! b) \<le> t" "\<forall>i. b < i \<and> i < length xs \<longrightarrow> t < k (xs ! i)"
    using search_base_all [OF assms(2) False, of t] unfolding b_def by blast+
  have ne: "k (xs ! b) \<noteq> t" and i: "i = b + (if k (xs ! b) < t then 1 else 0)"
    using assms(1) False by (auto simp: binary_search_def Let_def b_def split: if_splits)
  have below: "k (xs ! j) < k (xs ! b)" if "j < b" for j
    using sorted_by_less [OF assms(2) that] b(1) by simp
  show ?thesis
  proof (cases "k (xs ! b) < t")
    case True
    then have i: "i = Suc b" using i by simp
    have "k (xs ! j) < t" if "j < i" for j
      using that below [of j] True i by (cases "j = b") auto
    with i b show ?thesis by (simp add: Suc_le_eq)
  next
    case False
    with ne b(2) have b0: "b = 0" "t < k (xs ! 0)" by auto
    have "t < k (xs ! j)" if "j < length xs" for j using that b(3) b0 by (cases j) auto
    with i False b0 show ?thesis by simp
  qed
qed

lemma binary_search_hit:
  assumes "sorted_by k xs" "i < length xs"
  shows "binary_search k (k (xs ! i)) xs = Inr i"
proof (cases "binary_search k (k (xs ! i)) xs")
  case (Inl j)
  from binary_search_Inl [OF this assms(1)] have "k (xs ! i) < k (xs ! i)"
    using assms(2) by (cases "i < j") (auto simp: not_less)
  then show ?thesis by simp
next
  case (Inr j)
  from binary_search_Inr [OF this assms(1)] have "j < length xs" "k (xs ! j) = k (xs ! i)" by auto
  then have "j = i"
    using sorted_by_less [OF assms(1), of i j] sorted_by_less [OF assms(1), of j i] assms(2)
    by (cases i j rule: linorder_cases) auto
  with Inr show ?thesis by simp
qed

end
