(* ===== verification/Xp_Repository.thy ===== *)
theory Xp_Repository
  imports Xp_Domain Xp_Lifecycle Xp_Binary_Search
begin

text \<open>
  The replicated control state of the history repositories: node identities
  (\<^verbatim>\<open>history_repository/identity\<close>), capacity (\<^verbatim>\<open>control/capacity.rs\<close>), and the
  member life cycle (\<^verbatim>\<open>control/lifecycle.rs\<close>). A membership is the list of its members, kept
  sorted by node id and searched by bisection. The base64 decoder is a parameter.
\<close>

section \<open>Identity\<close>

datatype repository_identity_error = InvalidNodeId string | InvalidPublicKey string string

definition repository_node_id_try_from :: "string \<Rightarrow> repository_identity_error + string" where
  "repository_node_id_try_from v =
     (if trim v = [] then Inl (InvalidNodeId ''must not be empty'')
      else if v \<noteq> trim v then Inl (InvalidNodeId ''must not have surrounding whitespace'')
      else if has_control v then Inl (InvalidNodeId ''must not contain control characters'')
      else Inr v)"

definition validate_public_key_bytes :: "string \<Rightarrow> u8 list \<Rightarrow> repository_identity_error + unit" where
  "validate_public_key_bytes kind bytes =
     (if list_all (\<lambda>b. b = 0) bytes then Inl (InvalidPublicKey kind ''must not be all zeroes'')
      else Inr ())"

definition decode_public_key ::
  "(string \<Rightarrow> u8 list option) \<Rightarrow> string \<Rightarrow> string \<Rightarrow> repository_identity_error + u8 list" where
  "decode_public_key b64url_decode kind encoded =
     (case b64url_decode encoded of
        None \<Rightarrow> Inl (InvalidPublicKey kind ''must be unpadded base64url'')
      | Some bytes \<Rightarrow>
          if length bytes \<noteq> 32
          then Inl (InvalidPublicKey kind
                 (if length bytes < 32 then ''must contain 32 bytes'' else ''must contain exactly 32 bytes''))
          else and_then (validate_public_key_bytes kind bytes) (\<lambda>_. Inr bytes))"

record repository_node_identity =
  ri_node_id :: string
  ri_ed25519_public_key :: "u8 list"
  ri_x25519_relay_public_key :: "u8 list"

section \<open>Capacity\<close>

datatype repository_capacity_error = ZeroQuota

datatype history_write_availability = Writable | DegradedLowSpace | QuotaReached

record repository_capacity =
  cap_quota_bytes :: u64
  cap_used_bytes :: u64
  cap_filesystem_available_bytes :: u64

definition DEFAULT_HISTORY_REPOSITORY_QUOTA_BYTES :: u64 where
  "DEFAULT_HISTORY_REPOSITORY_QUOTA_BYTES = 10 * 1024 * 1024 * 1024"

definition HISTORY_REPOSITORY_LOW_SPACE_GUARD_BYTES :: u64 where
  "HISTORY_REPOSITORY_LOW_SPACE_GUARD_BYTES = 256 * 1024 * 1024"

definition default_repository_capacity :: repository_capacity where
  "default_repository_capacity =
     \<lparr>cap_quota_bytes = DEFAULT_HISTORY_REPOSITORY_QUOTA_BYTES, cap_used_bytes = 0,
      cap_filesystem_available_bytes = - 1\<rparr>"

definition capacity_validate :: "repository_capacity \<Rightarrow> repository_capacity_error + unit" where
  "capacity_validate c = (if cap_quota_bytes c = 0 then Inl ZeroQuota else Inr ())"

definition capacity_new :: "u64 \<Rightarrow> repository_capacity_error + repository_capacity" where
  "capacity_new quota_bytes =
     (let capacity = default_repository_capacity\<lparr>cap_quota_bytes := quota_bytes\<rparr>
      in and_then (capacity_validate capacity) (\<lambda>_. Inr capacity))"

definition record_usage ::
  "u64 \<Rightarrow> u64 \<Rightarrow> (repository_capacity, repository_capacity_error, unit) handler" where
  "record_usage used_bytes filesystem_available_bytes c =
     (let nxt = \<lparr>cap_quota_bytes = cap_quota_bytes c, cap_used_bytes = used_bytes,
                 cap_filesystem_available_bytes = filesystem_available_bytes\<rparr>
      in case capacity_validate nxt of Inl e \<Rightarrow> (Inl e, c) | Inr _ \<Rightarrow> (Inr (), nxt))"

definition write_availability :: "repository_capacity \<Rightarrow> history_write_availability" where
  "write_availability c =
     (if cap_filesystem_available_bytes c < HISTORY_REPOSITORY_LOW_SPACE_GUARD_BYTES then DegradedLowSpace
      else if cap_quota_bytes c \<le> cap_used_bytes c then QuotaReached
      else Writable)"

definition allows_history_writes :: "history_write_availability \<Rightarrow> bool" where
  "allows_history_writes a = (a = Writable)"

section \<open>Members\<close>

datatype repository_lifecycle = Syncing | Ready | Retired

datatype repository_control_error =
    EmptyMembership
  | DuplicateRepositoryMember string
  | MissingRepository string
  | InvalidLifecycleTransition string repository_lifecycle string
  | CatchUpNotComplete string
  | StabilityWindowIncomplete string u64 u64
  | ClockBeforeCatchUp string
  | NoReadyConvergedReplacement string
  | LastRepositoryRequiresEmergencyDecision string
  | EmergencyReasonRequired
  | InvalidPersistedMember string string
  | IdentityError repository_identity_error
  | CapacityError repository_capacity_error

definition READY_STABILITY_WINDOW_SECONDS :: u64 where
  "READY_STABILITY_WINDOW_SECONDS = 5 * 60"

definition lifecycle_debug :: "repository_lifecycle \<Rightarrow> string" where
  "lifecycle_debug l =
     (case l of Syncing \<Rightarrow> ''Syncing'' | Ready \<Rightarrow> ''Ready'' | Retired \<Rightarrow> ''Retired'')"

fun identity_error_to_string :: "repository_identity_error \<Rightarrow> string" where
  "identity_error_to_string (InvalidNodeId reason) = ''invalid repository node id: '' @ reason"
| "identity_error_to_string (InvalidPublicKey kind reason) =
     ''invalid '' @ kind @ '' public key: '' @ reason"

fun control_error_to_string :: "repository_control_error \<Rightarrow> string" where
  "control_error_to_string EmptyMembership = ''repository membership must not be empty''"
| "control_error_to_string (DuplicateRepositoryMember n) = ''duplicate repository member: '' @ n"
| "control_error_to_string (MissingRepository n) = ''repository member not found: '' @ n"
| "control_error_to_string (InvalidLifecycleTransition n from_lifecycle action) =
     ''repository '' @ n @ '' cannot '' @ action @ '' from lifecycle '' @ lifecycle_debug from_lifecycle"
| "control_error_to_string (CatchUpNotComplete n) = ''repository '' @ n @ '' has not completed catch-up''"
| "control_error_to_string (StabilityWindowIncomplete n required elapsed) =
     ''repository '' @ n @ '' stable '' @ show_word elapsed @ ''s; '' @ show_word required @ ''s required''"
| "control_error_to_string (ClockBeforeCatchUp n) = ''ready time precedes catch-up for repository '' @ n"
| "control_error_to_string (NoReadyConvergedReplacement n) =
     ''repository '' @ n @ '' needs another ready converged repository before ordinary retirement''"
| "control_error_to_string (LastRepositoryRequiresEmergencyDecision n) =
     ''repository '' @ n @ '' is the last active repository and requires an emergency decision''"
| "control_error_to_string EmergencyReasonRequired = ''emergency retirement reason is required''"
| "control_error_to_string (InvalidPersistedMember n reason) =
     ''invalid persisted repository member '' @ n @ '': '' @ reason"
| "control_error_to_string (IdentityError e) = identity_error_to_string e"
| "control_error_to_string (CapacityError ZeroQuota) = ''repository quota must be greater than zero''"

record repository_member =
  rm_identity :: repository_node_identity
  rm_lifecycle :: repository_lifecycle
  rm_catch_up_completed_at :: "u64 option"
  rm_ready_at :: "u64 option"
  rm_replica_converged :: bool
  rm_capacity :: repository_capacity

definition rm_node_id :: "repository_member \<Rightarrow> string" where
  "rm_node_id m = ri_node_id (rm_identity m)"

definition ready_at_is_stable :: "repository_member \<Rightarrow> bool" where
  "ready_at_is_stable m =
     (case (rm_catch_up_completed_at m, rm_ready_at m) of
        (Some c, Some r) \<Rightarrow>
          (case checked_sub r c of
             None \<Rightarrow> False
           | Some elapsed \<Rightarrow> READY_STABILITY_WINDOW_SECONDS \<le> elapsed)
      | _ \<Rightarrow> False)"

definition member_validate :: "repository_member \<Rightarrow> repository_control_error + unit" where
  "member_validate m =
     and_then (map_err CapacityError (capacity_validate (rm_capacity m))) (\<lambda>_.
       if rm_lifecycle m = Syncing \<and> rm_replica_converged m
       then Inl (InvalidPersistedMember (rm_node_id m) ''syncing repository cannot be converged'')
       else if rm_lifecycle m = Ready \<and> rm_catch_up_completed_at m = None
       then Inl (InvalidPersistedMember (rm_node_id m) ''ready repository requires completed catch-up'')
       else if rm_lifecycle m = Ready \<and> \<not> ready_at_is_stable m
       then Inl (InvalidPersistedMember (rm_node_id m)
              ''ready repository requires five stable minutes after catch-up'')
       else if rm_lifecycle m = Retired \<and> rm_replica_converged m
       then Inl (InvalidPersistedMember (rm_node_id m) ''retired repository cannot be converged'')
       else if rm_lifecycle m = Retired \<and> \<not> ready_at_is_stable m
       then Inl (InvalidPersistedMember (rm_node_id m)
              ''retired repository must have been ready after stable catch-up'')
       else Inr ())"

definition member_new ::
  "repository_node_identity \<Rightarrow> repository_capacity \<Rightarrow> repository_control_error + repository_member" where
  "member_new identity capacity =
     (let member = \<lparr>rm_identity = identity, rm_lifecycle = Syncing, rm_catch_up_completed_at = None,
                    rm_ready_at = None, rm_replica_converged = False, rm_capacity = capacity\<rparr>
      in and_then (member_validate member) (\<lambda>_. Inr member))"

section \<open>Membership\<close>

type_synonym repository_membership = "repository_member list"

type_synonym 'a membership_op = "(repository_membership, repository_control_error, 'a) handler"

fun adjacent_duplicate :: "repository_member list \<Rightarrow> string option" where
  "adjacent_duplicate (a # b # ms) =
     (if rm_node_id a = rm_node_id b then Some (rm_node_id a) else adjacent_duplicate (b # ms))"
| "adjacent_duplicate _ = None"

definition membership_new ::
  "repository_member list \<Rightarrow> repository_control_error + repository_membership" where
  "membership_new members =
     (if members = [] then Inl EmptyMembership
      else
        let members = sort_key rm_node_id members
        in and_then (check_each member_validate members) (\<lambda>_.
             case adjacent_duplicate members of
               Some node_id \<Rightarrow> Inl (DuplicateRepositoryMember node_id)
             | None \<Rightarrow> Inr members))"

definition ready_members :: "repository_membership \<Rightarrow> repository_member list" where
  "ready_members ms = filter (\<lambda>m. rm_lifecycle m = Ready) ms"

definition repository :: "string \<Rightarrow> repository_membership \<Rightarrow> repository_member option" where
  "repository node_id ms =
     (case binary_search rm_node_id node_id ms of Inr i \<Rightarrow> Some (ms ! i) | Inl _ \<Rightarrow> None)"

definition repository_index :: "string \<Rightarrow> repository_membership \<Rightarrow> repository_control_error + nat" where
  "repository_index node_id ms =
     (case binary_search rm_node_id node_id ms of
        Inr i \<Rightarrow> Inr i | Inl _ \<Rightarrow> Inl (MissingRepository node_id))"

text \<open>\<^verbatim>\<open>repository_mut\<close>: run an update on the member of a node, in place.\<close>

definition repository_mut ::
  "string \<Rightarrow> (repository_member \<Rightarrow> (repository_control_error + 'a) \<times> repository_member)
     \<Rightarrow> 'a membership_op" where
  "repository_mut node_id f ms =
     (case repository_index node_id ms of
        Inl e \<Rightarrow> (Inl e, ms)
      | Inr i \<Rightarrow> (let (r, m) = f (ms ! i) in (r, ms[i := m])))"

definition add_repository :: "repository_member \<Rightarrow> unit membership_op" where
  "add_repository member ms =
     (case member_validate member of
        Inl e \<Rightarrow> (Inl e, ms)
      | Inr _ \<Rightarrow>
          (case binary_search rm_node_id (rm_node_id member) ms of
             Inr _ \<Rightarrow> (Inl (DuplicateRepositoryMember (rm_node_id member)), ms)
           | Inl index \<Rightarrow> (Inr (), take index ms @ member # drop index ms)))"

definition mark_catch_up_complete :: "string \<Rightarrow> u64 \<Rightarrow> unit membership_op" where
  "mark_catch_up_complete node_id completed_at =
     repository_mut node_id (\<lambda>m.
       if rm_lifecycle m \<noteq> Syncing
       then (Inl (InvalidLifecycleTransition node_id (rm_lifecycle m) ''complete catch-up''), m)
       else if (case rm_catch_up_completed_at m of None \<Rightarrow> False | Some previous \<Rightarrow> completed_at < previous)
       then (Inl (ClockBeforeCatchUp node_id), m)
       else (Inr (), m\<lparr>rm_catch_up_completed_at := Some completed_at, rm_ready_at := None\<rparr>))"

definition mark_ready :: "string \<Rightarrow> u64 \<Rightarrow> unit membership_op" where
  "mark_ready node_id ready_at =
     repository_mut node_id (\<lambda>m.
       if rm_lifecycle m \<noteq> Syncing
       then (Inl (InvalidLifecycleTransition node_id (rm_lifecycle m) ''become ready''), m)
       else (case rm_catch_up_completed_at m of
           None \<Rightarrow> (Inl (CatchUpNotComplete node_id), m)
         | Some completed_at \<Rightarrow>
             (case checked_sub ready_at completed_at of
                None \<Rightarrow> (Inl (ClockBeforeCatchUp node_id), m)
              | Some elapsed \<Rightarrow>
                  if elapsed < READY_STABILITY_WINDOW_SECONDS
                  then (Inl (StabilityWindowIncomplete node_id READY_STABILITY_WINDOW_SECONDS elapsed), m)
                  else (Inr (), m\<lparr>rm_lifecycle := Ready, rm_ready_at := Some ready_at\<rparr>))))"

definition mark_catch_up_incomplete :: "string \<Rightarrow> bool membership_op" where
  "mark_catch_up_incomplete node_id =
     repository_mut node_id (\<lambda>m.
       if rm_lifecycle m \<noteq> Syncing
       then (Inl (InvalidLifecycleTransition node_id (rm_lifecycle m) ''invalidate catch-up''), m)
       else (Inr (rm_catch_up_completed_at m \<noteq> None \<or> rm_ready_at m \<noteq> None),
             m\<lparr>rm_catch_up_completed_at := None, rm_ready_at := None\<rparr>))"

definition set_replica_converged :: "string \<Rightarrow> bool \<Rightarrow> unit membership_op" where
  "set_replica_converged node_id replica_converged =
     repository_mut node_id (\<lambda>m.
       if rm_lifecycle m \<noteq> Ready
       then (Inl (InvalidLifecycleTransition node_id (rm_lifecycle m) ''change replica convergence''), m)
       else (Inr (), m\<lparr>rm_replica_converged := replica_converged\<rparr>))"

definition record_capacity :: "string \<Rightarrow> u64 \<Rightarrow> u64 \<Rightarrow> unit membership_op" where
  "record_capacity node_id used_bytes filesystem_available_bytes =
     repository_mut node_id (\<lambda>m.
       let (r, c) = record_usage used_bytes filesystem_available_bytes (rm_capacity m)
       in (map_err CapacityError r, m\<lparr>rm_capacity := c\<rparr>))"

datatype retirement_decision = Ordinary | ForceEmergency string

definition retire :: "string \<Rightarrow> retirement_decision \<Rightarrow> unit membership_op" where
  "retire node_id decision ms =
     (case repository_index node_id ms of
        Inl e \<Rightarrow> (Inl e, ms)
      | Inr target_index \<Rightarrow>
          let target = ms ! target_index in
          if rm_lifecycle target \<noteq> Ready
          then (Inl (InvalidLifecycleTransition node_id (rm_lifecycle target) ''retire''), ms)
          else if decision = Ordinary \<and> length (filter (\<lambda>m. rm_lifecycle m \<noteq> Retired) ms) = 1
          then (Inl (LastRepositoryRequiresEmergencyDecision node_id), ms)
          else if decision = Ordinary \<and>
                  \<not> list_ex (\<lambda>(index, m). index \<noteq> target_index \<and> rm_lifecycle m = Ready \<and>
                       rm_replica_converged m) (enumerate 0 ms)
          then (Inl (NoReadyConvergedReplacement node_id), ms)
          else if (case decision of Ordinary \<Rightarrow> False | ForceEmergency reason \<Rightarrow> trim reason = [])
          then (Inl EmergencyReasonRequired, ms)
          else (Inr (), ms[target_index := target\<lparr>rm_lifecycle := Retired, rm_replica_converged := False\<rparr>]))"

section \<open>Runtime updates\<close>

datatype repository_member_runtime_update =
    RuCapacity u64 u64
  | RuCatchUpComplete u64
  | RuCatchUpIncomplete
  | RuReady u64
  | RuReplicaConverged bool

record repository_member_runtime_patch =
  rmp_node_id :: string
  rmp_update :: repository_member_runtime_update

definition forget_value :: "('e + 'a) \<times> 's \<Rightarrow> ('e + unit) \<times> 's" where
  "forget_value r = (map_sum id (\<lambda>_. ()) (fst r), snd r)"

text \<open>
  The update of one member by a runtime patch: a patch whose guard does not hold for the member's
  state, or whose node is unknown, is ignored.
\<close>

definition member_runtime_update ::
  "repository_member_runtime_patch \<Rightarrow> unit membership_op" where
  "member_runtime_update patch ms =
     (case repository (rmp_node_id patch) ms of
        None \<Rightarrow> (Inr (), ms)
      | Some member \<Rightarrow>
          let node_id = rmp_node_id patch in
          (case rmp_update patch of
             RuCapacity used_bytes filesystem_available_bytes \<Rightarrow>
               record_capacity node_id used_bytes filesystem_available_bytes ms
           | RuCatchUpComplete completed_at \<Rightarrow>
               if rm_lifecycle member = Syncing \<and>
                  (case rm_catch_up_completed_at member of None \<Rightarrow> True | Some current \<Rightarrow> current < completed_at)
               then mark_catch_up_complete node_id completed_at ms else (Inr (), ms)
           | RuCatchUpIncomplete \<Rightarrow>
               if rm_lifecycle member = Syncing
               then forget_value (mark_catch_up_incomplete node_id ms) else (Inr (), ms)
           | RuReady ready_at \<Rightarrow>
               if rm_lifecycle member = Syncing \<and>
                  (case rm_catch_up_completed_at member of
                     None \<Rightarrow> False
                   | Some completed_at \<Rightarrow>
                       READY_STABILITY_WINDOW_SECONDS \<le> sat_sub ready_at completed_at)
               then mark_ready node_id ready_at ms else (Inr (), ms)
           | RuReplicaConverged requested \<Rightarrow>
               if rm_lifecycle member = Ready \<and> rm_replica_converged member \<noteq> requested
               then set_replica_converged node_id requested ms else (Inr (), ms)))"

definition apply_member_runtime_update ::
  "repository_member_runtime_patch \<Rightarrow>
     (repository_membership option, repository_control_error, unit) handler" where
  "apply_member_runtime_update patch membership =
     (case repository_node_id_try_from (rmp_node_id patch) of
        Inl _ \<Rightarrow> (Inr (), membership)
      | Inr _ \<Rightarrow>
          (case membership of
             None \<Rightarrow> (Inr (), None)
           | Some ms \<Rightarrow> (let (r, ms') = member_runtime_update patch ms in (r, Some ms'))))"

section \<open>Invariant and order\<close>

definition member_ok :: "repository_member \<Rightarrow> bool" where
  "member_ok m =
     (cap_quota_bytes (rm_capacity m) \<noteq> 0 \<and>
      (case rm_lifecycle m of
         Syncing \<Rightarrow> \<not> rm_replica_converged m
       | Ready \<Rightarrow> ready_at_is_stable m
       | Retired \<Rightarrow> \<not> rm_replica_converged m \<and> ready_at_is_stable m))"

definition membership_ok :: "repository_membership \<Rightarrow> bool" where
  "membership_ok ms = (ms \<noteq> [] \<and> sorted_by rm_node_id ms \<and> list_all member_ok ms)"

fun lifecycle_may :: "repository_lifecycle \<Rightarrow> repository_lifecycle \<Rightarrow> bool" where
  "lifecycle_may Syncing nxt = (nxt \<noteq> Retired)"
| "lifecycle_may Ready nxt = (nxt \<noteq> Syncing)"
| "lifecycle_may Retired nxt = (nxt = Retired)"

fun lifecycle_rank :: "repository_lifecycle \<Rightarrow> nat" where
  "lifecycle_rank Syncing = 0"
| "lifecycle_rank Ready = 1"
| "lifecycle_rank Retired = 2"

interpretation rp: lifecycle lifecycle_may "\<lambda>l. l = Retired" lifecycle_rank
proof unfold_locales
  fix p q :: repository_lifecycle
  show "lifecycle_may p p" by (cases p) auto
  show "\<lbrakk>p = Retired; lifecycle_may p q\<rbrakk> \<Longrightarrow> q = p" by simp
  show "\<lbrakk>lifecycle_may p q; q \<noteq> p\<rbrakk> \<Longrightarrow> lifecycle_rank p < lifecycle_rank q"
    by (cases p; cases q) auto
qed

lemma member_validate_ok: "member_validate m = Inr () \<longleftrightarrow> member_ok m"
  by (cases "rm_lifecycle m")
     (auto simp: member_validate_def member_ok_def capacity_validate_def ready_at_is_stable_def
       split: option.splits)

definition member_le :: "repository_member \<Rightarrow> repository_member \<Rightarrow> bool" where
  "member_le m m' = (rm_identity m = rm_identity m' \<and> lifecycle_may\<^sup>*\<^sup>* (rm_lifecycle m) (rm_lifecycle m'))"

definition membership_le :: "repository_membership \<Rightarrow> repository_membership \<Rightarrow> bool" where
  "membership_le ms ms' = (\<forall>m \<in> set ms. \<exists>m' \<in> set ms'. member_le m m')"

lemma member_le_refl [simp]: "member_le m m"
  by (simp add: member_le_def)

lemma membership_le_refl [simp]: "membership_le ms ms"
  unfolding membership_le_def using member_le_refl by blast

lemma membership_le_trans: "\<lbrakk>membership_le a b; membership_le b c\<rbrakk> \<Longrightarrow> membership_le a c"
  unfolding membership_le_def member_le_def by (metis (no_types, lifting) rtranclp_trans)

lemma member_le_node_id: "member_le m m' \<Longrightarrow> rm_node_id m' = rm_node_id m"
  by (simp add: member_le_def rm_node_id_def)

lemma update_member_ok:
  assumes "membership_ok ms" "i < length ms" "member_ok m'" "member_le (ms ! i) m'"
  shows "membership_ok (ms[i := m']) \<and> membership_le ms (ms[i := m'])"
proof -
  have "map rm_node_id (ms[i := m']) = map rm_node_id ms"
    using assms(2) member_le_node_id [OF assms(4)] by (simp add: map_update list_update_same_conv)
  moreover have "list_all member_ok (ms[i := m'])"
    using assms(1,3) by (auto simp: membership_ok_def list_all_iff dest: set_update_subset_insert [THEN subsetD])
  moreover have "ms \<noteq> []" using assms(1) by (simp add: membership_ok_def)
  moreover have "membership_le ms (ms[i := m'])"
    unfolding membership_le_def
  proof
    fix m
    assume "m \<in> set ms"
    then obtain j where j: "j < length ms" "m = ms ! j" by (auto simp: in_set_conv_nth)
    then have "member_le m (ms[i := m'] ! j)" using assms(4) by (cases "i = j") auto
    then show "\<exists>m''\<in>set (ms[i := m']). member_le m m''" using j(1) by (metis length_list_update nth_mem)
  qed
  ultimately show ?thesis using assms(1) by (simp add: membership_ok_def)
qed

lemma repository_index_ok:
  "\<lbrakk>repository_index node_id ms = Inr i; membership_ok ms\<rbrakk> \<Longrightarrow>
     i < length ms \<and> rm_node_id (ms ! i) = node_id \<and> member_ok (ms ! i)"
  by (auto simp: repository_index_def membership_ok_def list_all_length
      dest: binary_search_Inr split: sum.splits)

lemma repository_mut_ok:
  assumes "\<And>m. member_ok m \<Longrightarrow> member_ok (snd (f m)) \<and> member_le m (snd (f m))" "membership_ok ms"
  shows "membership_ok (snd (repository_mut node_id f ms)) \<and>
         membership_le ms (snd (repository_mut node_id f ms))"
proof (cases "repository_index node_id ms")
  case (Inl e)
  then show ?thesis using assms(2) by (simp add: repository_mut_def)
next
  case (Inr i)
  note i = repository_index_ok [OF Inr assms(2)]
  have "snd (repository_mut node_id f ms) = ms[i := snd (f (ms ! i))]"
    using Inr by (simp add: repository_mut_def case_prod_beta Let_def)
  with i assms(1) [of "ms ! i"] update_member_ok [OF assms(2)] show ?thesis by simp
qed

lemma repository_mut_atomic:
  assumes "\<And>m e. fst (f m) = Inl e \<Longrightarrow> snd (f m) = m" "fst (repository_mut node_id f ms) = Inl e"
  shows "snd (repository_mut node_id f ms) = ms"
  using assms by (auto simp: repository_mut_def Let_def case_prod_beta split: sum.splits)

lemma lifecycle_step: "lifecycle_may p q \<Longrightarrow> lifecycle_may\<^sup>*\<^sup>* p q"
  by simp

lemma add_repository_ok:
  assumes "membership_ok ms"
  shows "membership_ok (snd (add_repository m ms)) \<and> membership_le ms (snd (add_repository m ms))"
proof (cases "member_validate m = Inr () \<and> (\<exists>i. binary_search rm_node_id (rm_node_id m) ms = Inl i)")
  case False
  then have "snd (add_repository m ms) = ms"
    by (auto simp: add_repository_def split: sum.splits)
  with assms show ?thesis by simp
next
  case True
  then obtain i where i: "binary_search rm_node_id (rm_node_id m) ms = Inl i" and ok: "member_ok m"
    by (auto simp: member_validate_ok)
  have sorted: "sorted_by rm_node_id ms" using assms by (simp add: membership_ok_def)
  note spec = binary_search_Inl [OF i sorted]
  have lo: "\<forall>x \<in> set (take i ms). rm_node_id x < rm_node_id m"
    and hi: "\<forall>x \<in> set (drop i ms). rm_node_id m < rm_node_id x"
    using spec by (auto simp: in_set_conv_nth)
  have "sorted_wrt (<) (map rm_node_id (take i ms) @ map rm_node_id (drop i ms))"
    using sorted by (metis append_take_drop_id map_append)
  then have "sorted_by rm_node_id (take i ms @ m # drop i ms)"
    using lo hi by (auto simp: sorted_wrt_append)
  moreover have "set (take i ms @ m # drop i ms) = insert m (set ms)"
    by (metis append_take_drop_id set_append list.simps(15) Un_insert_right)
  moreover have "snd (add_repository m ms) = take i ms @ m # drop i ms"
    using True i by (simp add: add_repository_def)
  ultimately show ?thesis
    using assms ok unfolding membership_ok_def membership_le_def list_all_iff
    by (metis append_is_Nil_conv insertCI insertE list.distinct(1) member_le_refl)
qed

lemma mark_catch_up_complete_ok:
  "membership_ok ms \<Longrightarrow> membership_ok (snd (mark_catch_up_complete n t ms)) \<and>
     membership_le ms (snd (mark_catch_up_complete n t ms))"
  unfolding mark_catch_up_complete_def
  by (rule repository_mut_ok) (auto simp: member_ok_def member_le_def split: repository_lifecycle.splits)

lemma mark_ready_ok:
  "membership_ok ms \<Longrightarrow> membership_ok (snd (mark_ready n t ms)) \<and> membership_le ms (snd (mark_ready n t ms))"
  unfolding mark_ready_def
  by (rule repository_mut_ok)
     (auto simp: member_ok_def member_le_def ready_at_is_stable_def not_less
       split: option.splits repository_lifecycle.splits)

lemma mark_catch_up_incomplete_ok:
  "membership_ok ms \<Longrightarrow> membership_ok (snd (mark_catch_up_incomplete n ms)) \<and>
     membership_le ms (snd (mark_catch_up_incomplete n ms))"
  unfolding mark_catch_up_incomplete_def
  by (rule repository_mut_ok) (auto simp: member_ok_def member_le_def split: repository_lifecycle.splits)

lemma set_replica_converged_ok:
  "membership_ok ms \<Longrightarrow> membership_ok (snd (set_replica_converged n b ms)) \<and>
     membership_le ms (snd (set_replica_converged n b ms))"
  unfolding set_replica_converged_def
  by (rule repository_mut_ok)
     (auto simp: member_ok_def member_le_def ready_at_is_stable_def split: repository_lifecycle.splits)

lemma record_capacity_ok:
  "membership_ok ms \<Longrightarrow> membership_ok (snd (record_capacity n u a ms)) \<and>
     membership_le ms (snd (record_capacity n u a ms))"
  unfolding record_capacity_def
  by (rule repository_mut_ok)
     (auto simp: member_ok_def member_le_def record_usage_def Let_def capacity_validate_def
       ready_at_is_stable_def split: repository_lifecycle.splits)

lemma retire_ok:
  assumes "membership_ok ms"
  shows "membership_ok (snd (retire n d ms)) \<and> membership_le ms (snd (retire n d ms))"
proof (cases "repository_index n ms")
  case (Inl e)
  then show ?thesis using assms by (simp add: retire_def)
next
  case (Inr i)
  define m' where "m' = (ms ! i)\<lparr>rm_lifecycle := Retired, rm_replica_converged := False\<rparr>"
  note i = repository_index_ok [OF Inr assms]
  have "membership_ok (ms[i := m']) \<and> membership_le ms (ms[i := m'])" if "rm_lifecycle (ms ! i) = Ready"
    by (rule update_member_ok [OF assms])
       (use i that in \<open>auto simp: m'_def member_ok_def member_le_def ready_at_is_stable_def\<close>)
  then show ?thesis using assms Inr by (auto simp: retire_def Let_def m'_def [symmetric])
qed

lemmas membership_op_ok =
  add_repository_ok mark_catch_up_complete_ok mark_ready_ok mark_catch_up_incomplete_ok
  set_replica_converged_ok record_capacity_ok retire_ok

lemma member_runtime_update_ok:
  "membership_ok ms \<Longrightarrow> membership_ok (snd (member_runtime_update p ms)) \<and>
     membership_le ms (snd (member_runtime_update p ms))"
  by (auto simp: member_runtime_update_def Let_def forget_value_def membership_op_ok
      split: option.splits repository_member_runtime_update.splits)

lemma adjacent_distinct_sorted:
  "\<lbrakk>sorted (map rm_node_id ms); adjacent_duplicate ms = None\<rbrakk> \<Longrightarrow> sorted_by rm_node_id ms"
proof (induction ms rule: adjacent_duplicate.induct)
  case (1 a b ms)
  then have "sorted_by rm_node_id (b # ms)" by (auto split: if_splits)
  moreover have "rm_node_id a < rm_node_id b" using "1.prems" by (auto split: if_splits)
  ultimately show ?case by auto
qed simp_all

lemma membership_new_ok:
  assumes "membership_new ms = Inr ms'"
  shows "membership_ok ms' \<and> set ms' = set ms"
proof -
  have ne: "ms \<noteq> []" and ms': "ms' = sort_key rm_node_id ms"
    and valid: "check_each member_validate (sort_key rm_node_id ms) = Inr ()"
    and dup: "adjacent_duplicate (sort_key rm_node_id ms) = None"
    using assms by (auto simp: membership_new_def Let_def and_then_Inr_iff split: if_splits option.splits)
  have "sorted (map rm_node_id (sort_key rm_node_id ms))" by simp
  then have "sorted_by rm_node_id ms'" using dup adjacent_distinct_sorted unfolding ms' by blast
  moreover have "list_all member_ok ms'"
    using valid by (simp add: ms' check_each_ok_iff member_validate_ok list_all_iff)
  moreover have "set ms' = set ms" by (simp add: ms')
  ultimately show ?thesis using ne by (auto simp: membership_ok_def)
qed

section \<open>Runs of membership operations\<close>

text \<open>The operations of a membership, as the letters of a run.\<close>

datatype membership_action =
    AddRepository repository_member
  | MarkCatchUpComplete string u64
  | MarkReady string u64
  | MarkCatchUpIncomplete string
  | SetReplicaConverged string bool
  | RecordCapacity string u64 u64
  | Retire string retirement_decision
  | RuntimeUpdate repository_member_runtime_patch

fun membership_step :: "membership_action \<Rightarrow> unit membership_op" where
  "membership_step (AddRepository m) = add_repository m"
| "membership_step (MarkCatchUpComplete n t) = mark_catch_up_complete n t"
| "membership_step (MarkReady n t) = mark_ready n t"
| "membership_step (MarkCatchUpIncomplete n) = (\<lambda>ms. forget_value (mark_catch_up_incomplete n ms))"
| "membership_step (SetReplicaConverged n b) = set_replica_converged n b"
| "membership_step (RecordCapacity n u a) = record_capacity n u a"
| "membership_step (Retire n d) = retire n d"
| "membership_step (RuntimeUpdate p) = member_runtime_update p"

lemma membership_step_ok:
  "membership_ok ms \<Longrightarrow> membership_ok (snd (membership_step a ms)) \<and>
     membership_le ms (snd (membership_step a ms))"
  by (cases a) (simp_all add: membership_op_ok member_runtime_update_ok forget_value_def)

lemma repository_ops_atomic:
  "fst (mark_catch_up_complete n t ms) = Inl e \<Longrightarrow> snd (mark_catch_up_complete n t ms) = ms"
  "fst (mark_ready n t ms) = Inl e \<Longrightarrow> snd (mark_ready n t ms) = ms"
  "fst (mark_catch_up_incomplete n ms) = Inl e \<Longrightarrow> snd (mark_catch_up_incomplete n ms) = ms"
  "fst (set_replica_converged n b ms) = Inl e \<Longrightarrow> snd (set_replica_converged n b ms) = ms"
  "fst (record_capacity n u a ms) = Inl e \<Longrightarrow> snd (record_capacity n u a ms) = ms"
  unfolding mark_catch_up_complete_def mark_ready_def mark_catch_up_incomplete_def
    set_replica_converged_def record_capacity_def
  by (erule repository_mut_atomic [rotated];
      auto simp: record_usage_def Let_def split: if_splits option.splits sum.splits)+

lemma membership_step_atomic:
  "fst (membership_step a ms) = Inl e \<Longrightarrow> snd (membership_step a ms) = ms"
proof (cases a)
  case (AddRepository m)
  then show "fst (membership_step a ms) = Inl e \<Longrightarrow> ?thesis"
    by (auto simp: add_repository_def split: sum.splits)
next
  case (Retire n d)
  then show "fst (membership_step a ms) = Inl e \<Longrightarrow> ?thesis"
    by (auto simp: retire_def Let_def split: sum.splits if_splits)
next
  case (RuntimeUpdate p)
  then show "fst (membership_step a ms) = Inl e \<Longrightarrow> ?thesis"
    by (auto simp: member_runtime_update_def Let_def forget_value_def map_sum_def repository_ops_atomic
        split: option.splits repository_member_runtime_update.splits if_splits sum.splits)
qed (auto simp: repository_ops_atomic forget_value_def map_sum_def split: sum.splits)

interpretation rm: monotone_machine membership_step "\<lambda>_ _. True" membership_ok membership_le
  by unfold_locales (auto simp: membership_step_ok intro: membership_le_trans)

interpretation rma: atomic_machine membership_step
  by unfold_locales (rule membership_step_atomic)

section \<open>Properties\<close>

text \<open>C17: a membership that was constructed stays well formed under every sequence of
  operations, failed ones included: sorted by distinct node ids, quotas positive, a Ready or Retired
  member has five stable minutes behind it, and only Ready members count as converged. No member is
  lost, and life cycles only move from Syncing to Ready to Retired.\<close>

theorem repository_membership_invariant:
  assumes "membership_new members = Inr ms"
  shows "membership_ok (run_log membership_step actions ms) \<and>
         membership_le ms (run_log membership_step actions ms)"
  using membership_new_ok [OF assms] by (auto intro!: rm.run_inv rm.run_le)

text \<open>C18: an ordinary retirement succeeds only when another member is ready and converged,
  and that member is still there afterwards, with its five minutes of stability; the retired member is
  the named one and nothing else changed.\<close>

theorem ordinary_retirement_keeps_replacement:
  assumes "membership_ok ms" "retire node_id Ordinary ms = (Inr (), ms')"
  shows "(\<exists>m \<in> set ms'. rm_node_id m \<noteq> node_id \<and> rm_lifecycle m = Ready \<and> rm_replica_converged m \<and>
            ready_at_is_stable m) \<and>
         (\<exists>i < length ms. rm_node_id (ms ! i) = node_id \<and> rm_lifecycle (ms ! i) = Ready \<and>
            ms' = ms[i := (ms ! i)\<lparr>rm_lifecycle := Retired, rm_replica_converged := False\<rparr>])"
proof -
  obtain i where idx: "repository_index node_id ms = Inr i"
    using assms(2) by (auto simp: retire_def split: sum.splits)
  note i = repository_index_ok [OF idx assms(1)]
  have ready: "rm_lifecycle (ms ! i) = Ready"
    and ms': "ms' = ms[i := (ms ! i)\<lparr>rm_lifecycle := Retired, rm_replica_converged := False\<rparr>]"
    and other: "list_ex (\<lambda>(j, m). j \<noteq> i \<and> rm_lifecycle m = Ready \<and> rm_replica_converged m) (enumerate 0 ms)"
    using assms(2) idx by (auto simp: retire_def Let_def split: if_splits)
  from other obtain j where j: "j < length ms" "j \<noteq> i" "rm_lifecycle (ms ! j) = Ready"
    "rm_replica_converged (ms ! j)"
    by (auto simp: list_ex_iff in_set_enumerate_eq)
  have "member_ok (ms ! j)" using assms(1) j(1) by (simp add: membership_ok_def list_all_length)
  then have "ready_at_is_stable (ms ! j)" using j(3) by (simp add: member_ok_def)
  moreover have "rm_node_id (ms ! j) \<noteq> node_id"
  proof -
    have "sorted_by rm_node_id ms" using assms(1) by (simp add: membership_ok_def)
    then have "rm_node_id (ms ! j) \<noteq> rm_node_id (ms ! i)"
      using sorted_by_less [of rm_node_id ms i j] sorted_by_less [of rm_node_id ms j i] i j
      by (cases i j rule: linorder_cases) auto
    with i show ?thesis by simp
  qed
  moreover have "ms ! j \<in> set ms'" using j(1,2) ms' by (metis length_list_update nth_list_update_neq nth_mem)
  ultimately show ?thesis using i ready ms' j by blast
qed

section \<open>Witnesses\<close>

definition example_member :: "string \<Rightarrow> repository_member" where
  "example_member node_id =
     \<lparr>rm_identity = \<lparr>ri_node_id = node_id, ri_ed25519_public_key = replicate 32 1,
                     ri_x25519_relay_public_key = replicate 32 2\<rparr>,
      rm_lifecycle = Ready, rm_catch_up_completed_at = Some 100, rm_ready_at = Some 400,
      rm_replica_converged = True, rm_capacity = default_repository_capacity\<rparr>"

lemma example_member_facts:
  "member_ok (example_member n)" "rm_node_id (example_member n) = n"
  "rm_lifecycle (example_member n) = Ready" "rm_replica_converged (example_member n)"
  by (simp_all add: example_member_def member_ok_def default_repository_capacity_def
      DEFAULT_HISTORY_REPOSITORY_QUOTA_BYTES_def ready_at_is_stable_def checked_sub_def
      READY_STABILITY_WINDOW_SECONDS_def rm_node_id_def)

lemma example_new:
  "membership_new [example_member ''b'', example_member ''a''] =
     Inr [example_member ''a'', example_member ''b'']"
proof -
  have "member_validate (example_member n) = Inr ()" for n
    by (simp add: member_validate_ok example_member_facts)
  then show ?thesis by (simp add: membership_new_def Let_def example_member_facts)
qed

theorem repository_membership_invariant_witness:
  "membership_ok (run_log membership_step [Retire ''a'' Ordinary, Retire ''b'' Ordinary]
     [example_member ''a'', example_member ''b''])"
  using repository_membership_invariant [OF example_new] by blast

theorem ordinary_retirement_keeps_replacement_witness:
  "\<exists>ms'. retire ''a'' Ordinary [example_member ''a'', example_member ''b''] = (Inr (), ms') \<and>
     (\<exists>m \<in> set ms'. rm_node_id m \<noteq> ''a'' \<and> rm_lifecycle m = Ready)"
proof -
  define ms where "ms = [example_member ''a'', example_member ''b'']"
  have ok: "membership_ok ms"
    using membership_new_ok [OF example_new] by (simp add: ms_def)
  then have "binary_search rm_node_id (rm_node_id (ms ! 0)) ms = Inr 0"
    by (intro binary_search_hit) (simp_all add: membership_ok_def)
  then have idx: "repository_index ''a'' ms = Inr 0"
    by (simp add: repository_index_def ms_def example_member_facts)
  obtain ms' where ms': "retire ''a'' Ordinary ms = (Inr (), ms')"
    using idx by (simp add: retire_def Let_def ms_def example_member_facts)
  show ?thesis
    using ordinary_retirement_keeps_replacement [OF ok ms'] ms' unfolding ms_def by blast
qed

end
