(* ===== verification/Xp_State.thy ===== *)
theory Xp_State
  imports Xp_Protocol Xp_Join_Session Xp_Membership_Operation Xp_Reverse_Mesh Xp_Repository
begin

text \<open>
  The replicated desired state of \<^verbatim>\<open>state.rs\<close>: the persisted state, the commands and their
  results, and the helpers the commands share. The code of other crates enters through the record
  \<open>ext\<close>: the RFC 3339 parser of \<^verbatim>\<open>chrono\<close>, the conversions of the VLESS metadata from and to
  JSON of \<^verbatim>\<open>serde_json\<close>, the URL parser of \<^verbatim>\<open>reqwest\<close>, and the JSON decoder of the
  probe payload in compatibility notes.
\<close>

section \<open>Data\<close>

definition SCHEMA_VERSION :: u32 where
  "SCHEMA_VERSION = 13"

definition ENDPOINT_PROBE_HOUR_BUCKET_LIMIT :: nat where
  "ENDPOINT_PROBE_HOUR_BUCKET_LIMIT = 24"

text \<open>
  The error type of the store. \<open>Panic\<close> is not a variant of the source: it is the outcome of an
  \<^verbatim>\<open>expect\<close> or \<^verbatim>\<open>unreachable!\<close> that is hit.
\<close>

datatype store_error =
    Io string
  | SerdeJson string
  | Domain domain_error
  | Migration string
  | SchemaVersionMismatch u32 u32
  | InvalidJoinSession string
  | InvalidMembershipOperation string
  | Panic string

record geo_db_update_settings =
  gdb_provider :: string
  gdb_auto_update_enabled :: bool
  gdb_update_interval_days :: u8

definition default_geo_db_update_settings :: geo_db_update_settings where
  "default_geo_db_update_settings =
     \<lparr>gdb_provider = ''dbip_lite'', gdb_auto_update_enabled = False, gdb_update_interval_days = 1\<rparr>"

datatype mihomo_delivery_mode = Legacy | Provider

record probe_node_sample =
  pns_ok :: bool
  pns_skipped :: bool
  pns_checked_at :: string
  pns_latency_ms :: "u32 option"
  pns_target_id :: "string option"
  pns_target_url :: "string option"
  pns_error :: "string option"
  pns_config_hash :: string

record probe_append_sample =
  pas_endpoint_id :: string
  pas_ok :: bool
  pas_skipped :: bool
  pas_checked_at :: string
  pas_latency_ms :: "u32 option"
  pas_target_id :: "string option"
  pas_target_url :: "string option"
  pas_error :: "string option"
  pas_config_hash :: string

text \<open>
  The one-field structs of the probe history: an hour holds the samples by node, a history the
  hours by hour key.
\<close>

type_synonym probe_hour = "(string, probe_node_sample) btree_map"
type_synonym probe_history = "(string, probe_hour) btree_map"

datatype node_subscription_region = Japan | HongKong | Taiwan | Korea | Singapore | Us | Other

record ip_geo =
  geo_country :: string
  geo_region :: string
  geo_city :: string
  geo_operator :: string

record node_egress_probe =
  nep_public_ipv4 :: "string option"
  nep_public_ipv6 :: "string option"
  nep_selected_public_ip :: "string option"
  nep_geo :: ip_geo
  nep_subscription_region :: node_subscription_region
  nep_checked_at :: string
  nep_last_success_at :: "string option"
  nep_classification_invalidated_at :: "string option"
  nep_error_summary :: "string option"

record user_node_quota_config =
  unqc_quota_limit_bytes :: "u64 option"
  unqc_quota_reset_source :: quota_reset_source

record user_mihomo_profile =
  ump_mixin_yaml :: string
  ump_extra_proxies_yaml :: string
  ump_extra_proxy_providers_yaml :: string

text \<open>An access membership, ordered by its fields from left to right.\<close>

datatype membership = Membership (m_user_id: string) (m_node_id: string) (m_endpoint_id: string)

definition membership_triple :: "membership \<Rightarrow> string \<times> string \<times> string" where
  "membership_triple m = (m_user_id m, m_node_id m, m_endpoint_id m)"

instantiation membership :: linorder
begin

definition less_eq_membership :: "membership \<Rightarrow> membership \<Rightarrow> bool" where
  "less_eq_membership a b = (membership_triple a \<le> membership_triple b)"

definition less_membership :: "membership \<Rightarrow> membership \<Rightarrow> bool" where
  "less_membership a b = (membership_triple a < membership_triple b)"

instance
proof
  fix x y z :: membership
  show "(x < y) = (x \<le> y \<and> \<not> y \<le> x)"
    by (auto simp: less_eq_membership_def less_membership_def)
  show "x \<le> x" by (simp add: less_eq_membership_def)
  show "x \<le> y \<Longrightarrow> y \<le> z \<Longrightarrow> x \<le> z" unfolding less_eq_membership_def by (rule order_trans)
  show "x \<le> y \<or> y \<le> x" by (auto simp: less_eq_membership_def)
  assume "x \<le> y" "y \<le> x"
  then have "membership_triple x = membership_triple y" unfolding less_eq_membership_def by (rule order.antisym)
  then show "x = y" by (cases x; cases y) (simp add: membership_triple_def)
qed

end

record state =
  st_schema_version :: u32
  st_mihomo_resource_revision :: u64
  st_mihomo_resource_allow_private_targets :: bool
  st_nodes :: "(string, node) btree_map"
  st_join_sessions :: "(string, join_session) btree_map"
  st_membership_operations :: "(string, membership_operation) btree_map"
  st_endpoints :: "(string, endpoint) btree_map"
  st_endpoint_probe_history :: "(string, probe_history) btree_map"
  st_endpoint_probe_participants_by_hour :: "(string, string btree_set) btree_map"
  st_node_egress_probes :: "(string, node_egress_probe) btree_map"
  st_users :: "(string, user) btree_map"
  st_reality_domains :: "reality_domain list"
  st_user_node_quotas :: "(string, (string, user_node_quota_config) btree_map) btree_map"
  st_user_node_weights :: "(string, (string, u16) btree_map) btree_map"
  st_user_global_weights :: "(string, u16) btree_map"
  st_node_weight_policies :: "(string, bool) btree_map"
  st_node_user_endpoint_memberships :: "membership btree_set"
  st_user_auto_assign_endpoint_kinds :: "(string, endpoint_kind btree_set) btree_map"
  st_user_mihomo_profiles :: "(string, user_mihomo_profile) btree_map"
  st_mihomo_delivery_mode :: mihomo_delivery_mode
  st_repository_membership :: "repository_membership option"
  st_reverse_mesh_epoch :: u64
  st_reverse_mesh_assignments :: "(string, reverse_mesh_assignment) btree_map"
  st_reverse_mesh_generation_counters :: "(string, u64) btree_map"
  st_geo_db_update_settings_compat :: geo_db_update_settings

definition empty_state :: state where
  "empty_state =
     \<lparr>st_schema_version = SCHEMA_VERSION,
      st_mihomo_resource_revision = 0,
      st_mihomo_resource_allow_private_targets = False,
      st_nodes = bt_empty,
      st_join_sessions = bt_empty,
      st_membership_operations = bt_empty,
      st_endpoints = bt_empty,
      st_endpoint_probe_history = bt_empty,
      st_endpoint_probe_participants_by_hour = bt_empty,
      st_node_egress_probes = bt_empty,
      st_users = bt_empty,
      st_reality_domains = [],
      st_user_node_quotas = bt_empty,
      st_user_node_weights = bt_empty,
      st_user_global_weights = bt_empty,
      st_node_weight_policies = bt_empty,
      st_node_user_endpoint_memberships = bt_empty,
      st_user_auto_assign_endpoint_kinds = bt_empty,
      st_user_mihomo_profiles = bt_empty,
      st_mihomo_delivery_mode = Legacy,
      st_repository_membership = None,
      st_reverse_mesh_epoch = 0,
      st_reverse_mesh_assignments = bt_empty,
      st_reverse_mesh_generation_counters = bt_empty,
      st_geo_db_update_settings_compat = default_geo_db_update_settings\<rparr>"

definition active_membership_operation :: "state \<Rightarrow> membership_operation option" where
  "active_membership_operation s = find is_active (bt_values (st_membership_operations s))"

section \<open>Code of other crates\<close>

record ext =
  x_rfc3339 :: "string \<Rightarrow> int option"
  x_vless_from_value :: "json \<Rightarrow> string + vless_meta"
  x_vless_to_value :: "vless_meta \<Rightarrow> string + json"
  x_url_parse :: "string \<Rightarrow> url option"
  x_probe_payload_from_str :: "string \<Rightarrow> (string \<times> node_egress_probe) option"

text \<open>Documented behaviour of \<^verbatim>\<open>serde_json\<close>: a struct serialises to an object.\<close>

definition to_value_gives_object :: "ext \<Rightarrow> bool" where
  "to_value_gives_object x = (\<forall>m v. x_vless_to_value x m = Inr v \<longrightarrow> is_object v)"

section \<open>Commands\<close>

datatype command =
    UpsertNode node "join_session option"
  | DeleteNode string bool "string list" "join_session option"
  | BeginMembershipOperation membership_operation "node option" "join_session option"
  | TransitionMembershipOperation membership_operation
  | PruneMembershipOperations string
  | UpsertEndpoint endpoint "endpoint option"
  | DeleteEndpoint string
  | CreateRealityDomain reality_domain
  | PatchRealityDomain string "string option" "string btree_set option"
  | DeleteRealityDomain string
  | ReorderRealityDomains "string list"
  | UpsertUser user
  | DeleteUser string
  | ResetUserSubscriptionToken string string
  | SetUserNodeQuota string string u64 quota_reset_source
  | SetUserNodeWeight string string u16
  | SetUserGlobalWeight string u16
  | SetNodeWeightPolicy string bool
  | SetUserMihomoProfile string user_mihomo_profile
  | SetMihomoDeliveryMode mihomo_delivery_mode
  | SetMihomoResourceAllowPrivateTargets bool
  | SetGeoDbUpdateSettings geo_db_update_settings
  | ReplaceUserAccess string "string list"
  | EnsureMembership string string
  | BumpUserCredentialEpoch string
  | CompatNoop string
  | AppendEndpointProbeSamples string string "probe_append_sample list"
  | ReplaceRepositoryMembership repository_membership
  | UpdateRepositoryMemberRuntime repository_member_runtime_patch
  | SetReverseMeshEpoch u64
  | UpsertReverseMeshAssignment reverse_mesh_assignment "u64 option"
  | DeleteReverseMeshAssignment string "u64 option"

datatype apply_result =
    Applied
  | MembershipOperationResult membership_operation
  | NodeDeleted bool "string list"
  | EndpointDeleted bool
  | UserDeleted bool
  | UserTokenReset bool
  | UserNodeQuotaSet user_node_quota
  | UserAccessReplaced nat nat
  | UserCredentialEpochBumped string u32

type_synonym state_handler = "(state, store_error, apply_result) handler"

end
