(* ===== verification/Xp_Access.thy ===== *)
theory Xp_Access
  imports Xp_State
begin

text \<open>
  The access memberships of \<^verbatim>\<open>state.rs\<close>: which user may use which endpoint. The set is a
  derived index: it is rebuilt from itself, the users, the endpoints and the kinds a user is assigned
  automatically after every change to one of them
  (\<^verbatim>\<open>sync_node_user_endpoint_memberships\<close>). The theory holds that derivation, the two
  commands that edit access, and the laws of both.
\<close>

section \<open>Operations\<close>

definition membership_key :: "string \<Rightarrow> string \<Rightarrow> string" where
  "membership_key user_id endpoint_id = user_id @ ''::'' @ endpoint_id"

definition membership_xray_email :: "string \<Rightarrow> string \<Rightarrow> string" where
  "membership_xray_email user_id endpoint_id = ''m:'' @ membership_key user_id endpoint_id"

definition membership_of :: "string \<Rightarrow> endpoint \<Rightarrow> membership" where
  "membership_of user_id e = Membership user_id (ep_node_id e) (ep_endpoint_id e)"

definition normalize_memberships :: "state \<Rightarrow> membership btree_set \<Rightarrow> membership btree_set" where
  "normalize_memberships s ms =
     fold (\<lambda>m out.
         if \<not> bt_contains_key (st_users s) (m_user_id m) then out
         else (case bt_get (st_endpoints s) (m_endpoint_id m) of
             None \<Rightarrow> out
           | Some e \<Rightarrow> bs_insert (Membership (m_user_id m) (ep_node_id e) (m_endpoint_id m)) out))
       (bs_list ms) bt_empty"

definition build_memberships :: "state \<Rightarrow> membership btree_set" where
  "build_memberships s =
     (let out = normalize_memberships s (st_node_user_endpoint_memberships s)
      in fold (\<lambda>(user_id, kinds) out.
             if \<not> bt_contains_key (st_users s) user_id then out
             else fold (\<lambda>e out.
                 if \<not> bs_contains kinds (ep_kind e) then out else bs_insert (membership_of user_id e) out)
               (bt_values (st_endpoints s)) out)
           (bt_entries (st_user_auto_assign_endpoint_kinds s)) out)"

definition normalize_auto_assign ::
  "state \<Rightarrow> (string, endpoint_kind btree_set) btree_map \<Rightarrow> (string, endpoint_kind btree_set) btree_map" where
  "normalize_auto_assign s auto_assign =
     fold (\<lambda>(user_id, kinds) out.
         if \<not> bt_contains_key (st_users s) user_id then out
         else if \<not> bt_is_empty kinds then bt_insert user_id kinds out else out)
       (bt_entries auto_assign) bt_empty"

definition infer_auto_assign_kinds_for_user :: "state \<Rightarrow> string btree_set \<Rightarrow> endpoint_kind btree_set" where
  "infer_auto_assign_kinds_for_user s endpoint_ids =
     (let by_kind =
        fold (\<lambda>e m. bt_entry (ep_kind e) bt_empty (bs_insert (ep_endpoint_id e)) m)
          (bt_values (st_endpoints s)) bt_empty
      in bs_of_list (map fst (filter
           (\<lambda>(kind, ids). \<not> (bt_is_empty ids \<or> \<not> bs_is_subset ids endpoint_ids)) (bt_entries by_kind))))"

definition infer_user_auto_assign_kinds :: "state \<Rightarrow> (string, endpoint_kind btree_set) btree_map" where
  "infer_user_auto_assign_kinds s =
     (let by_user =
        fold (\<lambda>m acc. bt_entry (m_user_id m) bt_empty (bs_insert (m_endpoint_id m)) acc)
          (bs_list (st_node_user_endpoint_memberships s)) bt_empty
      in fold (\<lambda>user_id out.
             let kinds = infer_auto_assign_kinds_for_user s (bt_get_or bt_empty by_user user_id)
             in if \<not> bt_is_empty kinds then bt_insert user_id kinds out else out)
           (bt_keys (st_users s)) bt_empty)"

definition sync_memberships :: "state \<Rightarrow> state" where
  "sync_memberships s =
     (let s = s\<lparr>st_user_auto_assign_endpoint_kinds :=
                  normalize_auto_assign s (st_user_auto_assign_endpoint_kinds s)\<rparr>
      in s\<lparr>st_node_user_endpoint_memberships := build_memberships s\<rparr>)"

definition user_endpoint_ids :: "string \<Rightarrow> state \<Rightarrow> string btree_set" where
  "user_endpoint_ids user_id s =
     bs_of_list (map m_endpoint_id
       (filter (\<lambda>m. m_user_id m = user_id) (bs_list (st_node_user_endpoint_memberships s))))"

text \<open>
  The insertion loop of \<^verbatim>\<open>ReplaceUserAccess\<close>; \<open>None\<close> is the panic of
  \<^verbatim>\<open>expect("validated endpoint exists")\<close>.
\<close>

fun insert_access :: "state \<Rightarrow> string \<Rightarrow> string list \<Rightarrow> membership btree_set \<Rightarrow> membership btree_set option" where
  "insert_access s user_id [] ms = Some ms"
| "insert_access s user_id (endpoint_id # ids) ms =
     (case bt_get (st_endpoints s) endpoint_id of
        None \<Rightarrow> None
      | Some e \<Rightarrow> insert_access s user_id ids (bs_insert (membership_of user_id e) ms))"

definition check_endpoints_exist :: "state \<Rightarrow> string list \<Rightarrow> store_error + unit" where
  "check_endpoints_exist s ids =
     check_each (\<lambda>id. if bt_contains_key (st_endpoints s) id then Inr () else Inl (Domain (MissingEndpoint id))) ids"

definition apply_replace_user_access :: "string \<Rightarrow> string list \<Rightarrow> state_handler" where
  "apply_replace_user_access user_id endpoint_ids s =
     (if \<not> bt_contains_key (st_users s) user_id then (Inl (Domain (MissingUser user_id)), s)
      else
        let desired = bs_of_list endpoint_ids
        in case check_endpoints_exist s (bs_list desired) of
             Inl e \<Rightarrow> (Inl e, s)
           | Inr _ \<Rightarrow>
               let existing = user_endpoint_ids user_id s;
                   created = length (bs_difference desired existing);
                   deleted = length (bs_difference existing desired);
                   kept = bs_retain (\<lambda>m. m_user_id m \<noteq> user_id) (st_node_user_endpoint_memberships s)
               in case insert_access s user_id (bs_list desired) kept of
                    None \<Rightarrow> (Inl (Panic ''validated endpoint exists''), s)
                  | Some ms \<Rightarrow>
                      let s1 = s\<lparr>st_node_user_endpoint_memberships := ms\<rparr>;
                          kinds = infer_auto_assign_kinds_for_user s1 (user_endpoint_ids user_id s1);
                          s2 = s1\<lparr>st_user_auto_assign_endpoint_kinds :=
                                 (if bt_is_empty kinds
                                  then bt_remove user_id (st_user_auto_assign_endpoint_kinds s1)
                                  else bt_insert user_id kinds (st_user_auto_assign_endpoint_kinds s1))\<rparr>
                      in (Inr (UserAccessReplaced created deleted), sync_memberships s2))"

definition apply_ensure_membership :: "string \<Rightarrow> string \<Rightarrow> state_handler" where
  "apply_ensure_membership user_id endpoint_id s =
     (if \<not> bt_contains_key (st_users s) user_id then (Inl (Domain (MissingUser user_id)), s)
      else (case bt_get (st_endpoints s) endpoint_id of
          None \<Rightarrow> (Inl (Domain (MissingEndpoint endpoint_id)), s)
        | Some e \<Rightarrow>
            (Inr Applied,
             sync_memberships (s\<lparr>st_node_user_endpoint_memberships :=
               bs_insert (membership_of user_id e) (st_node_user_endpoint_memberships s)\<rparr>))))"

section \<open>The derived index\<close>

lemma bs_set_fold_case:
  "bs_set (fold (\<lambda>x out. case f x of None \<Rightarrow> out | Some y \<Rightarrow> bs_insert y out) xs out) =
     bs_set out \<union> {y. \<exists>x \<in> set xs. f x = Some y}"
proof (induction xs arbitrary: out)
  case (Cons x xs)
  then show ?case by (cases "f x") auto
qed simp

lemma bs_set_normalize:
  "bs_set (normalize_memberships s ms) =
     {Membership (m_user_id m) (ep_node_id e) (m_endpoint_id m) | m e.
        m \<in> bs_set ms \<and> bt_contains_key (st_users s) (m_user_id m) \<and>
        bt_get (st_endpoints s) (m_endpoint_id m) = Some e}"
proof -
  define f where "f m = (if \<not> bt_contains_key (st_users s) (m_user_id m) then None
    else map_option (\<lambda>e. Membership (m_user_id m) (ep_node_id e) (m_endpoint_id m))
      (bt_get (st_endpoints s) (m_endpoint_id m)))" for m
  have "normalize_memberships s ms =
      fold (\<lambda>m out. case f m of None \<Rightarrow> out | Some y \<Rightarrow> bs_insert y out) (bs_list ms) bt_empty"
    unfolding normalize_memberships_def f_def
    by (intro fold_cong refl) (auto simp: fun_eq_iff split: option.splits)
  then show ?thesis by (auto simp: bs_set_fold_case f_def split: if_splits)
qed

lemma bs_set_fold_auto:
  "bs_set (fold (\<lambda>e out. if \<not> bs_contains kinds (ep_kind e) then out else bs_insert (membership_of u e) out) es out) =
     bs_set out \<union> {membership_of u e | e. e \<in> set es \<and> ep_kind e \<in> bs_set kinds}"
  by (induction es arbitrary: out) auto

lemma bs_set_build:
  "bs_set (build_memberships s) =
     bs_set (normalize_memberships s (st_node_user_endpoint_memberships s)) \<union>
     {membership_of u e | u e kinds. bt_get (st_user_auto_assign_endpoint_kinds s) u = Some kinds \<and>
        bt_contains_key (st_users s) u \<and> (\<exists>k. bt_get (st_endpoints s) k = Some e) \<and> ep_kind e \<in> bs_set kinds}"
proof -
  have *: "bs_set (fold (\<lambda>(u, kinds) out.
        if \<not> bt_contains_key (st_users s) u then out
        else fold (\<lambda>e out. if \<not> bs_contains kinds (ep_kind e) then out
             else bs_insert (membership_of u e) out) es out) xs out) =
      bs_set out \<union> {membership_of u e | u e kinds. (u, kinds) \<in> set xs \<and>
        bt_contains_key (st_users s) u \<and> e \<in> set es \<and> ep_kind e \<in> bs_set kinds}" for xs es out
  proof (induction xs arbitrary: out)
    case (Cons x xs)
    obtain u kinds where x: "x = (u, kinds)" by (cases x)
    show ?case
      by (cases "bt_contains_key (st_users s) u")
        (auto simp: x Cons.IH bs_set_fold_auto simp del: bs_contains_iff)
  qed simp
  show ?thesis
    unfolding build_memberships_def Let_def *
    by (auto simp: bt_entries_iff bt_values_iff)
qed

lemma bt_get_normalize_auto:
  "bt_get (normalize_auto_assign s aa) u =
     (case bt_get aa u of
        None \<Rightarrow> None
      | Some kinds \<Rightarrow> if bt_contains_key (st_users s) u \<and> bs_set kinds \<noteq> {} then Some kinds else None)"
proof -
  define P where "P = (\<lambda>(u, kinds :: endpoint_kind btree_set).
    bt_contains_key (st_users s) u \<and> bs_set kinds \<noteq> {})"
  have "fold (\<lambda>(user_id, kinds) out.
        if \<not> bt_contains_key (st_users s) user_id then out
        else if \<not> bt_is_empty kinds then bt_insert user_id kinds out else out) xs out =
      fold (\<lambda>(k, v). bt_insert k v) (filter P xs) out" for xs out
  proof (induction xs arbitrary: out)
    case (Cons x xs)
    then show ?case
      by (cases x; cases "bt_contains_key (st_users s) (fst x)"; cases "bs_set (snd x) = {}") (simp_all add: P_def)
  qed simp
  then have *: "normalize_auto_assign s aa = bt_of_list (filter P (bt_entries aa))"
    by (simp add: normalize_auto_assign_def bt_of_list_def)
  have d: "distinct (map fst (filter P (bt_entries aa)))"
    using bt_entries_distinct [of aa] by (simp add: distinct_map_filter)
  have "bt_get (normalize_auto_assign s aa) u = map_of (filter P (bt_entries aa)) u"
    unfolding * bt_get_of_list using d by (simp add: map_of_rev_distinct)
  also have "\<dots> = (case map_of (bt_entries aa) u of None \<Rightarrow> None | Some v \<Rightarrow> if P (u, v) then Some v else None)"
    by (simp add: map_of_filter_distinct [OF bt_entries_distinct] split: option.split bind_split)
  finally show ?thesis by (simp add: bt_get_def P_def split: option.splits)
qed

lemma normalize_auto_Some:
  "bt_get (normalize_auto_assign s aa) u = Some kinds \<longleftrightarrow>
     bt_get aa u = Some kinds \<and> bt_contains_key (st_users s) u \<and> bs_set kinds \<noteq> {}"
  by (auto simp: bt_get_normalize_auto split: option.splits)

lemma kinds_by_kind:
  "bt_get (fold (\<lambda>e m. bt_entry (ep_kind e) bt_empty (bs_insert (ep_endpoint_id e)) m) es m) k =
     (if \<exists>e \<in> set es. ep_kind e = k
      then Some (fold (\<lambda>e ids. if ep_kind e = k then bs_insert (ep_endpoint_id e) ids else ids) es
                   (bt_get_or bt_empty m k))
      else bt_get m k)"
proof (induction es arbitrary: m)
  case (Cons e es)
  show ?case
  proof (cases "ep_kind e = k")
    case True
    then have "bt_get_or bt_empty (bt_entry (ep_kind e) bt_empty (bs_insert (ep_endpoint_id e)) m) k =
        bs_insert (ep_endpoint_id e) (bt_get_or bt_empty m k)"
      by (simp add: bt_get_or_def)
    moreover have "fold (\<lambda>e ids. if ep_kind e = k then bs_insert (ep_endpoint_id e) ids else ids) es x = x"
      if "\<not> (\<exists>e \<in> set es. ep_kind e = k)" for x :: "string btree_set"
      using that by (induction es) auto
    ultimately show ?thesis using True by (auto simp: Cons.IH bt_get_or_def)
  next
    case False
    then show ?thesis by (auto simp: Cons.IH bt_get_or_def)
  qed
qed simp

lemma ids_of_kind:
  "bs_set (fold (\<lambda>e ids. if ep_kind e = k then bs_insert (ep_endpoint_id e) ids else ids) es ids) =
     bs_set ids \<union> {ep_endpoint_id e | e. e \<in> set es \<and> ep_kind e = k}"
  by (induction es arbitrary: ids) auto

text \<open>
  The kinds inferred for a user: those that occur among the endpoints and all of whose endpoints
  the user has.
\<close>

lemma inferred_kinds:
  "k \<in> bs_set (infer_auto_assign_kinds_for_user s ids) \<longleftrightarrow>
     (\<exists>e \<in> set (bt_values (st_endpoints s)). ep_kind e = k) \<and>
     (\<forall>e \<in> set (bt_values (st_endpoints s)). ep_kind e = k \<longrightarrow> ep_endpoint_id e \<in> bs_set ids)"
proof -
  define es where "es = bt_values (st_endpoints s)"
  define by_kind where "by_kind =
    fold (\<lambda>e m. bt_entry (ep_kind e) bt_empty (bs_insert (ep_endpoint_id e)) m) es bt_empty"
  define of_kind where "of_kind k =
    fold (\<lambda>e ids. if ep_kind e = k then bs_insert (ep_endpoint_id e) ids else ids) es
      (bt_empty :: string btree_set)" for k
  have get: "bt_get by_kind k = (if \<exists>e \<in> set es. ep_kind e = k then Some (of_kind k) else None)"
    by (simp add: by_kind_def kinds_by_kind of_kind_def bt_get_or_def)
  have "k \<in> bs_set (infer_auto_assign_kinds_for_user s ids) \<longleftrightarrow>
      k \<in> fst ` {(kind, v) \<in> set (bt_entries by_kind). bs_set v \<noteq> {} \<and> bs_set v \<subseteq> bs_set ids}"
    unfolding infer_auto_assign_kinds_for_user_def Let_def es_def [symmetric] by_kind_def [symmetric]
    by (simp add: case_prod_unfold)
  also have "\<dots> \<longleftrightarrow> (\<exists>v. bt_get by_kind k = Some v \<and> bs_set v \<noteq> {} \<and> bs_set v \<subseteq> bs_set ids)"
    by (simp add: image_iff split_paired_Ex bt_entries_iff)
  also have "\<dots> \<longleftrightarrow> (\<exists>e \<in> set es. ep_kind e = k) \<and>
      (\<forall>e \<in> set es. ep_kind e = k \<longrightarrow> ep_endpoint_id e \<in> bs_set ids)"
  proof (cases "\<exists>e \<in> set es. ep_kind e = k")
    case True
    then show ?thesis unfolding get of_kind_def by (simp add: ids_of_kind) blast
  next
    case False
    then show ?thesis by (simp add: get)
  qed
  finally show ?thesis by (simp add: es_def)
qed

section \<open>The index as an access relation\<close>

text \<open>
  Endpoints are stored under their own id. The index is \<^emph>\<open>sound\<close> when every membership
  names a user and an endpoint that exist and the node the endpoint is on; it is \<^emph>\<open>complete\<close>
  when the automatic kinds are spelled out. \<open>access s u\<close> is the abstract value: the endpoints
  of a user.
\<close>

definition endpoints_keyed :: "state \<Rightarrow> bool" where
  "endpoints_keyed s = (\<forall>k e. bt_get (st_endpoints s) k = Some e \<longrightarrow> ep_endpoint_id e = k)"

definition index_sound :: "state \<Rightarrow> bool" where
  "index_sound s =
     (\<forall>m \<in> bs_set (st_node_user_endpoint_memberships s).
        bt_contains_key (st_users s) (m_user_id m) \<and>
        (\<exists>e. bt_get (st_endpoints s) (m_endpoint_id m) = Some e \<and> m_node_id m = ep_node_id e))"

definition index_complete :: "state \<Rightarrow> bool" where
  "index_complete s =
     (\<forall>u kinds k e. bt_get (st_user_auto_assign_endpoint_kinds s) u = Some kinds \<longrightarrow>
        bt_get (st_endpoints s) k = Some e \<longrightarrow> ep_kind e \<in> bs_set kinds \<longrightarrow>
        membership_of u e \<in> bs_set (st_node_user_endpoint_memberships s))"

definition auto_assign_ok :: "state \<Rightarrow> bool" where
  "auto_assign_ok s =
     (\<forall>u kinds. bt_get (st_user_auto_assign_endpoint_kinds s) u = Some kinds \<longrightarrow>
        bt_contains_key (st_users s) u \<and> bs_set kinds \<noteq> {})"

definition access_ok :: "state \<Rightarrow> bool" where
  "access_ok s = (index_sound s \<and> index_complete s \<and> auto_assign_ok s)"

definition access :: "state \<Rightarrow> string \<Rightarrow> string set" where
  "access s u = {m_endpoint_id m | m. m \<in> bs_set (st_node_user_endpoint_memberships s) \<and> m_user_id m = u}"

lemma access_image:
  "access s u = m_endpoint_id ` {m \<in> bs_set (st_node_user_endpoint_memberships s). m_user_id m = u}"
  by (auto simp: access_def)

lemma access_auto_update [simp]: "access (s\<lparr>st_user_auto_assign_endpoint_kinds := x\<rparr>) = access s"
  by (simp add: access_def fun_eq_iff)

lemmas endpoints_keyedD = endpoints_keyed_def [THEN iffD1, rule_format]
lemmas index_soundD = index_sound_def [THEN iffD1, rule_format]
lemmas index_completeD = index_complete_def [THEN iffD1, rule_format]
lemmas auto_assign_okD = auto_assign_ok_def [THEN iffD1, rule_format]
lemmas access_ok_defs = access_ok_def index_sound_def index_complete_def auto_assign_ok_def

lemma membership_of_sel [simp]:
  "m_user_id (membership_of u e) = u" "m_node_id (membership_of u e) = ep_node_id e"
  "m_endpoint_id (membership_of u e) = ep_endpoint_id e"
  by (simp_all add: membership_of_def)

lemma membership_eq_iff:
  "m = m' \<longleftrightarrow> m_user_id m = m_user_id m' \<and> m_node_id m = m_node_id m' \<and> m_endpoint_id m = m_endpoint_id m'"
  by (cases m; cases m') auto

text \<open>Synchronisation touches only the two index fields.\<close>

lemma sync_frame:
  "sync_memberships s =
     s\<lparr>st_user_auto_assign_endpoint_kinds := st_user_auto_assign_endpoint_kinds (sync_memberships s),
       st_node_user_endpoint_memberships := st_node_user_endpoint_memberships (sync_memberships s)\<rparr>"
  by (simp add: sync_memberships_def Let_def)

lemma sync_auto:
  "bt_get (st_user_auto_assign_endpoint_kinds (sync_memberships s)) u =
     (case bt_get (st_user_auto_assign_endpoint_kinds s) u of
        None \<Rightarrow> None
      | Some kinds \<Rightarrow> if bt_contains_key (st_users s) u \<and> bs_set kinds \<noteq> {} then Some kinds else None)"
  by (simp add: sync_memberships_def Let_def bt_get_normalize_auto)

lemma sync_index:
  "m \<in> bs_set (st_node_user_endpoint_memberships (sync_memberships s)) \<longleftrightarrow>
     bt_contains_key (st_users s) (m_user_id m) \<and>
     ((\<exists>e. bt_get (st_endpoints s) (m_endpoint_id m) = Some e \<and> m_node_id m = ep_node_id e \<and>
         m_endpoint_id m \<in> access s (m_user_id m)) \<or>
      (\<exists>kinds k e. bt_get (st_user_auto_assign_endpoint_kinds s) (m_user_id m) = Some kinds \<and>
         bt_get (st_endpoints s) k = Some e \<and> ep_kind e \<in> bs_set kinds \<and> m = membership_of (m_user_id m) e))"
    (is "?l \<longleftrightarrow> ?u \<and> (?a \<or> ?b)")
proof -
  define s1 where "s1 = s\<lparr>st_user_auto_assign_endpoint_kinds :=
    normalize_auto_assign s (st_user_auto_assign_endpoint_kinds s)\<rparr>"
  have "?l \<longleftrightarrow> m \<in> bs_set (build_memberships s1)"
    by (simp add: sync_memberships_def Let_def s1_def)
  moreover have "m \<in> bs_set (normalize_memberships s1 (st_node_user_endpoint_memberships s1)) \<longleftrightarrow> ?u \<and> ?a"
    by (auto simp: bs_set_normalize s1_def access_def membership_eq_iff [of m]) metis
  moreover have "(\<exists>u e kinds. m = membership_of u e \<and> bt_get (st_user_auto_assign_endpoint_kinds s1) u = Some kinds \<and>
      bt_contains_key (st_users s1) u \<and> (\<exists>k. bt_get (st_endpoints s1) k = Some e) \<and> ep_kind e \<in> bs_set kinds)
      \<longleftrightarrow> ?u \<and> ?b"
    by (auto simp: s1_def normalize_auto_Some) blast
  ultimately show ?thesis
    unfolding bs_set_build Un_iff mem_Collect_eq by (simp only: conj_disj_distribL)
qed

lemma access_sync:
  assumes "endpoints_keyed s"
  shows "access (sync_memberships s) u =
    (if bt_contains_key (st_users s) u
     then {id \<in> access s u. bt_contains_key (st_endpoints s) id} \<union>
          {id. \<exists>kinds e. bt_get (st_user_auto_assign_endpoint_kinds s) u = Some kinds \<and>
             bt_get (st_endpoints s) id = Some e \<and> ep_kind e \<in> bs_set kinds}
     else {})" (is "_ = ?r")
proof (rule set_eqI)
  fix id
  have "id \<in> access (sync_memberships s) u \<longleftrightarrow>
      (\<exists>n. Membership u n id \<in> bs_set (st_node_user_endpoint_memberships (sync_memberships s)))"
    unfolding access_def by (auto, metis membership.collapse, metis membership.sel(1,3))
  also have "\<dots> \<longleftrightarrow> id \<in> ?r"
    using endpoints_keyedD [OF assms] by (auto simp: sync_index membership_of_def bt_contains_iff) blast
  finally show "id \<in> access (sync_memberships s) u \<longleftrightarrow> id \<in> ?r" .
qed

lemma sync_fields [simp]:
  "st_users (sync_memberships s) = st_users s" "st_endpoints (sync_memberships s) = st_endpoints s"
  "st_nodes (sync_memberships s) = st_nodes s"
  by (simp_all add: sync_memberships_def Let_def)

lemma endpoints_keyed_sync [simp]: "endpoints_keyed (sync_memberships s) = endpoints_keyed s"
  by (simp add: endpoints_keyed_def)

lemma sync_auto_Some:
  "bt_get (st_user_auto_assign_endpoint_kinds (sync_memberships s)) u = Some kinds \<longleftrightarrow>
     bt_get (st_user_auto_assign_endpoint_kinds s) u = Some kinds \<and> bt_contains_key (st_users s) u \<and>
     bs_set kinds \<noteq> {}"
  by (auto simp: sync_auto split: option.splits)

text \<open>One synchronisation establishes the invariant, and does nothing where it holds already.\<close>

lemma sync_access_ok:
  assumes "endpoints_keyed s"
  shows "access_ok (sync_memberships s)"
  using endpoints_keyedD [OF assms]
  by (auto simp: access_ok_defs sync_index sync_auto_Some) (metis membership_of_sel(2,3))

lemma index_determined:
  assumes "index_sound s"
  shows "m \<in> bs_set (st_node_user_endpoint_memberships s) \<longleftrightarrow>
    (\<exists>e. bt_get (st_endpoints s) (m_endpoint_id m) = Some e \<and> m_node_id m = ep_node_id e \<and>
       m_endpoint_id m \<in> access s (m_user_id m))" (is "?l \<longleftrightarrow> ?r")
proof
  assume ?l
  then show ?r using index_soundD [OF assms, of m] by (auto simp: access_def)
next
  assume ?r
  then obtain e m' where e: "bt_get (st_endpoints s) (m_endpoint_id m) = Some e" "m_node_id m = ep_node_id e"
    and m': "m' \<in> bs_set (st_node_user_endpoint_memberships s)" "m_user_id m' = m_user_id m"
      "m_endpoint_id m' = m_endpoint_id m"
    by (auto simp: access_def)
  from index_soundD [OF assms m'(1)] e m' have "m' = m" by (simp add: membership_eq_iff)
  with m' show ?l by simp
qed

lemma sync_id:
  assumes "access_ok s"
  shows "sync_memberships s = s"
proof -
  from assms have parts: "index_sound s" "index_complete s" "auto_assign_ok s"
    by (simp_all add: access_ok_def)
  have auto_id: "st_user_auto_assign_endpoint_kinds (sync_memberships s) = st_user_auto_assign_endpoint_kinds s"
    using parts(3) by (intro bt_eqI) (auto simp: sync_auto auto_assign_ok_def split: option.splits)
  have index_id: "st_node_user_endpoint_memberships (sync_memberships s) = st_node_user_endpoint_memberships s"
  proof (intro bs_eqI set_eqI)
    fix m
    show "m \<in> bs_set (st_node_user_endpoint_memberships (sync_memberships s)) \<longleftrightarrow>
        m \<in> bs_set (st_node_user_endpoint_memberships s)"
      unfolding sync_index index_determined [OF parts(1), symmetric]
      using index_soundD [OF parts(1), of m] index_completeD [OF parts(2), of "m_user_id m"] by metis
  qed
  show ?thesis
    using auto_id index_id by (subst sync_frame) simp
qed

section \<open>Editing access\<close>

lemma check_endpoints_exist_iff:
  "is_ok (check_endpoints_exist s ids) \<longleftrightarrow> (\<forall>id \<in> set ids. bt_contains_key (st_endpoints s) id)"
  by (induction ids) (auto simp: check_endpoints_exist_def)

lemma insert_access_set:
  assumes "\<forall>id \<in> set ids. bt_contains_key (st_endpoints s) id"
  shows "\<exists>ms'. insert_access s u ids ms = Some ms' \<and>
    bs_set ms' = bs_set ms \<union> (\<lambda>id. membership_of u (the (bt_get (st_endpoints s) id))) ` set ids"
  using assms
proof (induction ids arbitrary: ms)
  case (Cons id ids)
  from Cons.prems obtain e where e: "bt_get (st_endpoints s) id = Some e" by (auto simp: bt_contains_iff)
  from Cons.prems have "\<forall>id \<in> set ids. bt_contains_key (st_endpoints s) id" by simp
  from Cons.IH [OF this, of "bs_insert (membership_of u e) ms"] show ?case by (simp add: e)
qed simp

lemma bs_set_user_endpoint_ids [simp]: "bs_set (user_endpoint_ids u s) = access s u"
  by (auto simp: user_endpoint_ids_def access_def)

text \<open>
  What \<^verbatim>\<open>ReplaceUserAccess\<close> does to a state whose index is in order: the access of the
  user becomes the requested set, the access of the others stays, and so does the index invariant.
\<close>

lemma replace_user_access_index:
  assumes ok: "access_ok s" and keyed: "endpoints_keyed s" and user: "bt_contains_key (st_users s) u"
    and ms: "bs_set ms = {m \<in> bs_set (st_node_user_endpoint_memberships s). m_user_id m \<noteq> u} \<union>
      (\<lambda>id. membership_of u (the (bt_get (st_endpoints s) id))) ` ids"
    and ids: "\<forall>id \<in> ids. bt_contains_key (st_endpoints s) id"
    and s1: "s1 = s\<lparr>st_node_user_endpoint_memberships := ms\<rparr>"
    and kinds: "kinds = infer_auto_assign_kinds_for_user s1 (user_endpoint_ids u s1)"
    and s2: "s2 = s1\<lparr>st_user_auto_assign_endpoint_kinds :=
      (if bt_is_empty kinds then bt_remove u (st_user_auto_assign_endpoint_kinds s1)
       else bt_insert u kinds (st_user_auto_assign_endpoint_kinds s1))\<rparr>"
  shows "access s2 = (access s)(u := ids)" "access_ok s2"
proof -
  have acc1: "access s1 = (access s)(u := ids)"
  proof (rule ext, rule set_eqI)
    fix v id
    show "id \<in> access s1 v \<longleftrightarrow> id \<in> ((access s)(u := ids)) v"
    proof (cases "v = u")
      case True
      have "access s1 u = (\<lambda>id. ep_endpoint_id (the (bt_get (st_endpoints s) id))) ` ids"
      proof -
        have "{m \<in> bs_set ms. m_user_id m = u} = (\<lambda>id. membership_of u (the (bt_get (st_endpoints s) id))) ` ids"
          by (auto simp: ms)
        then show ?thesis by (simp add: access_image s1 image_image)
      qed
      also have "\<dots> = ids"
        using ids endpoints_keyedD [OF keyed] by (force simp: bt_contains_iff)
      finally show ?thesis by (simp add: True)
    next
      case False
      then show ?thesis by (auto simp: s1 access_def ms)
    qed
  qed
  then show "access s2 = (access s)(u := ids)" by (simp add: s2)
  have kind: "membership_of u e \<in> bs_set ms"
    if "bt_get (st_endpoints s) k = Some e" "ep_kind e \<in> bs_set kinds" for k e
  proof -
    have "ep_endpoint_id e \<in> access s1 u"
      using that unfolding kinds inferred_kinds bs_set_user_endpoint_ids
      by (simp add: s1) (metis bt_values_iff)
    then have "ep_endpoint_id e \<in> ids" by (simp add: acc1)
    with that endpoints_keyedD [OF keyed that(1)] show ?thesis
      unfolding ms by (intro UnI2 image_eqI [of _ _ k]) simp_all
  qed
  have "index_sound s2"
    unfolding index_sound_def
  proof
    fix m assume "m \<in> bs_set (st_node_user_endpoint_memberships s2)"
    then consider "m \<in> bs_set (st_node_user_endpoint_memberships s)"
      | e id where "m = membership_of u e" "id \<in> ids" "bt_get (st_endpoints s) id = Some e"
      using ids by (force simp: s2 s1 ms bt_contains_iff)
    then show "bt_contains_key (st_users s2) (m_user_id m) \<and>
        (\<exists>e. bt_get (st_endpoints s2) (m_endpoint_id m) = Some e \<and> m_node_id m = ep_node_id e)"
    proof cases
      case 1
      with ok show ?thesis by (simp add: s2 s1 access_ok_def index_sound_def)
    next
      case (2 e id)
      with endpoints_keyedD [OF keyed] user show ?thesis by (simp add: s2 s1)
    qed
  qed
  moreover have "index_complete s2"
    unfolding index_complete_def
  proof (intro allI impI)
    fix v kinds' k e
    assume *: "bt_get (st_user_auto_assign_endpoint_kinds s2) v = Some kinds'"
      "bt_get (st_endpoints s2) k = Some e" "ep_kind e \<in> bs_set kinds'"
    show "membership_of v e \<in> bs_set (st_node_user_endpoint_memberships s2)"
    proof (cases "v = u")
      case True
      with * kind [of k e] show ?thesis by (simp add: s2 s1 split: if_splits)
    next
      case False
      with * have "membership_of v e \<in> bs_set (st_node_user_endpoint_memberships s)"
        using ok by (auto simp: s2 s1 access_ok_def index_complete_def split: if_splits)
      with False show ?thesis by (simp add: s2 s1 ms)
    qed
  qed
  moreover have "auto_assign_ok s2"
    unfolding auto_assign_ok_def
  proof (intro allI impI)
    fix v kinds'
    assume "bt_get (st_user_auto_assign_endpoint_kinds s2) v = Some kinds'"
    moreover have "auto_assign_ok s" using ok by (simp add: access_ok_def)
    ultimately show "bt_contains_key (st_users s2) v \<and> bs_set kinds' \<noteq> {}"
      using user auto_assign_okD [of s v kinds'] by (cases "v = u") (simp_all add: s2 s1 split: if_splits)
  qed
  ultimately show "access_ok s2" by (simp add: access_ok_def)
qed

lemma ensure_membership_access:
  assumes ok: "access_ok s" and keyed: "endpoints_keyed s"
    and user: "bt_contains_key (st_users s) u" and e: "bt_get (st_endpoints s) k = Some e"
  shows "\<exists>s'. apply_ensure_membership u k s = (Inr Applied, s') \<and>
    s' = s\<lparr>st_node_user_endpoint_memberships :=
             bs_insert (membership_of u e) (st_node_user_endpoint_memberships s)\<rparr> \<and>
    access s' = (access s)(u := insert k (access s u)) \<and> access_ok s'"
proof -
  let ?s' = "s\<lparr>st_node_user_endpoint_memberships :=
    bs_insert (membership_of u e) (st_node_user_endpoint_memberships s)\<rparr>"
  have k: "ep_endpoint_id e = k" by (rule endpoints_keyedD [OF keyed e])
  from ok user e k have ok': "access_ok ?s'" by (auto simp: access_ok_defs)
  moreover have "access ?s' v = ((access s)(u := insert k (access s u))) v" for v
  proof -
    have "{m \<in> insert x A. m_user_id m = v} =
        (if m_user_id x = v then insert x {m \<in> A. m_user_id m = v} else {m \<in> A. m_user_id m = v})" for x A
      by auto
    then show ?thesis by (simp add: access_image k)
  qed
  ultimately show ?thesis
    using user e sync_id [OF ok'] by (simp add: apply_ensure_membership_def fun_eq_iff)
qed

lemma replace_user_access_Inl:
  assumes "apply_replace_user_access u ids s = (Inl err, s')"
  shows "s' = s" and "err = Domain (MissingUser u) \<and> \<not> bt_contains_key (st_users s) u \<or>
    (\<exists>id \<in> set ids. err = Domain (MissingEndpoint id) \<and> \<not> bt_contains_key (st_endpoints s) id)"
proof -
  let ?desired = "bs_list (bs_of_list ids)"
  show "s' = s" using assms
    by (auto simp: apply_replace_user_access_def Let_def split: if_splits sum.splits option.splits)
  show "err = Domain (MissingUser u) \<and> \<not> bt_contains_key (st_users s) u \<or>
    (\<exists>id \<in> set ids. err = Domain (MissingEndpoint id) \<and> \<not> bt_contains_key (st_endpoints s) id)"
  proof (cases "check_endpoints_exist s ?desired")
    case (Inl e)
    then have "\<exists>id \<in> set ids. e = Domain (MissingEndpoint id) \<and> \<not> bt_contains_key (st_endpoints s) id"
      by (auto simp: check_endpoints_exist_def dest!: check_each_Inl split: if_splits)
    with Inl assms show ?thesis by (auto simp: apply_replace_user_access_def Let_def split: if_splits)
  next
    case (Inr x)
    then have "\<forall>id \<in> set ?desired. bt_contains_key (st_endpoints s) id"
      using check_endpoints_exist_iff [of s ?desired] by simp
    from insert_access_set [OF this, of u "bs_retain (\<lambda>m. m_user_id m \<noteq> u) (st_node_user_endpoint_memberships s)"]
    obtain ms where "insert_access s u ?desired (bs_retain (\<lambda>m. m_user_id m \<noteq> u) (st_node_user_endpoint_memberships s)) = Some ms"
      by blast
    with assms Inr show ?thesis by (auto simp: apply_replace_user_access_def Let_def split: if_splits)
  qed
qed

lemma replace_user_access_ok:
  assumes "access_ok s" "endpoints_keyed s" and run: "apply_replace_user_access u ids s = (Inr res, s')"
  shows "bt_contains_key (st_users s) u" "\<forall>id \<in> set ids. bt_contains_key (st_endpoints s) id"
    "access s' = (access s)(u := set ids)"
    "res = UserAccessReplaced (card (set ids - access s u)) (card (access s u - set ids))"
    "s' = s\<lparr>st_user_auto_assign_endpoint_kinds := st_user_auto_assign_endpoint_kinds s',
            st_node_user_endpoint_memberships := st_node_user_endpoint_memberships s'\<rparr>"
    "bs_set (bt_get_or bt_empty (st_user_auto_assign_endpoint_kinds s') u) =
       {ep_kind e | e. e \<in> set (bt_values (st_endpoints s)) \<and>
          (\<forall>e' \<in> set (bt_values (st_endpoints s)). ep_kind e' = ep_kind e \<longrightarrow> ep_endpoint_id e' \<in> set ids)}"
    "access_ok s'"
proof -
  let ?desired = "bs_list (bs_of_list ids)"
  from run show user: "bt_contains_key (st_users s) u"
    by (simp add: apply_replace_user_access_def split: if_splits)
  from run user obtain y where checked: "check_endpoints_exist s ?desired = Inr y"
    by (auto simp: apply_replace_user_access_def Let_def split: sum.splits)
  then show exist: "\<forall>id \<in> set ids. bt_contains_key (st_endpoints s) id"
    using check_endpoints_exist_iff [of s ?desired] by simp
  define kept where "kept = bs_retain (\<lambda>m. m_user_id m \<noteq> u) (st_node_user_endpoint_memberships s)"
  from exist have "\<forall>id \<in> set ?desired. bt_contains_key (st_endpoints s) id" by simp
  from insert_access_set [OF this, of u kept] obtain ms where
    ms: "insert_access s u ?desired kept = Some ms"
    and ms_set: "bs_set ms = bs_set kept \<union> (\<lambda>id. membership_of u (the (bt_get (st_endpoints s) id))) ` set ?desired"
    by - (elim exE conjE, rule that, assumption+)
  define s1 where "s1 = s\<lparr>st_node_user_endpoint_memberships := ms\<rparr>"
  define kinds where "kinds = infer_auto_assign_kinds_for_user s1 (user_endpoint_ids u s1)"
  define s2 where "s2 = s1\<lparr>st_user_auto_assign_endpoint_kinds :=
    (if bt_is_empty kinds then bt_remove u (st_user_auto_assign_endpoint_kinds s1)
     else bt_insert u kinds (st_user_auto_assign_endpoint_kinds s1))\<rparr>"
  note index = replace_user_access_index [OF assms(1,2) user _ exist s1_def kinds_def s2_def]
  from ms_set have "bs_set ms = {m \<in> bs_set (st_node_user_endpoint_memberships s). m_user_id m \<noteq> u} \<union>
      (\<lambda>id. membership_of u (the (bt_get (st_endpoints s) id))) ` set ids"
    by (simp add: kept_def)
  note index = index [OF this]
  have "apply_replace_user_access u ids s =
      (Inr (UserAccessReplaced (card (set ids - access s u)) (card (access s u - set ids))), s2)"
    using user checked ms sync_id [OF index(2), unfolded s2_def kinds_def s1_def]
    by (simp add: apply_replace_user_access_def Let_def kept_def length_bs_difference
        s2_def kinds_def s1_def del: bs_is_empty_iff split del: if_split cong: if_cong)
  with run have s': "s' = s2"
    and res: "res = UserAccessReplaced (card (set ids - access s u)) (card (access s u - set ids))" by simp_all
  show "access s' = (access s)(u := set ids)" "access_ok s'" using index by (simp_all add: s')
  show "res = UserAccessReplaced (card (set ids - access s u)) (card (access s u - set ids))" by (rule res)
  show "s' = s\<lparr>st_user_auto_assign_endpoint_kinds := st_user_auto_assign_endpoint_kinds s',
            st_node_user_endpoint_memberships := st_node_user_endpoint_memberships s'\<rparr>"
    by (simp add: s' s2_def s1_def)
  have kinds: "bs_set (bt_get_or bt_empty (st_user_auto_assign_endpoint_kinds s2) u) = bs_set kinds"
    by (auto simp: s2_def bt_get_or_def)
  have "access s1 u = set ids" using index(1) by (simp add: s2_def)
  then show "bs_set (bt_get_or bt_empty (st_user_auto_assign_endpoint_kinds s') u) =
       {ep_kind e | e. e \<in> set (bt_values (st_endpoints s)) \<and>
          (\<forall>e' \<in> set (bt_values (st_endpoints s)). ep_kind e' = ep_kind e \<longrightarrow> ep_endpoint_id e' \<in> set ids)}"
    unfolding s' kinds by (auto simp: kinds_def inferred_kinds s1_def)
qed

text \<open>
  C21: \<^verbatim>\<open>ReplaceUserAccess\<close> on a state whose membership index is in order. It is rejected,
  without a change, exactly when the user or one of the requested endpoints does not exist, and the
  error names it. Otherwise the user's access becomes the requested set and nobody else's changes; the
  counts reported are the grants added and removed; only the index and the automatic kinds of the state
  change; the user is assigned automatically exactly the endpoint kinds whose endpoints they now all
  have; and the index is in order again.
\<close>

theorem replace_user_access_exact:
  assumes "access_ok s" "endpoints_keyed s"
  shows "case apply_replace_user_access u ids s of
      (Inl err, s') \<Rightarrow> s' = s \<and>
        (err = Domain (MissingUser u) \<and> \<not> bt_contains_key (st_users s) u \<or>
         (\<exists>id \<in> set ids. err = Domain (MissingEndpoint id) \<and> \<not> bt_contains_key (st_endpoints s) id))
    | (Inr res, s') \<Rightarrow>
        bt_contains_key (st_users s) u \<and> (\<forall>id \<in> set ids. bt_contains_key (st_endpoints s) id) \<and>
        access s' = (access s)(u := set ids) \<and>
        res = UserAccessReplaced (card (set ids - access s u)) (card (access s u - set ids)) \<and>
        s' = s\<lparr>st_user_auto_assign_endpoint_kinds := st_user_auto_assign_endpoint_kinds s',
                st_node_user_endpoint_memberships := st_node_user_endpoint_memberships s'\<rparr> \<and>
        bs_set (bt_get_or bt_empty (st_user_auto_assign_endpoint_kinds s') u) =
          {ep_kind e | e. e \<in> set (bt_values (st_endpoints s)) \<and>
             (\<forall>e' \<in> set (bt_values (st_endpoints s)). ep_kind e' = ep_kind e \<longrightarrow> ep_endpoint_id e' \<in> set ids)} \<and>
        access_ok s'"
proof (cases "apply_replace_user_access u ids s")
  case (Pair r s')
  show ?thesis
  proof (cases r)
    case (Inl err)
    from replace_user_access_Inl [OF Pair [unfolded Inl]] show ?thesis unfolding Pair Inl by simp
  next
    case (Inr res)
    note run = replace_user_access_ok [OF assms Pair [unfolded Inr]]
    show ?thesis unfolding Pair Inr prod.case sum.case by (intro conjI run)
  qed
qed

text \<open>A state with one user, and two endpoints the user does not have yet.\<close>

definition sample_user :: user where
  "sample_user = \<lparr>u_user_id = ''u1'', u_display_name = ''Ada'', u_subscription_token = ''t1'',
     u_credential_epoch = 0, u_priority_tier = P2, u_quota_reset = UqrMonthly 1 480\<rparr>"

definition sample_endpoint :: "string \<Rightarrow> endpoint" where
  "sample_endpoint k = \<lparr>ep_endpoint_id = k, ep_node_id = ''n1'', ep_tag = k,
     ep_kind = Ss2022_2022Blake3Aes128Gcm, ep_port = 443, ep_meta = JNull\<rparr>"

definition sample_state :: state where
  "sample_state = empty_state\<lparr>
     st_users := bt_insert ''u1'' sample_user bt_empty,
     st_endpoints := bt_insert ''e1'' (sample_endpoint ''e1'') (bt_insert ''e2'' (sample_endpoint ''e2'') bt_empty)\<rparr>"

lemma sample_state_ok: "access_ok sample_state" "endpoints_keyed sample_state"
  by (auto simp: access_ok_defs endpoints_keyed_def sample_state_def empty_state_def sample_endpoint_def split: if_splits)

theorem replace_user_access_exact_witness:
  "access_ok sample_state \<and> endpoints_keyed sample_state \<and>
   (\<exists>s'. apply_replace_user_access ''u1'' [''e2'', ''e2''] sample_state = (Inr (UserAccessReplaced 1 0), s') \<and>
      access s' ''u1'' = {''e2''})"
proof -
  have no_access: "access sample_state u = {}" for u
    by (simp add: access_def sample_state_def empty_state_def)
  have exist: "bt_contains_key (st_users sample_state) ''u1''" "bt_contains_key (st_endpoints sample_state) ''e2''"
    by (simp_all add: sample_state_def)
  show ?thesis
    using replace_user_access_exact [OF sample_state_ok, of "''u1''" "[''e2'', ''e2'']"]
    by (auto simp: sample_state_ok no_access exist split: prod.splits sum.splits)
qed

end
