(* ===== verification/Xp_Endpoints.thy ===== *)
theory Xp_Endpoints
  imports Xp_Access
begin

text \<open>
  Endpoints and the reality domains of \<^verbatim>\<open>state.rs\<close>: the guard of a node removal in
  progress on endpoint changes (\<^verbatim>\<open>membership_operation.rs\<close>), the server names of VLESS endpoints
  (given by hand, or derived from the global domain list), and the commands that change an endpoint or
  the domain list. The theory shows that the metadata of endpoints that follow the global list is kept
  equal to what the list says by every command.
\<close>

section \<open>The guard of a node removal\<close>

definition expect_remove_node_target :: "membership_operation \<Rightarrow> store_error + string" where
  "expect_remove_node_target operation =
     (case remove_node_target operation of
        None \<Rightarrow> Inl (InvalidMembershipOperation ''remove-node operation must include desired node'')
      | Some node_id \<Rightarrow> Inr node_id)"

definition endpoints_on :: "string \<Rightarrow> state \<Rightarrow> endpoint list" where
  "endpoints_on node_id s = filter (\<lambda>e. ep_node_id e = node_id) (bt_values (st_endpoints s))"

definition validate_remove_node_endpoint_snapshot ::
  "state \<Rightarrow> membership_operation \<Rightarrow> store_error + unit" where
  "validate_remove_node_endpoint_snapshot s operation =
     (if mo_kind operation \<noteq> RemoveNode then Inr ()
      else and_then (expect_remove_node_target operation) (\<lambda>node_id.
        let actual_ids = bs_of_list (map ep_endpoint_id (endpoints_on node_id s));
            actual_tags = bs_of_list (map ep_tag (endpoints_on node_id s));
            expected_ids = bs_of_list (mo_expected_endpoint_ids operation);
            expected_tags = bs_of_list (mo_expected_endpoint_tags operation);
            snapshot_matches = (actual_ids = expected_ids \<and> actual_tags = expected_tags)
        in if (\<not> mo_delete_endpoints operation \<and> \<not> bt_is_empty actual_ids) \<or> \<not> snapshot_matches
           then Inl (Domain (NodeEndpointSetChanged node_id)) else Inr ()))"

definition ensure_endpoint_mutation_is_allowed ::
  "state \<Rightarrow> endpoint option \<Rightarrow> endpoint option \<Rightarrow> store_error + unit" where
  "ensure_endpoint_mutation_is_allowed s current nxt =
     (case active_membership_operation s of
        None \<Rightarrow> Inr ()
      | Some operation \<Rightarrow>
          if mo_kind operation \<noteq> RemoveNode then Inr ()
          else and_then (expect_remove_node_target operation) (\<lambda>node_id.
            if (case current of None \<Rightarrow> False | Some e \<Rightarrow> ep_node_id e = node_id) \<or>
               (case nxt of None \<Rightarrow> False | Some e \<Rightarrow> ep_node_id e = node_id)
            then Inl (Domain (NodeLifecycleOperationActive node_id)) else Inr ()))"

section \<open>Server names\<close>

text \<open>The loop of \<^verbatim>\<open>normalize_reality_server_names\<close>: trim, skip blanks, keep the first of each name.\<close>

fun normalize_names_loop :: "string list \<Rightarrow> string btree_set \<Rightarrow> string list \<Rightarrow> string list" where
  "normalize_names_loop [] seen out = out"
| "normalize_names_loop (raw # rest) seen out =
     (let trimmed = trim raw
      in if trimmed = [] then normalize_names_loop rest seen out
         else
           let key = to_ascii_lowercase trimmed
           in if bs_contains seen key then normalize_names_loop rest seen out
              else normalize_names_loop rest (bs_insert key seen) (out @ [trimmed]))"

definition normalize_reality_server_names :: "string list \<Rightarrow> string list" where
  "normalize_reality_server_names input = normalize_names_loop input bt_empty []"

fun derive_names_loop ::
  "reality_domain list \<Rightarrow> string \<Rightarrow> string btree_set \<Rightarrow> string list \<Rightarrow> string list" where
  "derive_names_loop [] node_id seen out = out"
| "derive_names_loop (domain # rest) node_id seen out =
     (if bs_contains (rd_disabled_node_ids domain) node_id then derive_names_loop rest node_id seen out
      else
        let trimmed = trim (rd_server_name domain)
        in if trimmed = [] then derive_names_loop rest node_id seen out
           else
             let key = to_ascii_lowercase trimmed
             in if bs_contains seen key then derive_names_loop rest node_id seen out
                else derive_names_loop rest node_id (bs_insert key seen) (out @ [trimmed]))"

definition derive_global_reality_server_names :: "reality_domain list \<Rightarrow> string \<Rightarrow> string list" where
  "derive_global_reality_server_names domains node_id = derive_names_loop domains node_id bt_empty []"

definition remove_member :: "string \<Rightarrow> json \<Rightarrow> json option" where
  "remove_member k v =
     (case v of JObj kvs \<Rightarrow> Some (JObj (filter (\<lambda>kv. fst kv \<noteq> k) kvs)) | _ \<Rightarrow> None)"

definition serialize_vless_meta_preserving_smux :: "ext \<Rightarrow> vless_meta \<Rightarrow> bool \<Rightarrow> store_error + json" where
  "serialize_vless_meta_preserving_smux x meta had_mihomo_smux =
     (case x_vless_to_value x meta of
        Inl e \<Rightarrow> Inl (SerdeJson e)
      | Inr v \<Rightarrow>
          if had_mihomo_smux then Inr v
          else (case remove_member ''mihomo_smux'' v of
              None \<Rightarrow> Inl (Panic ''serialized VLESS metadata is an object'')
            | Some v' \<Rightarrow> Inr v'))"

definition set_server_names :: "string list \<Rightarrow> vless_meta \<Rightarrow> vless_meta" where
  "set_server_names names meta = meta\<lparr>vm_reality := (vm_reality meta)\<lparr>rc_server_names := names\<rparr>\<rparr>"

text \<open>\<^verbatim>\<open>format!("{}:443", meta.reality.server_names[0].trim())\<close>, where the list is not empty.\<close>

definition set_global_dest :: "vless_meta \<Rightarrow> vless_meta" where
  "set_global_dest meta =
     (if vm_managed_default meta then meta
      else meta\<lparr>vm_reality := (vm_reality meta)\<lparr>rc_dest := trim (rc_server_names (vm_reality meta) ! 0) @ '':443''\<rparr>\<rparr>)"

definition global_vless_meta_update ::
  "ext \<Rightarrow> reality_domain list \<Rightarrow> string \<Rightarrow> endpoint \<Rightarrow> store_error + json option" where
  "global_vless_meta_update x domains endpoint_id e =
     (if ep_kind e \<noteq> VlessRealityVisionTcp then Inr None
      else
        let had_mihomo_smux = (json_field ''mihomo_smux'' (ep_meta e) \<noteq> None)
        in and_then (map_err SerdeJson (x_vless_from_value x (ep_meta e))) (\<lambda>meta.
          if rc_server_names_source (vm_reality meta) \<noteq> SnGlobal then Inr None
          else
            let derived = derive_global_reality_server_names domains (ep_node_id e)
            in if derived = [] then Inl (Domain (RealityDomainsWouldBreakEndpoint endpoint_id (ep_node_id e)))
               else and_then
                 (serialize_vless_meta_preserving_smux x (set_global_dest (set_server_names derived meta)) had_mihomo_smux)
                 (\<lambda>v. Inr (Some v))))"

fun global_updates_loop ::
  "ext \<Rightarrow> reality_domain list \<Rightarrow> (string \<times> endpoint) list \<Rightarrow> (string, json) btree_map
    \<Rightarrow> store_error + (string, json) btree_map" where
  "global_updates_loop x domains [] out = Inr out"
| "global_updates_loop x domains ((endpoint_id, e) # rest) out =
     and_then (global_vless_meta_update x domains endpoint_id e) (\<lambda>u.
       global_updates_loop x domains rest (case u of None \<Rightarrow> out | Some v \<Rightarrow> bt_insert endpoint_id v out))"

definition build_global_vless_meta_updates ::
  "ext \<Rightarrow> (string, endpoint) btree_map \<Rightarrow> reality_domain list \<Rightarrow> store_error + (string, json) btree_map" where
  "build_global_vless_meta_updates x endpoints domains =
     global_updates_loop x domains (bt_entries endpoints) bt_empty"

definition apply_vless_meta_updates ::
  "(string, json) btree_map \<Rightarrow> (string, endpoint) btree_map \<Rightarrow> (string, endpoint) btree_map" where
  "apply_vless_meta_updates updates endpoints =
     fold (\<lambda>(endpoint_id, meta) eps. bt_modify endpoint_id (\<lambda>e. e\<lparr>ep_meta := meta\<rparr>) eps)
       (bt_entries updates) endpoints"

section \<open>Endpoint commands\<close>

definition check_server_names :: "string list \<Rightarrow> store_error + unit" where
  "check_server_names names =
     check_each (\<lambda>name. map_err (\<lambda>reason. Domain (InvalidRealityServerName name reason))
       (validate_reality_server_name name)) names"

definition upsert_server_names ::
  "reality_domain list \<Rightarrow> endpoint \<Rightarrow> vless_meta \<Rightarrow> store_error + string list" where
  "upsert_server_names domains e meta =
     (case rc_server_names_source (vm_reality meta) of
        SnManual \<Rightarrow>
          let normalized = normalize_reality_server_names (rc_server_names (vm_reality meta))
          in if normalized = [] then Inl (Domain (VlessRealityServerNamesEmpty (ep_endpoint_id e)))
             else and_then (check_server_names normalized) (\<lambda>_. Inr normalized)
      | SnGlobal \<Rightarrow>
          let derived = derive_global_reality_server_names domains (ep_node_id e)
          in if derived = [] then Inl (Domain (RealityDomainsWouldBreakEndpoint (ep_endpoint_id e) (ep_node_id e)))
             else and_then (check_server_names derived) (\<lambda>_. Inr derived))"

definition upsert_dest :: "vless_meta \<Rightarrow> store_error + vless_meta" where
  "upsert_dest meta =
     (if rc_server_names_source (vm_reality meta) = SnGlobal then Inr (set_global_dest meta)
      else and_then
        (map_err (\<lambda>reason. Domain (InvalidRealityServerName (rc_dest (vm_reality meta)) reason))
          (validate_reality_dest (rc_dest (vm_reality meta))))
        (\<lambda>_. Inr meta))"

definition upsert_canary :: "ext \<Rightarrow> vless_meta \<Rightarrow> store_error + unit" where
  "upsert_canary x meta =
     (case vm_canary_upstream meta of
        None \<Rightarrow> Inr ()
      | Some upstream \<Rightarrow>
          map_err (\<lambda>reason. Domain (InvalidRealityServerName (cu_url upstream) reason))
            (validate_canary_upstream (x_url_parse x) upstream))"

definition upsert_authorities :: "vless_meta \<Rightarrow> store_error + vless_meta" where
  "upsert_authorities meta =
     and_then
       (map_err (\<lambda>(reason, authority). Domain (InvalidAcceptedAuthority authority reason))
         (normalize_accepted_authorities (vm_accepted_authorities meta)))
       (\<lambda>authorities.
         let meta = meta\<lparr>vm_accepted_authorities := authorities\<rparr>
         in if \<not> vm_managed_default meta \<and> authorities \<noteq> []
            then Inl (Domain (InvalidAcceptedAuthority (authorities ! 0)
              ''accepted_authorities is only supported for managed VLESS endpoints''))
            else Inr meta)"

definition upsert_vless_meta :: "ext \<Rightarrow> reality_domain list \<Rightarrow> endpoint \<Rightarrow> store_error + endpoint" where
  "upsert_vless_meta x domains e =
     (let had_mihomo_smux = (json_field ''mihomo_smux'' (ep_meta e) \<noteq> None)
      in and_then (map_err SerdeJson (x_vless_from_value x (ep_meta e))) (\<lambda>meta.
         and_then (upsert_server_names domains e meta) (\<lambda>server_names.
         and_then (upsert_dest (set_server_names server_names meta)) (\<lambda>meta.
         and_then (upsert_canary x meta) (\<lambda>_.
         and_then (upsert_authorities meta) (\<lambda>meta.
         and_then (serialize_vless_meta_preserving_smux x meta had_mihomo_smux) (\<lambda>v.
           Inr (e\<lparr>ep_meta := v\<rparr>))))))))"

definition apply_upsert_endpoint :: "ext \<Rightarrow> endpoint \<Rightarrow> endpoint option \<Rightarrow> state_handler" where
  "apply_upsert_endpoint x e expected s =
     (let current = bt_get (st_endpoints s) (ep_endpoint_id e)
      in try_in s (ensure_endpoint_mutation_is_allowed s current (Some e)) (\<lambda>_.
         if expected \<noteq> None \<and> bt_get (st_endpoints s) (ep_endpoint_id e) \<noteq> expected
         then (Inl (Domain (EndpointChanged (ep_endpoint_id e))), s)
         else try_in s (map_err Domain (validate_port (ep_port e))) (\<lambda>_.
           try_in s
             (if ep_kind e = VlessRealityVisionTcp then upsert_vless_meta x (st_reality_domains s) e else Inr e)
             (\<lambda>e. (Inr Applied,
               sync_memberships (s\<lparr>st_endpoints := bt_insert (ep_endpoint_id e) e (st_endpoints s)\<rparr>))))))"

definition apply_delete_endpoint :: "string \<Rightarrow> state_handler" where
  "apply_delete_endpoint endpoint_id s =
     (let current = bt_get (st_endpoints s) endpoint_id
      in try_in s (ensure_endpoint_mutation_is_allowed s current None) (\<lambda>_.
         let deleted = bt_contains_key (st_endpoints s) endpoint_id;
             s1 = s\<lparr>st_endpoints := bt_remove endpoint_id (st_endpoints s)\<rparr>;
             s2 = s1\<lparr>st_endpoint_probe_history := bt_remove endpoint_id (st_endpoint_probe_history s1)\<rparr>
         in (Inr (EndpointDeleted deleted), sync_memberships s2)))"

section \<open>Domain commands\<close>

definition check_nodes_exist :: "state \<Rightarrow> string list \<Rightarrow> store_error + unit" where
  "check_nodes_exist s ids =
     check_each (\<lambda>id. if bt_contains_key (st_nodes s) id then Inr () else Inl (Domain (MissingNode id))) ids"

text \<open>The common end of the four commands: derive the updates, then replace the list and apply them.\<close>

definition replace_domains :: "ext \<Rightarrow> reality_domain list \<Rightarrow> state_handler" where
  "replace_domains x next_domains s =
     try_in s (build_global_vless_meta_updates x (st_endpoints s) next_domains) (\<lambda>updates.
       let s1 = s\<lparr>st_reality_domains := next_domains\<rparr>
       in (Inr Applied, s1\<lparr>st_endpoints := apply_vless_meta_updates updates (st_endpoints s1)\<rparr>))"

definition apply_create_reality_domain :: "ext \<Rightarrow> reality_domain \<Rightarrow> state_handler" where
  "apply_create_reality_domain x domain s =
     (let domain = domain\<lparr>rd_server_name := trim (rd_server_name domain)\<rparr>
      in try_in s
           (map_err (\<lambda>reason. Domain (InvalidRealityServerName (rd_server_name domain) reason))
             (validate_reality_server_name (rd_server_name domain))) (\<lambda>_.
         let key = to_ascii_lowercase (rd_server_name domain)
         in if list_ex (\<lambda>d. to_ascii_lowercase (rd_server_name d) = key) (st_reality_domains s)
            then (Inl (Domain (RealityDomainNameConflict (rd_server_name domain))), s)
            else try_in s (check_nodes_exist s (bs_list (rd_disabled_node_ids domain))) (\<lambda>_.
              replace_domains x (st_reality_domains s @ [domain]) s)))"

fun position :: "('a \<Rightarrow> bool) \<Rightarrow> 'a list \<Rightarrow> nat option" where
  "position P [] = None"
| "position P (x # xs) = (if P x then Some 0 else map_option Suc (position P xs))"

definition patch_name ::
  "reality_domain list \<Rightarrow> string option \<Rightarrow> reality_domain \<Rightarrow> store_error + reality_domain" where
  "patch_name next_domains server_name nxt =
     (case server_name of
        None \<Rightarrow> Inr nxt
      | Some server_name \<Rightarrow>
          let trimmed = trim server_name
          in and_then
               (map_err (\<lambda>reason. Domain (InvalidRealityServerName trimmed reason))
                 (validate_reality_server_name trimmed))
               (\<lambda>_.
                 let key = to_ascii_lowercase trimmed
                 in if list_ex (\<lambda>d. rd_domain_id d \<noteq> rd_domain_id nxt \<and>
                        to_ascii_lowercase (rd_server_name d) = key) next_domains
                    then Inl (Domain (RealityDomainNameConflict trimmed))
                    else Inr (nxt\<lparr>rd_server_name := trimmed\<rparr>)))"

definition patch_disabled ::
  "state \<Rightarrow> string btree_set option \<Rightarrow> reality_domain \<Rightarrow> store_error + reality_domain" where
  "patch_disabled s disabled_node_ids nxt =
     (case disabled_node_ids of
        None \<Rightarrow> Inr nxt
      | Some disabled \<Rightarrow>
          and_then (check_nodes_exist s (bs_list disabled)) (\<lambda>_. Inr (nxt\<lparr>rd_disabled_node_ids := disabled\<rparr>)))"

definition apply_patch_reality_domain ::
  "ext \<Rightarrow> string \<Rightarrow> string option \<Rightarrow> string btree_set option \<Rightarrow> state_handler" where
  "apply_patch_reality_domain x domain_id server_name disabled_node_ids s =
     (case position (\<lambda>d. rd_domain_id d = domain_id) (st_reality_domains s) of
        None \<Rightarrow> (Inl (Domain (RealityDomainNotFound domain_id)), s)
      | Some existing_idx \<Rightarrow>
          let next_domains = st_reality_domains s
          in try_in s
               (and_then (patch_name next_domains server_name (next_domains ! existing_idx))
                 (patch_disabled s disabled_node_ids))
               (\<lambda>nxt. replace_domains x (next_domains[existing_idx := nxt]) s))"

definition apply_delete_reality_domain :: "ext \<Rightarrow> string \<Rightarrow> state_handler" where
  "apply_delete_reality_domain x domain_id s =
     (if \<not> list_ex (\<lambda>d. rd_domain_id d = domain_id) (st_reality_domains s)
      then (Inl (Domain (RealityDomainNotFound domain_id)), s)
      else
        let next_domains = filter (\<lambda>d. rd_domain_id d \<noteq> domain_id) (st_reality_domains s)
        in if length next_domains = length (st_reality_domains s)
           then (Inl (Domain (RealityDomainNotFound domain_id)), s)
           else replace_domains x next_domains s)"

fun first_duplicate :: "string list \<Rightarrow> string btree_set \<Rightarrow> string option" where
  "first_duplicate [] seen = None"
| "first_duplicate (domain_id # ids) seen =
     (if bs_contains seen domain_id then Some domain_id else first_duplicate ids (bs_insert domain_id seen))"

fun take_in_order ::
  "string list \<Rightarrow> (string, reality_domain) btree_map \<Rightarrow> reality_domain list
    \<Rightarrow> string + (reality_domain list \<times> (string, reality_domain) btree_map)" where
  "take_in_order [] by_id out = Inr (out, by_id)"
| "take_in_order (domain_id # ids) by_id out =
     (case bt_get by_id domain_id of
        None \<Rightarrow> Inl (''unknown domain_id: '' @ domain_id)
      | Some d \<Rightarrow> take_in_order ids (bt_remove domain_id by_id) (out @ [d]))"

definition reorder_domains :: "string list \<Rightarrow> reality_domain list \<Rightarrow> string + reality_domain list" where
  "reorder_domains domain_ids domains =
     (if length domain_ids \<noteq> length domains
      then Inl (''length mismatch: expected '' @ show_nat (length domains) @ '' got '' @ show_nat (length domain_ids))
      else (case first_duplicate domain_ids bt_empty of
          Some domain_id \<Rightarrow> Inl (''duplicate domain_id: '' @ domain_id)
        | None \<Rightarrow>
            let by_id = fold (\<lambda>d m. bt_insert (rd_domain_id d) d m) domains bt_empty
            in and_then (take_in_order domain_ids by_id []) (\<lambda>(next_domains, by_id).
                 if \<not> bt_is_empty by_id then Inl ''missing some domain_ids in reorder payload''
                 else Inr next_domains)))"

definition apply_reorder_reality_domains :: "ext \<Rightarrow> string list \<Rightarrow> state_handler" where
  "apply_reorder_reality_domains x domain_ids s =
     try_in s
       (map_err (\<lambda>reason. Domain (RealityDomainsReorderInvalid reason))
         (reorder_domains domain_ids (st_reality_domains s)))
       (\<lambda>next_domains. replace_domains x next_domains s)"

section \<open>Normalised names\<close>

lemma normalize_names_loop_append:
  "normalize_names_loop xs seen out = out @ normalize_names_loop xs seen []"
proof (induction xs arbitrary: seen out)
  case (Cons x xs)
  have "normalize_names_loop xs seen' (out @ [y]) = out @ normalize_names_loop xs seen' [y]" for seen' y
    using Cons.IH [of seen' "out @ [y]"] Cons.IH [of seen' "[y]"] by simp
  then show ?case using Cons.IH [of seen out] by (simp add: Let_def)
qed simp

lemma normalize_names_loop_Cons [simp]:
  "normalize_names_loop (raw # rest) seen [] =
     (if trim raw = [] \<or> to_ascii_lowercase (trim raw) \<in> bs_set seen then normalize_names_loop rest seen []
      else trim raw # normalize_names_loop rest (bs_insert (to_ascii_lowercase (trim raw)) seen) [])"
  using normalize_names_loop_append [of rest "bs_insert (to_ascii_lowercase (trim raw)) seen" "[trim raw]"]
  by (simp add: Let_def)

declare normalize_names_loop.simps(2) [simp del]

definition is_name :: "string \<Rightarrow> bool" where
  "is_name n = (n \<noteq> [] \<and> trim n = n)"

lemma normalize_names_loop_names:
  "n \<in> set (normalize_names_loop xs seen []) \<Longrightarrow> is_name n \<and> to_ascii_lowercase n \<notin> bs_set seen"
  by (induction xs arbitrary: seen) (auto simp: is_name_def split: if_splits, fastforce)

lemma normalize_names_loop_distinct:
  "distinct (map to_ascii_lowercase (normalize_names_loop xs seen []))"
  by (induction xs arbitrary: seen) (auto dest!: normalize_names_loop_names)

lemma normalize_names_loop_keys:
  "to_ascii_lowercase ` set (normalize_names_loop xs seen []) =
     {to_ascii_lowercase (trim x) | x. x \<in> set xs \<and> trim x \<noteq> []} - bs_set seen"
proof (induction xs arbitrary: seen)
  case (Cons x xs)
  have "{to_ascii_lowercase (trim y) | y. y \<in> set (x # xs) \<and> trim y \<noteq> []} =
      (if trim x = [] then {} else {to_ascii_lowercase (trim x)}) \<union>
      {to_ascii_lowercase (trim y) | y. y \<in> set xs \<and> trim y \<noteq> []}"
    by auto
  then show ?case by (auto simp: Cons.IH)
qed simp

text \<open>Names that are already in order are kept as they are.\<close>

lemma normalize_names_loop_fixed:
  "list_all is_name xs \<Longrightarrow> distinct (map to_ascii_lowercase xs) \<Longrightarrow>
    bs_set seen \<inter> to_ascii_lowercase ` set xs = {} \<Longrightarrow> normalize_names_loop xs seen [] = xs"
  by (induction xs arbitrary: seen) (auto simp: is_name_def)

lemma derive_names_loop_eq:
  "derive_names_loop ds node_id seen out =
     normalize_names_loop (map rd_server_name (filter (\<lambda>d. node_id \<notin> bs_set (rd_disabled_node_ids d)) ds)) seen out"
  by (induction ds arbitrary: seen out) (simp_all add: Let_def normalize_names_loop.simps)

lemma derive_global_eq:
  "derive_global_reality_server_names ds node_id =
     normalize_reality_server_names
       (map rd_server_name (filter (\<lambda>d. node_id \<notin> bs_set (rd_disabled_node_ids d)) ds))"
  by (simp add: derive_global_reality_server_names_def normalize_reality_server_names_def derive_names_loop_eq)

text \<open>
  C22: \<^verbatim>\<open>normalize_reality_server_names\<close> returns trimmed, non-blank names, no two of them equal up to
  ASCII case; up to case they are exactly the non-blank names of the input; normalising again changes
  nothing; and \<^verbatim>\<open>derive_global_reality_server_names\<close> is the same normalisation of the names of
  the domains that are not disabled on the node.
\<close>

theorem server_names_normalized:
  "(\<forall>n \<in> set (normalize_reality_server_names input). n \<noteq> [] \<and> trim n = n) \<and>
   distinct (map to_ascii_lowercase (normalize_reality_server_names input)) \<and>
   to_ascii_lowercase ` set (normalize_reality_server_names input) =
     {to_ascii_lowercase (trim x) | x. x \<in> set input \<and> trim x \<noteq> []} \<and>
   normalize_reality_server_names (normalize_reality_server_names input) = normalize_reality_server_names input \<and>
   derive_global_reality_server_names domains node_id =
     normalize_reality_server_names
       (map rd_server_name (filter (\<lambda>d. node_id \<notin> bs_set (rd_disabled_node_ids d)) domains))"
proof (intro conjI)
  let ?names = "normalize_reality_server_names input"
  show names: "\<forall>n \<in> set ?names. n \<noteq> [] \<and> trim n = n"
    by (auto simp: normalize_reality_server_names_def is_name_def dest!: normalize_names_loop_names)
  show keys: "distinct (map to_ascii_lowercase ?names)"
    by (simp add: normalize_reality_server_names_def normalize_names_loop_distinct)
  show "to_ascii_lowercase ` set ?names = {to_ascii_lowercase (trim x) | x. x \<in> set input \<and> trim x \<noteq> []}"
    by (simp add: normalize_reality_server_names_def normalize_names_loop_keys)
  from names keys show "normalize_reality_server_names ?names = ?names"
    unfolding normalize_reality_server_names_def [of ?names]
    by (intro normalize_names_loop_fixed) (simp_all add: list_all_iff is_name_def)
qed (rule derive_global_eq)

theorem server_names_normalized_witness:
  "normalize_reality_server_names ['' a.com'', ''A.com'', [], ''b.com''] = [''a.com'', ''b.com''] \<and>
   normalize_reality_server_names [''a.com'', ''b.com''] = [''a.com'', ''b.com'']"
proof -
  have trims: "trim '' a.com'' = ''a.com''" "trim ''A.com'' = ''A.com''" "trim ''b.com'' = ''b.com''" "trim [] = []"
    by code_simp+
  have keys: "to_ascii_lowercase ''a.com'' = ''a.com''" "to_ascii_lowercase ''A.com'' = ''a.com''"
    "to_ascii_lowercase ''b.com'' = ''b.com''"
    by code_simp+
  have "normalize_reality_server_names ['' a.com'', ''A.com'', [], ''b.com''] = [''a.com'', ''b.com'']"
    by (simp add: normalize_reality_server_names_def trims keys)
  with server_names_normalized [of "['' a.com'', ''A.com'', [], ''b.com'']" "[]" "[]",
      THEN conjunct2, THEN conjunct2, THEN conjunct2, THEN conjunct1]
  show ?thesis by metis
qed

section \<open>Endpoints that follow the domain list\<close>

text \<open>
  What the code relies on in \<^verbatim>\<open>serde_json\<close> for the VLESS metadata: serialising gives an object that
  reads back as the same value; so does the object without the field \<^verbatim>\<open>mihomo_smux\<close> when the field
  has its default; and the field has its default when it is absent from what is read
  (\<^verbatim>\<open>#[serde(default)]\<close>).
\<close>

definition vless_serde :: "ext \<Rightarrow> bool" where
  "vless_serde x =
     ((\<forall>m v. x_vless_to_value x m = Inr v \<longrightarrow>
         is_object v \<and> x_vless_from_value x v = Inr m \<and>
         (vm_mihomo_smux m = default_mihomo_smux_config \<longrightarrow>
           (\<forall>v'. remove_member ''mihomo_smux'' v = Some v' \<longrightarrow> x_vless_from_value x v' = Inr m))) \<and>
      (\<forall>v m. x_vless_from_value x v = Inr m \<longrightarrow> json_field ''mihomo_smux'' v = None \<longrightarrow>
         vm_mihomo_smux m = default_mihomo_smux_config))"

lemma vless_serde_serialize:
  assumes "vless_serde x" "serialize_vless_meta_preserving_smux x m had = Inr v"
    "had \<or> vm_mihomo_smux m = default_mihomo_smux_config"
  shows "x_vless_from_value x v = Inr m"
proof -
  from assms(2) obtain v0 where v0: "x_vless_to_value x m = Inr v0"
    by (simp add: serialize_vless_meta_preserving_smux_def split: sum.splits)
  have reads: "x_vless_from_value x v0 = Inr m"
    "vm_mihomo_smux m = default_mihomo_smux_config \<Longrightarrow> remove_member ''mihomo_smux'' v0 = Some v' \<Longrightarrow>
      x_vless_from_value x v' = Inr m" for v'
    using assms(1) v0 unfolding vless_serde_def by blast+
  from assms(2,3) v0 reads show ?thesis
    by (cases had) (simp_all add: serialize_vless_meta_preserving_smux_def split: option.splits)
qed

lemma vless_serde_default:
  "vless_serde x \<Longrightarrow> x_vless_from_value x v = Inr m \<Longrightarrow>
    json_field ''mihomo_smux'' v \<noteq> None \<or> vm_mihomo_smux m = default_mihomo_smux_config"
  unfolding vless_serde_def by blast

text \<open>The metadata that follows a list: \<open>globalized\<close> is what the list makes of it.\<close>

definition is_global :: "vless_meta \<Rightarrow> bool" where
  "is_global m = (rc_server_names_source (vm_reality m) = SnGlobal)"

definition globalized :: "reality_domain list \<Rightarrow> string \<Rightarrow> vless_meta \<Rightarrow> vless_meta" where
  "globalized domains node_id m =
     set_global_dest (set_server_names (derive_global_reality_server_names domains node_id) m)"

definition follows_domains :: "ext \<Rightarrow> reality_domain list \<Rightarrow> endpoint \<Rightarrow> bool" where
  "follows_domains x domains e =
     (ep_kind e = VlessRealityVisionTcp \<longrightarrow>
       (\<exists>m. x_vless_from_value x (ep_meta e) = Inr m \<and>
         (is_global m \<longrightarrow>
           derive_global_reality_server_names domains (ep_node_id e) \<noteq> [] \<and> globalized domains (ep_node_id e) m = m)))"

definition endpoints_follow :: "ext \<Rightarrow> state \<Rightarrow> bool" where
  "endpoints_follow x s =
     (\<forall>k e. bt_get (st_endpoints s) k = Some e \<longrightarrow> follows_domains x (st_reality_domains s) e)"

lemma set_names_dest_sel [simp]:
  "vm_mihomo_smux (set_server_names ns m) = vm_mihomo_smux m"
  "vm_mihomo_smux (set_global_dest m) = vm_mihomo_smux m"
  "rc_server_names_source (vm_reality (set_server_names ns m)) = rc_server_names_source (vm_reality m)"
  "rc_server_names_source (vm_reality (set_global_dest m)) = rc_server_names_source (vm_reality m)"
  "vm_managed_default (set_server_names ns m) = vm_managed_default m"
  "vm_managed_default (set_global_dest m) = vm_managed_default m"
  "rc_server_names (vm_reality (set_server_names ns m)) = ns"
  "rc_server_names (vm_reality (set_global_dest m)) = rc_server_names (vm_reality m)"
  by (simp_all add: set_server_names_def set_global_dest_def)

lemma globalized_sel [simp]:
  "vm_mihomo_smux (globalized ds n m) = vm_mihomo_smux m"
  "is_global (globalized ds n m) = is_global m"
  "rc_server_names (vm_reality (globalized ds n m)) = derive_global_reality_server_names ds n"
  by (simp_all add: globalized_def is_global_def)

lemma globalized_idem [simp]: "globalized ds n (globalized ds n m) = globalized ds n m"
  by (simp add: globalized_def set_global_dest_def set_server_names_def)

text \<open>One step of the update loop.\<close>

lemma global_update_cases:
  assumes "global_vless_meta_update x ds k e = Inr u"
  obtains (other) "ep_kind e \<noteq> VlessRealityVisionTcp" "u = None"
  | (manual) m where "ep_kind e = VlessRealityVisionTcp" "x_vless_from_value x (ep_meta e) = Inr m"
      "\<not> is_global m" "u = None"
  | (global) m v where "ep_kind e = VlessRealityVisionTcp" "x_vless_from_value x (ep_meta e) = Inr m"
      "is_global m" "derive_global_reality_server_names ds (ep_node_id e) \<noteq> []"
      "serialize_vless_meta_preserving_smux x (globalized ds (ep_node_id e) m)
         (json_field ''mihomo_smux'' (ep_meta e) \<noteq> None) = Inr v" "u = Some v"
proof (cases "ep_kind e = VlessRealityVisionTcp")
  case True
  with assms obtain m where m: "x_vless_from_value x (ep_meta e) = Inr m"
    by (auto simp: global_vless_meta_update_def Let_def and_then_Inr_iff)
  show ?thesis
  proof (cases "is_global m")
    case global: True
    from assms True m this show ?thesis
      by (intro that(3) [of m "the u"])
        (auto simp: global_vless_meta_update_def Let_def and_then_Inr_iff is_global_def globalized_def split: if_splits)
  next
    case False
    with assms True m show ?thesis
      by (intro that(2) [of m]) (auto simp: global_vless_meta_update_def Let_def is_global_def)
  qed
qed (use assms in \<open>auto simp: global_vless_meta_update_def intro: that(1)\<close>)

definition with_update :: "json option \<Rightarrow> endpoint \<Rightarrow> endpoint" where
  "with_update u e = (case u of None \<Rightarrow> e | Some v \<Rightarrow> e\<lparr>ep_meta := v\<rparr>)"

lemma with_update_sel [simp]:
  "ep_endpoint_id (with_update u e) = ep_endpoint_id e" "ep_node_id (with_update u e) = ep_node_id e"
  "ep_tag (with_update u e) = ep_tag e" "ep_kind (with_update u e) = ep_kind e"
  "ep_port (with_update u e) = ep_port e"
  by (simp_all add: with_update_def split: option.split)

lemma with_update_parse:
  assumes "vless_serde x" "global_vless_meta_update x ds k e = Inr u"
  shows "with_update u e = e \<and> (ep_kind e = VlessRealityVisionTcp \<longrightarrow>
      (\<exists>m. x_vless_from_value x (ep_meta e) = Inr m \<and> \<not> is_global m)) \<or>
    ep_kind e = VlessRealityVisionTcp \<and> derive_global_reality_server_names ds (ep_node_id e) \<noteq> [] \<and>
      (\<exists>m. x_vless_from_value x (ep_meta e) = Inr m \<and> is_global m \<and>
        x_vless_from_value x (ep_meta (with_update u e)) = Inr (globalized ds (ep_node_id e) m))"
  using assms(2)
proof (cases rule: global_update_cases)
  case (global m v)
  from vless_serde_serialize [OF assms(1) global(5)] vless_serde_default [OF assms(1) global(2)]
  have "x_vless_from_value x v = Inr (globalized ds (ep_node_id e) m)" by auto
  with global show ?thesis by (auto simp: with_update_def)
qed (auto simp: with_update_def)

lemma with_update_follows:
  assumes "vless_serde x" "global_vless_meta_update x ds k e = Inr u"
  shows "follows_domains x ds (with_update u e)"
  using with_update_parse [OF assms] by (auto simp: follows_domains_def)

section \<open>Replacing the domain list\<close>

text \<open>What a change of the list does to an endpoint, as an option: \<open>None\<close> leaves the endpoint alone.\<close>

definition update_of :: "ext \<Rightarrow> reality_domain list \<Rightarrow> string \<Rightarrow> endpoint \<Rightarrow> json option" where
  "update_of x ds k e = (case global_vless_meta_update x ds k e of Inl _ \<Rightarrow> None | Inr u \<Rightarrow> u)"

lemma global_updates_loop_Inr:
  assumes "global_updates_loop x ds kes out = Inr updates"
  shows "(\<forall>(k, e) \<in> set kes. global_vless_meta_update x ds k e = Inr (update_of x ds k e)) \<and>
    updates = fold (\<lambda>(k, e) out. case update_of x ds k e of None \<Rightarrow> out | Some v \<Rightarrow> bt_insert k v out) kes out"
  using assms
proof (induction kes arbitrary: out)
  case (Cons ke kes)
  obtain k e where ke: "ke = (k, e)" by (cases ke)
  show ?case
  proof (cases "global_vless_meta_update x ds k e")
    case (Inr u)
    then have u: "update_of x ds k e = u" by (simp add: update_of_def)
    with Cons.prems Inr have "global_updates_loop x ds kes (case u of None \<Rightarrow> out | Some v \<Rightarrow> bt_insert k v out) = Inr updates"
      by (simp add: ke)
    from Cons.IH [OF this] Inr u show ?thesis by (simp add: ke)
  qed (use Cons.prems in \<open>simp add: ke\<close>)
qed simp

lemma bt_get_fold_insert_option:
  assumes "distinct (map fst kes)"
  shows "bt_get (fold (\<lambda>(k, e) out. case f k e of None \<Rightarrow> out | Some v \<Rightarrow> bt_insert k v out) kes out) k =
    (case map_of kes k of None \<Rightarrow> bt_get out k
     | Some e \<Rightarrow> (case f k e of None \<Rightarrow> bt_get out k | Some v \<Rightarrow> Some v))"
  using assms
proof (induction kes arbitrary: out)
  case (Cons ke kes)
  obtain k' e' where ke: "ke = (k', e')" by (cases ke)
  from Cons.prems have "map_of kes k' = None" by (simp add: ke map_of_eq_None_iff image_iff)
  with Cons show ?case by (cases "k = k'"; cases "f k' e'") (auto simp: ke split: option.splits)
qed simp

lemma global_updates_loop_Inl:
  "global_updates_loop x ds kes out = Inl err \<Longrightarrow>
    \<exists>(k, e) \<in> set kes. global_vless_meta_update x ds k e = Inl err"
proof (induction kes arbitrary: out)
  case (Cons ke kes)
  obtain k e where ke: "ke = (k, e)" by (cases ke)
  show ?case
  proof (cases "global_vless_meta_update x ds k e")
    case (Inl e')
    with Cons.prems show ?thesis by (simp add: ke)
  next
    case (Inr u)
    with Cons show ?thesis by (auto simp: ke)
  qed
qed simp

lemma bt_get_fold_modify:
  assumes "distinct (map fst us)"
  shows "bt_get (fold (\<lambda>(k, v) m. bt_modify k (f v) m) us m) k =
    map_option (\<lambda>e. case map_of us k of None \<Rightarrow> e | Some v \<Rightarrow> f v e) (bt_get m k)"
  using assms
proof (induction us arbitrary: m)
  case Nil
  show ?case by (cases "bt_get m k") simp_all
next
  case (Cons u us)
  obtain k' v' where u: "u = (k', v')" by (cases u)
  from Cons.prems have "map_of us k' = None" by (simp add: u map_of_eq_None_iff image_iff)
  with Cons show ?case
    by (cases "bt_get m k"; cases "k = k'") (auto simp: u)
qed

lemma bt_get_apply_updates:
  "bt_get (apply_vless_meta_updates updates endpoints) k =
     map_option (with_update (bt_get updates k)) (bt_get endpoints k)"
  unfolding apply_vless_meta_updates_def
  by (subst bt_get_fold_modify [OF bt_entries_distinct])
    (simp add: with_update_def [abs_def] bt_get_def)

lemma replace_domains_Inr:
  assumes "replace_domains x ds s = (Inr res, s')"
  shows "res = Applied"
    "s' = s\<lparr>st_reality_domains := ds, st_endpoints := st_endpoints s'\<rparr>"
    "bt_get (st_endpoints s') k = map_option (\<lambda>e. with_update (update_of x ds k e) e) (bt_get (st_endpoints s) k)"
    "bt_get (st_endpoints s) k = Some e \<Longrightarrow> global_vless_meta_update x ds k e = Inr (update_of x ds k e)"
proof -
  from assms obtain updates where
    updates: "global_updates_loop x ds (bt_entries (st_endpoints s)) bt_empty = Inr updates"
    and res: "res = Applied"
    and s': "s' = s\<lparr>st_reality_domains := ds, st_endpoints := apply_vless_meta_updates updates (st_endpoints s)\<rparr>"
    by (auto simp: replace_domains_def try_in_Inr_iff build_global_vless_meta_updates_def Let_def)
  note loop = global_updates_loop_Inr [OF updates]
  have ok: "global_vless_meta_update x ds k e = Inr (update_of x ds k e) \<and> bt_get updates k = update_of x ds k e"
    if e: "bt_get (st_endpoints s) k = Some e" for k e
  proof
    from e have "(k, e) \<in> set (bt_entries (st_endpoints s))" by (simp add: bt_entries_iff)
    with loop show "global_vless_meta_update x ds k e = Inr (update_of x ds k e)" by blast
    have "map_of (bt_entries (st_endpoints s)) k = Some e" using e by (simp add: bt_get_def)
    then show "bt_get updates k = update_of x ds k e"
      unfolding loop [THEN conjunct2] bt_get_fold_insert_option [OF bt_entries_distinct]
      by (simp split: option.splits)
  qed
  show "res = Applied" by (rule res)
  show "s' = s\<lparr>st_reality_domains := ds, st_endpoints := st_endpoints s'\<rparr>" by (simp add: s')
  show "bt_get (st_endpoints s') k = map_option (\<lambda>e. with_update (update_of x ds k e) e) (bt_get (st_endpoints s) k)"
    using ok by (cases "bt_get (st_endpoints s) k") (simp_all add: s' bt_get_apply_updates)
  show "global_vless_meta_update x ds k e = Inr (update_of x ds k e)"
    if "bt_get (st_endpoints s) k = Some e" using ok [OF that] by simp
qed

lemma serialize_Inl:
  assumes "serialize_vless_meta_preserving_smux x m had = Inl err"
  shows "(\<exists>r. x_vless_to_value x m = Inl r \<and> err = SerdeJson r) \<or>
    (\<exists>v r. x_vless_to_value x m = Inr v \<and> \<not> is_object v \<and> err = Panic r)"
  using assms
  by (auto simp: serialize_vless_meta_preserving_smux_def remove_member_def is_object_def
      split: sum.splits if_splits option.splits json.splits)

lemma global_update_Inl:
  assumes "global_vless_meta_update x ds k e = Inl err"
  shows "ep_kind e = VlessRealityVisionTcp"
    "(\<exists>r. x_vless_from_value x (ep_meta e) = Inl r \<and> err = SerdeJson r) \<or>
     (\<exists>m had. serialize_vless_meta_preserving_smux x m had = Inl err) \<or>
     (\<exists>m. x_vless_from_value x (ep_meta e) = Inr m \<and> is_global m) \<and>
       derive_global_reality_server_names ds (ep_node_id e) = [] \<and>
       err = Domain (RealityDomainsWouldBreakEndpoint k (ep_node_id e))" (is ?cases)
proof -
  show kind: "ep_kind e = VlessRealityVisionTcp"
    using assms by (simp add: global_vless_meta_update_def split: if_splits)
  show ?cases
  proof (cases "x_vless_from_value x (ep_meta e)")
    case (Inl r)
    with assms kind show ?thesis by (simp add: global_vless_meta_update_def Let_def)
  next
    case (Inr m)
    have "is_global m"
    proof (rule ccontr)
      assume "\<not> is_global m"
      with assms kind Inr show False by (simp add: global_vless_meta_update_def Let_def is_global_def)
    qed
    show ?thesis
    proof (cases "derive_global_reality_server_names ds (ep_node_id e) = []")
      case True
      with assms kind Inr \<open>is_global m\<close> show ?thesis by (simp add: global_vless_meta_update_def Let_def is_global_def)
    next
      case False
      with assms kind Inr \<open>is_global m\<close> have
        "serialize_vless_meta_preserving_smux x (globalized ds (ep_node_id e) m)
           (json_field ''mihomo_smux'' (ep_meta e) \<noteq> None) = Inl err"
        by (cases "serialize_vless_meta_preserving_smux x (globalized ds (ep_node_id e) m)
              (json_field ''mihomo_smux'' (ep_meta e) \<noteq> None)")
          (simp_all add: global_vless_meta_update_def Let_def is_global_def globalized_def)
      then show ?thesis by blast
    qed
  qed
qed

lemma replace_domains_Inl:
  assumes "replace_domains x ds s = (Inl err, s')"
  shows "s' = s" "\<exists>k e. bt_get (st_endpoints s) k = Some e \<and> global_vless_meta_update x ds k e = Inl err"
proof -
  from assms have "s' = s" and err: "global_updates_loop x ds (bt_entries (st_endpoints s)) bt_empty = Inl err"
    by (auto simp: replace_domains_def try_in_Inl_iff build_global_vless_meta_updates_def Let_def)
  from global_updates_loop_Inl [OF err]
  show "\<exists>k e. bt_get (st_endpoints s) k = Some e \<and> global_vless_meta_update x ds k e = Inl err"
    unfolding bt_entries_iff [symmetric] by blast
  show "s' = s" by fact
qed

lemma replace_domains_follow:
  assumes "vless_serde x" "replace_domains x ds s = (Inr res, s')"
  shows "endpoints_follow x s'"
proof -
  note r = replace_domains_Inr [OF assms(2)]
  have ds: "st_reality_domains s' = ds" by (subst r(2)) simp
  show ?thesis
    unfolding endpoints_follow_def ds
  proof (intro allI impI)
    fix k e assume "bt_get (st_endpoints s') k = Some e"
    then obtain e0 where "bt_get (st_endpoints s) k = Some e0" "e = with_update (update_of x ds k e0) e0"
      unfolding r(3) by (auto simp: map_option_eq_Some)
    with with_update_follows [OF assms(1) r(4)] show "follows_domains x ds e" by simp
  qed
qed

lemma replace_domains_error:
  assumes serde: "vless_serde x" and total: "\<forall>m. is_ok (x_vless_to_value x m)" and reads: "endpoints_follow x s"
    and run: "replace_domains x ds s = (Inl err, s')"
  shows "\<exists>k e m. bt_get (st_endpoints s) k = Some e \<and> ep_kind e = VlessRealityVisionTcp \<and>
    x_vless_from_value x (ep_meta e) = Inr m \<and> is_global m \<and>
    derive_global_reality_server_names ds (ep_node_id e) = [] \<and>
    err = Domain (RealityDomainsWouldBreakEndpoint k (ep_node_id e))"
proof -
  from replace_domains_Inl(2) [OF run] obtain k e where e: "bt_get (st_endpoints s) k = Some e"
    and upd: "global_vless_meta_update x ds k e = Inl err" by blast
  note kind = global_update_Inl(1) [OF upd]
  from reads e kind obtain m where m: "x_vless_from_value x (ep_meta e) = Inr m"
    unfolding endpoints_follow_def follows_domains_def by blast
  have "serialize_vless_meta_preserving_smux x m' had \<noteq> Inl err" for m' had
  proof
    assume "serialize_vless_meta_preserving_smux x m' had = Inl err"
    from serialize_Inl [OF this] show False
    proof (elim disjE exE conjE)
      fix r assume "x_vless_to_value x m' = Inl r"
      with total [rule_format, of m'] show False by simp
    next
      fix v assume "x_vless_to_value x m' = Inr v" "\<not> is_object v"
      with serde show False unfolding vless_serde_def by blast
    qed
  qed
  with global_update_Inl(2) [OF upd] m e kind show ?thesis by auto
qed

lemma replace_domains_endpoint:
  assumes serde: "vless_serde x" and run: "replace_domains x ds s = (Inr res, s')"
    and e: "bt_get (st_endpoints s) k = Some e"
  shows "\<exists>v. bt_get (st_endpoints s') k = Some (e\<lparr>ep_meta := v\<rparr>) \<and>
    (ep_kind e \<noteq> VlessRealityVisionTcp \<longrightarrow> v = ep_meta e) \<and>
    (\<forall>m. ep_kind e = VlessRealityVisionTcp \<longrightarrow> x_vless_from_value x (ep_meta e) = Inr m \<longrightarrow>
      (if is_global m
       then derive_global_reality_server_names ds (ep_node_id e) \<noteq> [] \<and>
         x_vless_from_value x v = Inr (globalized ds (ep_node_id e) m)
       else v = ep_meta e))"
proof -
  note yes = replace_domains_Inr [OF run]
  let ?u = "update_of x ds k e"
  have w: "with_update ?u e = e\<lparr>ep_meta := ep_meta (with_update ?u e)\<rparr>"
    by (simp add: with_update_def split: option.split)
  from yes(3) [of k] e w
  have new: "bt_get (st_endpoints s') k = Some (e\<lparr>ep_meta := ep_meta (with_update ?u e)\<rparr>)" by simp
  from with_update_parse [OF serde yes(4) [OF e]] show ?thesis
  proof (elim disjE conjE exE)
    assume "with_update ?u e = e"
      "ep_kind e = VlessRealityVisionTcp \<longrightarrow> (\<exists>m. x_vless_from_value x (ep_meta e) = Inr m \<and> \<not> is_global m)"
    with new show ?thesis by (intro exI [of _ "ep_meta e"]) auto
  next
    fix m assume "ep_kind e = VlessRealityVisionTcp" "derive_global_reality_server_names ds (ep_node_id e) \<noteq> []"
      "x_vless_from_value x (ep_meta e) = Inr m" "is_global m"
      "x_vless_from_value x (ep_meta (with_update ?u e)) = Inr (globalized ds (ep_node_id e) m)"
    with new show ?thesis by (intro exI [of _ "ep_meta (with_update ?u e)"]) simp
  qed
qed

text \<open>
  C23: a change of the domain list, on a state whose VLESS metadata can be read. It is rejected, without a
  change, only when some endpoint that follows the list would be left without a name, and the error
  is about such an endpoint. Otherwise the list is replaced; every endpoint keeps its id, node, tag,
  kind and port; an endpoint that does not follow the list keeps its metadata too; one that does gets
  the names derived from the new list, at least one, and, unless it is the managed default, the first
  of them as its destination, the rest of its metadata as before; and nothing else in the state changes.
\<close>

theorem reality_domain_change_exact:
  assumes "vless_serde x" "\<forall>m. is_ok (x_vless_to_value x m)" "endpoints_follow x s"
  shows "case replace_domains x ds s of
      (Inl err, s') \<Rightarrow> s' = s \<and>
        (\<exists>k e m. bt_get (st_endpoints s) k = Some e \<and> ep_kind e = VlessRealityVisionTcp \<and>
          x_vless_from_value x (ep_meta e) = Inr m \<and> is_global m \<and>
          derive_global_reality_server_names ds (ep_node_id e) = [] \<and>
          err = Domain (RealityDomainsWouldBreakEndpoint k (ep_node_id e)))
    | (Inr res, s') \<Rightarrow>
        res = Applied \<and>
        s' = s\<lparr>st_reality_domains := ds, st_endpoints := st_endpoints s'\<rparr> \<and>
        (\<forall>k. bt_get (st_endpoints s) k = None \<longrightarrow> bt_get (st_endpoints s') k = None) \<and>
        (\<forall>k e. bt_get (st_endpoints s) k = Some e \<longrightarrow>
          (\<exists>v. bt_get (st_endpoints s') k = Some (e\<lparr>ep_meta := v\<rparr>) \<and>
            (ep_kind e \<noteq> VlessRealityVisionTcp \<longrightarrow> v = ep_meta e) \<and>
            (\<forall>m. ep_kind e = VlessRealityVisionTcp \<longrightarrow> x_vless_from_value x (ep_meta e) = Inr m \<longrightarrow>
              (if is_global m
               then derive_global_reality_server_names ds (ep_node_id e) \<noteq> [] \<and>
                 x_vless_from_value x v = Inr (globalized ds (ep_node_id e) m)
               else v = ep_meta e))))"
proof (cases "replace_domains x ds s")
  case (Pair r s')
  show ?thesis
  proof (cases r)
    case (Inl err)
    note run = Pair [unfolded Inl]
    show ?thesis
      unfolding run prod.case sum.case
      using replace_domains_Inl(1) [OF run] replace_domains_error [OF assms run] by blast
  next
    case (Inr res)
    note run = Pair [unfolded Inr]
    note yes = replace_domains_Inr [OF run]
    show ?thesis
      unfolding run prod.case sum.case
      by (intro conjI yes(1,2) allI impI replace_domains_endpoint [OF assms(1) run]) (simp add: yes(3))
  qed
qed

section \<open>What the commands keep\<close>

text \<open>The access index reads only id, node and kind of an endpoint.\<close>

definition same_identity :: "(string, endpoint) btree_map \<Rightarrow> (string, endpoint) btree_map \<Rightarrow> bool" where
  "same_identity m m' =
     (\<forall>k. rel_option (\<lambda>e e'. ep_endpoint_id e = ep_endpoint_id e' \<and> ep_node_id e = ep_node_id e' \<and>
        ep_kind e = ep_kind e' \<and> ep_tag e = ep_tag e' \<and> ep_port e = ep_port e') (bt_get m k) (bt_get m' k))"

lemma same_identityD:
  assumes "same_identity m m'"
  shows "bt_get m' k = Some e' \<Longrightarrow> \<exists>e. bt_get m k = Some e \<and> ep_endpoint_id e = ep_endpoint_id e' \<and>
      ep_node_id e = ep_node_id e' \<and> ep_kind e = ep_kind e' \<and> ep_tag e = ep_tag e' \<and> ep_port e = ep_port e'"
    and "bt_get m k = Some e \<Longrightarrow> \<exists>e'. bt_get m' k = Some e' \<and> ep_endpoint_id e = ep_endpoint_id e' \<and>
      ep_node_id e = ep_node_id e' \<and> ep_kind e = ep_kind e' \<and> ep_tag e = ep_tag e' \<and> ep_port e = ep_port e'"
    and "bt_contains_key m' k = bt_contains_key m k"
  using assms [unfolded same_identity_def, rule_format, of k]
  by (auto simp: option_rel_Some1 option_rel_Some2 bt_contains_iff elim: option.rel_cases)

lemma endpoints_keyed_same:
  "same_identity (st_endpoints s) eps \<Longrightarrow> endpoints_keyed s \<Longrightarrow> endpoints_keyed (s\<lparr>st_endpoints := eps\<rparr>)"
  unfolding endpoints_keyed_def by (fastforce dest: same_identityD(1))

lemma access_ok_same:
  assumes "same_identity (st_endpoints s) eps" "access_ok s"
  shows "access_ok (s\<lparr>st_endpoints := eps\<rparr>)"
proof -
  have "index_sound (s\<lparr>st_endpoints := eps\<rparr>)"
    using assms(2) unfolding index_sound_def access_ok_def by (fastforce dest: same_identityD(2) [OF assms(1)])
  moreover have "index_complete (s\<lparr>st_endpoints := eps\<rparr>)"
    unfolding index_complete_def
  proof (intro allI impI)
    fix u kinds k e'
    assume a: "bt_get (st_user_auto_assign_endpoint_kinds (s\<lparr>st_endpoints := eps\<rparr>)) u = Some kinds"
      "bt_get (st_endpoints (s\<lparr>st_endpoints := eps\<rparr>)) k = Some e'" "ep_kind e' \<in> bs_set kinds"
    from same_identityD(1) [OF assms(1)] a(2) obtain e where e: "bt_get (st_endpoints s) k = Some e"
      "ep_endpoint_id e = ep_endpoint_id e'" "ep_node_id e = ep_node_id e'" "ep_kind e = ep_kind e'"
      by fastforce
    have "membership_of u e \<in> bs_set (st_node_user_endpoint_memberships s)"
      using assms(2) a e by (simp add: access_ok_def index_complete_def)
    then show "membership_of u e' \<in> bs_set (st_node_user_endpoint_memberships (s\<lparr>st_endpoints := eps\<rparr>))"
      using e by (simp add: membership_of_def)
  qed
  ultimately show ?thesis using assms(2) by (simp add: access_ok_def auto_assign_ok_def)
qed

lemma replace_domains_same:
  assumes "replace_domains x ds s = (Inr res, s')"
  shows "same_identity (st_endpoints s) (st_endpoints s')"
  unfolding same_identity_def
proof
  fix k
  show "rel_option (\<lambda>e e'. ep_endpoint_id e = ep_endpoint_id e' \<and> ep_node_id e = ep_node_id e' \<and>
        ep_kind e = ep_kind e' \<and> ep_tag e = ep_tag e' \<and> ep_port e = ep_port e')
      (bt_get (st_endpoints s) k) (bt_get (st_endpoints s') k)"
    by (cases "bt_get (st_endpoints s) k") (simp_all add: replace_domains_Inr(3) [OF assms])
qed

lemma upsert_vless_meta_Inr:
  assumes "upsert_vless_meta x ds e = Inr e'"
  shows "e' = e\<lparr>ep_meta := ep_meta e'\<rparr>"
    and "vless_serde x \<Longrightarrow> ep_kind e = VlessRealityVisionTcp \<Longrightarrow> follows_domains x ds e'"
proof -
  from assms obtain m names m1 m2 v where
    m: "x_vless_from_value x (ep_meta e) = Inr m" and names: "upsert_server_names ds e m = Inr names"
    and m1: "upsert_dest (set_server_names names m) = Inr m1" and m2: "upsert_authorities m1 = Inr m2"
    and v: "serialize_vless_meta_preserving_smux x m2 (json_field ''mihomo_smux'' (ep_meta e) \<noteq> None) = Inr v"
    and e': "e' = e\<lparr>ep_meta := v\<rparr>"
    by (auto simp: upsert_vless_meta_def Let_def and_then_Inr_iff)
  show "e' = e\<lparr>ep_meta := ep_meta e'\<rparr>" by (simp add: e')
  assume serde: "vless_serde x" and kind: "ep_kind e = VlessRealityVisionTcp"
  obtain auths where auths: "m2 = m1\<lparr>vm_accepted_authorities := auths\<rparr>"
    using m2 by (auto simp: upsert_authorities_def and_then_Inr_iff Let_def split: if_splits)
  have m1': "m1 = (if is_global m then set_global_dest (set_server_names names m) else set_server_names names m)"
    using m1 by (auto simp: upsert_dest_def is_global_def and_then_Inr_iff split: if_splits)
  from m1' auths have "vm_mihomo_smux m2 = vm_mihomo_smux m" by simp
  with vless_serde_serialize [OF serde v] vless_serde_default [OF serde m]
  have reads: "x_vless_from_value x v = Inr m2" by auto
  have "is_global m2 = is_global m" by (simp add: auths m1' is_global_def)
  moreover have "derive_global_reality_server_names ds (ep_node_id e) = names \<and> names \<noteq> []" if "is_global m"
    using that names by (auto simp: upsert_server_names_def is_global_def Let_def and_then_Inr_iff split: if_splits)
  moreover have "globalized ds (ep_node_id e) m2 = m2" if "is_global m" "derive_global_reality_server_names ds (ep_node_id e) = names"
    using that by (simp add: globalized_def auths m1' set_global_dest_def set_server_names_def)
  ultimately show "follows_domains x ds e'"
    using reads by (auto simp: follows_domains_def e')
qed

lemma upsert_endpoint_Inr:
  assumes "apply_upsert_endpoint x e expected s = (Inr res, s')"
  obtains e' where "res = Applied" "ensure_endpoint_mutation_is_allowed s (bt_get (st_endpoints s) (ep_endpoint_id e)) (Some e) = Inr ()"
    "expected = None \<or> bt_get (st_endpoints s) (ep_endpoint_id e) = expected" "ep_port e \<noteq> 0"
    "e' = e\<lparr>ep_meta := ep_meta e'\<rparr>"
    "ep_kind e = VlessRealityVisionTcp \<Longrightarrow> upsert_vless_meta x (st_reality_domains s) e = Inr e'"
    "ep_kind e \<noteq> VlessRealityVisionTcp \<Longrightarrow> e' = e"
    "s' = sync_memberships (s\<lparr>st_endpoints := bt_insert (ep_endpoint_id e) e' (st_endpoints s)\<rparr>)"
proof -
  from assms have allowed: "ensure_endpoint_mutation_is_allowed s (bt_get (st_endpoints s) (ep_endpoint_id e)) (Some e) = Inr ()"
    and rest: "(if expected \<noteq> None \<and> bt_get (st_endpoints s) (ep_endpoint_id e) \<noteq> expected
         then (Inl (Domain (EndpointChanged (ep_endpoint_id e))), s)
         else try_in s (map_err Domain (validate_port (ep_port e))) (\<lambda>_.
           try_in s
             (if ep_kind e = VlessRealityVisionTcp then upsert_vless_meta x (st_reality_domains s) e else Inr e)
             (\<lambda>e. (Inr Applied,
               sync_memberships (s\<lparr>st_endpoints := bt_insert (ep_endpoint_id e) e (st_endpoints s)\<rparr>))))) = (Inr res, s')"
    by (auto simp: apply_upsert_endpoint_def Let_def try_in_Inr_iff)
  from rest obtain e' where exp: "expected = None \<or> bt_get (st_endpoints s) (ep_endpoint_id e) = expected"
    and port: "ep_port e \<noteq> 0" and res: "res = Applied"
    and e': "(if ep_kind e = VlessRealityVisionTcp then upsert_vless_meta x (st_reality_domains s) e else Inr e) = Inr e'"
    and s': "s' = sync_memberships (s\<lparr>st_endpoints := bt_insert (ep_endpoint_id e') e' (st_endpoints s)\<rparr>)"
    by (auto simp: try_in_Inr_iff validate_port_def split: if_splits)
  have w: "e' = e\<lparr>ep_meta := ep_meta e'\<rparr>"
    using e' upsert_vless_meta_Inr(1) by (cases "ep_kind e = VlessRealityVisionTcp") auto
  then have "ep_endpoint_id e' = ep_endpoint_id e" by (metis endpoint.ext_inject endpoint.surjective endpoint.update_convs(6))
  with s' allowed exp port res e' w show ?thesis by (intro that [of e']) auto
qed

section \<open>The domain list\<close>

text \<open>
  A well-formed domain list: ids are distinct, server names are valid, trimmed and distinct up to ASCII
  case, and domains are disabled on nodes that exist only.
\<close>

definition domains_ok :: "state \<Rightarrow> bool" where
  "domains_ok s =
     (distinct (map rd_domain_id (st_reality_domains s)) \<and>
      distinct (map (\<lambda>d. to_ascii_lowercase (rd_server_name d)) (st_reality_domains s)) \<and>
      (\<forall>d \<in> set (st_reality_domains s).
        is_ok (validate_reality_server_name (rd_server_name d)) \<and> trim (rd_server_name d) = rd_server_name d \<and>
        (\<forall>n \<in> bs_set (rd_disabled_node_ids d). bt_contains_key (st_nodes s) n)))"

lemma position_Some:
  "position P xs = Some i \<Longrightarrow> i < length xs \<and> P (xs ! i)"
  by (induction xs arbitrary: i) (auto split: if_splits)

lemma position_None: "position P xs = None \<longleftrightarrow> (\<forall>x \<in> set xs. \<not> P x)"
  by (induction xs) auto

lemma check_nodes_exist_iff:
  "check_nodes_exist s ids = Inr () \<longleftrightarrow> (\<forall>n \<in> set ids. bt_contains_key (st_nodes s) n)"
  unfolding check_nodes_exist_def check_each_ok_iff by auto

lemma distinct_map_update:
  assumes "distinct (map f xs)" "i < length xs" "\<And>j. j < length xs \<Longrightarrow> j \<noteq> i \<Longrightarrow> f (xs ! j) \<noteq> f y"
  shows "distinct (map f (xs[i := y]))"
proof -
  have "f y \<notin> set (map f xs) - {map f xs ! i}"
    using assms(3) by (auto simp: in_set_conv_nth)  (metis assms(2) nth_map)
  then show ?thesis using assms(1) by (simp add: map_update distinct_list_update)
qed

lemma replace_domains_ok:
  assumes "replace_domains x ds s = (Inr res, s')"
    "distinct (map rd_domain_id ds)" "distinct (map (\<lambda>d. to_ascii_lowercase (rd_server_name d)) ds)"
    "\<forall>d \<in> set ds. is_ok (validate_reality_server_name (rd_server_name d)) \<and> trim (rd_server_name d) = rd_server_name d \<and>
      (\<forall>n \<in> bs_set (rd_disabled_node_ids d). bt_contains_key (st_nodes s) n)"
  shows "domains_ok s'"
proof -
  have "st_reality_domains s' = ds" "st_nodes s' = st_nodes s"
    by (subst replace_domains_Inr(2) [OF assms(1)], simp)+
  with assms(2-4) show ?thesis by (simp add: domains_ok_def)
qed

lemma create_domain_ok:
  assumes ok: "domains_ok s" and fresh: "rd_domain_id d \<notin> set (map rd_domain_id (st_reality_domains s))"
    and run: "apply_create_reality_domain x d s = (Inr res, s')"
  shows "domains_ok s'"
proof -
  let ?d = "d\<lparr>rd_server_name := trim (rd_server_name d)\<rparr>"
  from run have valid: "is_ok (validate_reality_server_name (trim (rd_server_name d)))"
    and new: "\<forall>d' \<in> set (st_reality_domains s). to_ascii_lowercase (rd_server_name d') \<noteq> to_ascii_lowercase (trim (rd_server_name d))"
    and nodes: "\<forall>n \<in> bs_set (rd_disabled_node_ids d). bt_contains_key (st_nodes s) n"
    and rep: "replace_domains x (st_reality_domains s @ [?d]) s = (Inr res, s')"
    by (auto simp: apply_create_reality_domain_def Let_def try_in_Inr_iff list_ex_iff check_nodes_exist_iff is_ok_iff
        split: if_splits)
  from rep show ?thesis
    by (rule replace_domains_ok) (use ok fresh valid new nodes in \<open>auto simp: domains_ok_def\<close>)
qed

lemma delete_domain_ok:
  assumes ok: "domains_ok s" and run: "apply_delete_reality_domain x k s = (Inr res, s')"
  shows "domains_ok s'"
proof -
  from run have "replace_domains x (filter (\<lambda>d. rd_domain_id d \<noteq> k) (st_reality_domains s)) s = (Inr res, s')"
    by (auto simp: apply_delete_reality_domain_def Let_def split: if_splits)
  then show ?thesis
    by (rule replace_domains_ok) (use ok in \<open>auto simp: domains_ok_def distinct_map_filter\<close>)
qed

lemma patch_name_Inr:
  assumes "patch_name ds name nxt = Inr nxt'"
  shows "rd_domain_id nxt' = rd_domain_id nxt" "rd_disabled_node_ids nxt' = rd_disabled_node_ids nxt"
    "nxt' = nxt \<or> is_ok (validate_reality_server_name (rd_server_name nxt')) \<and>
      trim (rd_server_name nxt') = rd_server_name nxt' \<and>
      (\<forall>d \<in> set ds. rd_domain_id d \<noteq> rd_domain_id nxt \<longrightarrow>
        to_ascii_lowercase (rd_server_name d) \<noteq> to_ascii_lowercase (rd_server_name nxt'))"
  using assms
  by (auto simp: patch_name_def Let_def and_then_Inr_iff list_ex_iff is_ok_iff split: option.splits if_splits)

lemma patch_disabled_Inr:
  assumes "patch_disabled s disabled nxt = Inr nxt'"
  shows "rd_domain_id nxt' = rd_domain_id nxt" "rd_server_name nxt' = rd_server_name nxt"
    "nxt' = nxt \<or> (\<forall>n \<in> bs_set (rd_disabled_node_ids nxt'). bt_contains_key (st_nodes s) n)"
  using assms
  by (auto simp: patch_disabled_def and_then_Inr_iff check_nodes_exist_iff split: option.splits)

lemma patch_domain_ok:
  assumes ok: "domains_ok s" and run: "apply_patch_reality_domain x k name disabled s = (Inr res, s')"
  shows "domains_ok s'"
proof -
  let ?ds = "st_reality_domains s"
  from run obtain i nxt1 nxt where i: "position (\<lambda>d. rd_domain_id d = k) ?ds = Some i"
    and nxt1: "patch_name ?ds name (?ds ! i) = Inr nxt1" and nxt: "patch_disabled s disabled nxt1 = Inr nxt"
    and rep: "replace_domains x (?ds[i := nxt]) s = (Inr res, s')"
    by (auto simp: apply_patch_reality_domain_def Let_def try_in_Inr_iff and_then_Inr_iff split: option.splits)
  note len = position_Some [OF i, THEN conjunct1]
  note n1 = patch_name_Inr [OF nxt1] and n2 = patch_disabled_Inr [OF nxt]
  from ok have ids: "distinct (map rd_domain_id ?ds)"
    and names: "distinct (map (\<lambda>d. to_ascii_lowercase (rd_server_name d)) ?ds)"
    and each: "\<forall>d \<in> set ?ds. is_ok (validate_reality_server_name (rd_server_name d)) \<and>
      trim (rd_server_name d) = rd_server_name d \<and> (\<forall>n \<in> bs_set (rd_disabled_node_ids d). bt_contains_key (st_nodes s) n)"
    by (simp_all add: domains_ok_def)
  have id: "rd_domain_id nxt = rd_domain_id (?ds ! i)" using n1(1) n2(1) by simp
  have other: "rd_domain_id (?ds ! j) \<noteq> rd_domain_id (?ds ! i) \<and>
      to_ascii_lowercase (rd_server_name (?ds ! j)) \<noteq> to_ascii_lowercase (rd_server_name nxt)"
    if "j < length ?ds" "j \<noteq> i" for j
  proof -
    from ids len that have "rd_domain_id (?ds ! j) \<noteq> rd_domain_id (?ds ! i)"
      by (metis length_map nth_eq_iff_index_eq nth_map)
    moreover from names len that have
      "to_ascii_lowercase (rd_server_name (?ds ! j)) \<noteq> to_ascii_lowercase (rd_server_name (?ds ! i))"
      using nth_eq_iff_index_eq [OF names, of j i] by simp
    ultimately show ?thesis using n1(3) n2(2) that(1) by (metis nth_mem)
  qed
  from rep show ?thesis
  proof (rule replace_domains_ok)
    show "distinct (map rd_domain_id (?ds[i := nxt]))"
      using other id by (intro distinct_map_update ids len) metis
    show "distinct (map (\<lambda>d. to_ascii_lowercase (rd_server_name d)) (?ds[i := nxt]))"
      using other by (intro distinct_map_update names len) metis
    have "is_ok (validate_reality_server_name (rd_server_name nxt)) \<and> trim (rd_server_name nxt) = rd_server_name nxt \<and>
        (\<forall>n \<in> bs_set (rd_disabled_node_ids nxt). bt_contains_key (st_nodes s) n)"
      using each n1 n2 len by (metis nth_mem)
    with each show "\<forall>d \<in> set (?ds[i := nxt]). is_ok (validate_reality_server_name (rd_server_name d)) \<and>
        trim (rd_server_name d) = rd_server_name d \<and> (\<forall>n \<in> bs_set (rd_disabled_node_ids d). bt_contains_key (st_nodes s) n)"
      using set_update_subset_insert [of ?ds i nxt] by blast
  qed
qed

section \<open>Reordering\<close>

lemma first_duplicate_None:
  "first_duplicate ids seen = None \<longleftrightarrow> distinct ids \<and> set ids \<inter> bs_set seen = {}"
  by (induction ids arbitrary: seen) auto

lemma take_in_order_Inr:
  "distinct ids \<Longrightarrow> take_in_order ids m out = Inr (out', m') \<longleftrightarrow>
     (\<forall>k \<in> set ids. bt_contains_key m k) \<and> out' = out @ map (\<lambda>k. the (bt_get m k)) ids \<and>
     m' = bt_retain (\<lambda>k _. k \<notin> set ids) m"
proof (induction ids arbitrary: m out)
  case Nil
  show ?case by (auto simp: bt_retain_all)
next
  case (Cons k ids)
  show ?case
  proof (cases "bt_get m k")
    case None
    then show ?thesis by (simp add: bt_contains_iff)
  next
    case (Some d)
    have "map (\<lambda>k'. the (bt_get (bt_remove k m) k')) ids = map (\<lambda>k'. the (bt_get m k')) ids"
      using Cons.prems by (intro map_cong) auto
    moreover have "bt_retain (\<lambda>k' _. k' \<notin> set ids) (bt_remove k m) = bt_retain (\<lambda>k' _. k' \<notin> set (k # ids)) m"
      by (intro bt_eqI) (auto simp: bt_get_retain split: option.splits)
    moreover have "(\<forall>k' \<in> set ids. bt_contains_key (bt_remove k m) k') \<longleftrightarrow> (\<forall>k' \<in> set ids. bt_contains_key m k')"
      using Cons.prems by auto
    ultimately show ?thesis
      using Cons.IH [of "bt_remove k m" "out @ [d]"] Cons.prems Some by auto
  qed
qed

lemma domains_by_id:
  "bt_contains_key (fold (\<lambda>d m. bt_insert (rd_domain_id d) d m) ds m) k \<longleftrightarrow>
     bt_contains_key m k \<or> k \<in> rd_domain_id ` set ds"
  "distinct (map rd_domain_id ds) \<Longrightarrow> d \<in> set ds \<Longrightarrow>
     bt_get (fold (\<lambda>d m. bt_insert (rd_domain_id d) d m) ds m) (rd_domain_id d) = Some d"
proof -
  show "bt_contains_key (fold (\<lambda>d m. bt_insert (rd_domain_id d) d m) ds m) k \<longleftrightarrow>
     bt_contains_key m k \<or> k \<in> rd_domain_id ` set ds"
    by (induction ds arbitrary: m) auto
  have keep: "bt_get (fold (\<lambda>d m. bt_insert (rd_domain_id d) d m) ds m) k = bt_get m k"
    if "k \<notin> rd_domain_id ` set ds" for ds m k
    using that by (induction ds arbitrary: m) auto
  show "bt_get (fold (\<lambda>d m. bt_insert (rd_domain_id d) d m) ds m) (rd_domain_id d) = Some d"
    if "distinct (map rd_domain_id ds)" "d \<in> set ds"
    using that by (induction ds arbitrary: m) (auto simp: keep)
qed

text \<open>
  An accepted reorder names every domain id once, whatever the list is: the ids sent are distinct, they are
  as many as the domains, and each belongs to a domain, so the ids of the list are distinct too.
\<close>

lemma reorder_domains_Inr:
  "reorder_domains ids ds = Inr ds' \<longleftrightarrow>
     distinct ids \<and> set ids = rd_domain_id ` set ds \<and> distinct (map rd_domain_id ds) \<and>
     ds' = map (\<lambda>k. the (bt_get (fold (\<lambda>d m. bt_insert (rd_domain_id d) d m) ds bt_empty) k)) ids"
proof -
  define by_id where "by_id = fold (\<lambda>d m. bt_insert (rd_domain_id d) d m) ds bt_empty"
  have keys: "bt_contains_key by_id k \<longleftrightarrow> k \<in> rd_domain_id ` set ds" for k
    by (simp add: by_id_def domains_by_id)
  have rest: "bt_is_empty (bt_retain (\<lambda>k _. k \<notin> set ids) by_id) \<longleftrightarrow> rd_domain_id ` set ds \<subseteq> set ids"
  proof -
    have "bt_is_empty (bt_retain (\<lambda>k _. k \<notin> set ids) by_id) \<longleftrightarrow> (\<forall>k. bt_contains_key by_id k \<longrightarrow> k \<in> set ids)"
      by (auto simp: bt_is_empty_iff bt_get_retain bt_contains_iff split: option.splits if_splits)
    then show ?thesis by (auto simp: keys)
  qed
  have "reorder_domains ids ds = Inr ds' \<longleftrightarrow>
      length ids = length ds \<and> distinct ids \<and> set ids \<subseteq> rd_domain_id ` set ds \<and>
      rd_domain_id ` set ds \<subseteq> set ids \<and> ds' = map (\<lambda>k. the (bt_get by_id k)) ids"
  proof (cases "distinct ids")
    case True
    then have "first_duplicate ids bt_empty = None" by (simp add: first_duplicate_None)
    with True show ?thesis
      by (auto simp: reorder_domains_def Let_def by_id_def [symmetric] and_then_Inr_iff take_in_order_Inr keys
          rest split: if_splits)
  next
    case False
    then obtain k where "first_duplicate ids bt_empty = Some k"
      by (cases "first_duplicate ids bt_empty") (simp_all add: first_duplicate_None)
    with False show ?thesis by (simp add: reorder_domains_def)
  qed
  also have "\<dots> \<longleftrightarrow> distinct ids \<and> set ids = rd_domain_id ` set ds \<and> distinct (map rd_domain_id ds) \<and>
      ds' = map (\<lambda>k. the (bt_get by_id k)) ids"
    by (metis card_distinct distinct_card length_map list.set_map order_antisym subset_refl)
  finally show ?thesis by (simp add: by_id_def)
qed

lemma reorder_domains_perm:
  assumes "distinct (map rd_domain_id ds)"
  shows "reorder_domains ids ds = Inr ds' \<longleftrightarrow> map rd_domain_id ds' = ids \<and> set ds' = set ds \<and> length ds' = length ds"
proof -
  define by_id where "by_id = fold (\<lambda>d m. bt_insert (rd_domain_id d) d m) ds bt_empty"
  have get: "bt_get by_id (rd_domain_id d) = Some d" if "d \<in> set ds" for d
    using domains_by_id(2) [OF assms that] by (simp add: by_id_def)
  show ?thesis
    unfolding reorder_domains_Inr by_id_def [symmetric]
  proof (intro iffI; elim conjE)
    assume d: "distinct ids" and s: "set ids = rd_domain_id ` set ds" and ds': "ds' = map (\<lambda>k. the (bt_get by_id k)) ids"
    have "map rd_domain_id ds' = ids"
      unfolding ds' map_map by (rule map_idI) (use s get in auto)
    moreover have "set ds' = set ds" unfolding ds' by (force simp: s get)
    moreover have "length ids = length ds"
      using d s assms by (metis distinct_card length_map list.set_map)
    ultimately show "map rd_domain_id ds' = ids \<and> set ds' = set ds \<and> length ds' = length ds"
      by (simp add: ds')
  next
    assume m: "map rd_domain_id ds' = ids" and s: "set ds' = set ds" and l: "length ds' = length ds"
    have "distinct ids"
      using assms m s l by (metis card_distinct distinct_card length_map list.set_map)
    moreover have "set ids = rd_domain_id ` set ds" using m s by auto
    moreover have "ds' = map (\<lambda>k. the (bt_get by_id k)) ids"
      unfolding m [symmetric] map_map by (rule sym, rule map_idI) (simp add: s get)
    ultimately show "distinct ids \<and> set ids = rd_domain_id ` set ds \<and> distinct (map rd_domain_id ds) \<and>
        ds' = map (\<lambda>k. the (bt_get by_id k)) ids" using assms by simp
  qed
qed

lemma reorder_domain_ok:
  assumes ok: "domains_ok s" and run: "apply_reorder_reality_domains x ids s = (Inr res, s')"
  shows "domains_ok s'"
proof -
  from ok have d: "distinct (map rd_domain_id (st_reality_domains s))" by (simp add: domains_ok_def)
  from run obtain ds where ds: "reorder_domains ids (st_reality_domains s) = Inr ds"
    and rep: "replace_domains x ds s = (Inr res, s')"
    by (auto simp: apply_reorder_reality_domains_def try_in_Inr_iff)
  note perm = ds [unfolded reorder_domains_perm [OF d]]
  have inj: "distinct (map f ds)" if "distinct (map f (st_reality_domains s))" for f :: "reality_domain \<Rightarrow> string"
    using that perm by (metis card_distinct distinct_card length_map list.set_map)
  from rep show ?thesis
    by (rule replace_domains_ok) (use ok perm inj in \<open>auto simp: domains_ok_def\<close>)
qed

text \<open>
  C24: \<^verbatim>\<open>ReorderRealityDomains\<close> accepts a list of ids if and only if it names the id of every domain
  exactly once, and then the new list has the same domains in that order. When two domains share an id,
  which \<^verbatim>\<open>CreateRealityDomain\<close> does not rule out, no request is ever accepted.
\<close>

theorem reorder_exact:
  "(if distinct (map rd_domain_id ds)
    then \<forall>ds'. reorder_domains ids ds = Inr ds' \<longleftrightarrow>
        map rd_domain_id ds' = ids \<and> set ds' = set ds \<and> length ds' = length ds
    else \<forall>ds'. reorder_domains ids ds \<noteq> Inr ds')"
  by (simp add: reorder_domains_perm) (simp add: reorder_domains_Inr)

end
