(* ===== verification/Xp_Vless_Json.thy ===== *)
theory Xp_Vless_Json
  imports Xp_Endpoints
begin

text \<open>
  The JSON form of the VLESS endpoint metadata of \<^verbatim>\<open>protocol.rs\<close>, as its
  \<^verbatim>\<open>serde\<close> attributes describe it: field names and \<^verbatim>\<open>snake_case\<close> variants,
  \<^verbatim>\<open>default\<close> for the fields that may be absent, \<^verbatim>\<open>skip_serializing_if\<close> for the ones left out.
  It is the instance on which the theorems about endpoints are exercised, and it satisfies what they
  assume of \<^verbatim>\<open>serde_json\<close>.
\<close>

section \<open>Encoding\<close>

definition names_to_json :: "string list \<Rightarrow> json" where
  "names_to_json ns = JArr (map JStr ns)"

definition source_to_json :: "reality_server_names_source \<Rightarrow> json" where
  "source_to_json s = JStr (case s of SnManual \<Rightarrow> ''manual'' | SnGlobal \<Rightarrow> ''global'')"

definition mode_to_json :: "canary_upstream_mode \<Rightarrow> json" where
  "mode_to_json m = JStr (case m of CumAuto \<Rightarrow> ''auto'' | CumHttp1 \<Rightarrow> ''http1'' | CumH2c \<Rightarrow> ''h2c'')"

definition smux_to_json :: "mihomo_smux_config \<Rightarrow> json" where
  "smux_to_json c = JObj
     [(''enabled'', JBool (ms_enabled c)), (''max_connections'', JInt (uint (ms_max_connections c))),
      (''min_streams'', JInt (uint (ms_min_streams c))), (''only_tcp'', JBool (ms_only_tcp c))]"

definition reality_to_json :: "reality_config \<Rightarrow> json" where
  "reality_to_json r = JObj
     [(''dest'', JStr (rc_dest r)), (''fingerprint'', JStr (rc_fingerprint r)),
      (''server_names'', names_to_json (rc_server_names r)),
      (''server_names_source'', source_to_json (rc_server_names_source r))]"

definition keys_to_json :: "reality_keys \<Rightarrow> json" where
  "keys_to_json k = JObj [(''private_key'', JStr (rk_private_key k)), (''public_key'', JStr (rk_public_key k))]"

definition canary_to_json :: "canary_upstream_config \<Rightarrow> json" where
  "canary_to_json c = JObj [(''mode'', mode_to_json (cu_mode c)), (''url'', JStr (cu_url c))]"

definition vless_to_json :: "vless_meta \<Rightarrow> json" where
  "vless_to_json m = JObj
     ((if vm_accepted_authorities m = [] then []
       else [(''accepted_authorities'', names_to_json (vm_accepted_authorities m))]) @
      [(''active_short_id'', JStr (vm_active_short_id m))] @
      (case vm_canary_upstream m of None \<Rightarrow> [] | Some c \<Rightarrow> [(''canary_upstream'', canary_to_json c)]) @
      [(''managed_default'', JBool (vm_managed_default m)),
       (''mihomo_smux'', smux_to_json (vm_mihomo_smux m)),
       (''reality'', reality_to_json (vm_reality m)),
       (''reality_keys'', keys_to_json (vm_reality_keys m)),
       (''short_ids'', names_to_json (vm_short_ids m))] @
      (if vm_transport m = VisionTcp then [] else [(''transport'', JStr ''xhttp'')]))"

section \<open>Decoding\<close>

text \<open>A decoder returns \<open>None\<close> on a value of the wrong shape. \<open>field\<close> is a required field, \<open>field_or\<close> one with a default.\<close>

definition field :: "string \<Rightarrow> (json \<Rightarrow> 'a option) \<Rightarrow> json \<Rightarrow> 'a option" where
  "field k dec v = (case json_field k v of None \<Rightarrow> None | Some w \<Rightarrow> dec w)"

definition field_or :: "'a \<Rightarrow> string \<Rightarrow> (json \<Rightarrow> 'a option) \<Rightarrow> json \<Rightarrow> 'a option" where
  "field_or d k dec v = (case json_field k v of None \<Rightarrow> Some d | Some w \<Rightarrow> dec w)"

fun json_str :: "json \<Rightarrow> string option" where
  "json_str (JStr s) = Some s"
| "json_str _ = None"

fun json_bool :: "json \<Rightarrow> bool option" where
  "json_bool (JBool b) = Some b"
| "json_bool _ = None"

fun json_u16 :: "json \<Rightarrow> u16 option" where
  "json_u16 (JInt i) = (if 0 \<le> i \<and> i < 65536 then Some (word_of_int i) else None)"
| "json_u16 _ = None"

fun json_names :: "json \<Rightarrow> string list option" where
  "json_names (JArr vs) = those (map json_str vs)"
| "json_names _ = None"

definition json_source :: "json \<Rightarrow> reality_server_names_source option" where
  "json_source v = (if v = JStr ''manual'' then Some SnManual else if v = JStr ''global'' then Some SnGlobal else None)"

definition json_mode :: "json \<Rightarrow> canary_upstream_mode option" where
  "json_mode v = (if v = JStr ''auto'' then Some CumAuto else if v = JStr ''http1'' then Some CumHttp1
     else if v = JStr ''h2c'' then Some CumH2c else None)"

definition json_transport :: "json \<Rightarrow> vless_reality_transport option" where
  "json_transport v = (if v = JStr ''vision_tcp'' then Some VisionTcp else if v = JStr ''xhttp'' then Some Xhttp else None)"

definition json_smux :: "json \<Rightarrow> mihomo_smux_config option" where
  "json_smux v =
     Option.bind (field ''enabled'' json_bool v) (\<lambda>e.
     Option.bind (field ''max_connections'' json_u16 v) (\<lambda>mc.
     Option.bind (field ''min_streams'' json_u16 v) (\<lambda>ms.
     Option.bind (field ''only_tcp'' json_bool v) (\<lambda>t.
       Some \<lparr>ms_enabled = e, ms_max_connections = mc, ms_min_streams = ms, ms_only_tcp = t\<rparr>))))"

definition json_reality :: "json \<Rightarrow> reality_config option" where
  "json_reality v =
     Option.bind (field ''dest'' json_str v) (\<lambda>d.
     Option.bind (field ''server_names'' json_names v) (\<lambda>ns.
     Option.bind (field_or SnManual ''server_names_source'' json_source v) (\<lambda>src.
     Option.bind (field ''fingerprint'' json_str v) (\<lambda>fp.
       Some \<lparr>rc_dest = d, rc_server_names = ns, rc_server_names_source = src, rc_fingerprint = fp\<rparr>))))"

definition json_keys :: "json \<Rightarrow> reality_keys option" where
  "json_keys v =
     Option.bind (field ''private_key'' json_str v) (\<lambda>priv.
     Option.bind (field ''public_key'' json_str v) (\<lambda>pub.
       Some \<lparr>rk_private_key = priv, rk_public_key = pub\<rparr>))"

definition json_canary :: "json \<Rightarrow> canary_upstream_config option" where
  "json_canary v =
     Option.bind (field ''url'' json_str v) (\<lambda>u.
     Option.bind (field_or CumAuto ''mode'' json_mode v) (\<lambda>md.
       Some \<lparr>cu_url = u, cu_mode = md\<rparr>))"

definition json_canary_option :: "json \<Rightarrow> canary_upstream_config option option" where
  "json_canary_option v = (if v = JNull then Some None else map_option Some (json_canary v))"

definition json_vless :: "json \<Rightarrow> vless_meta option" where
  "json_vless v =
     Option.bind (field ''reality'' json_reality v) (\<lambda>r.
     Option.bind (field ''reality_keys'' json_keys v) (\<lambda>ks.
     Option.bind (field ''short_ids'' json_names v) (\<lambda>ids.
     Option.bind (field ''active_short_id'' json_str v) (\<lambda>active.
     Option.bind (field_or None ''canary_upstream'' json_canary_option v) (\<lambda>canary.
     Option.bind (field_or [] ''accepted_authorities'' json_names v) (\<lambda>auths.
     Option.bind (field_or default_mihomo_smux_config ''mihomo_smux'' json_smux v) (\<lambda>smux.
     Option.bind (field_or VisionTcp ''transport'' json_transport v) (\<lambda>tr.
     Option.bind (field_or False ''managed_default'' json_bool v) (\<lambda>md.
       Some \<lparr>vm_reality = r, vm_reality_keys = ks, vm_short_ids = ids, vm_active_short_id = active,
         vm_canary_upstream = canary, vm_accepted_authorities = auths, vm_mihomo_smux = smux,
         vm_transport = tr, vm_managed_default = md\<rparr>)))))))))"

section \<open>Round trips\<close>

lemma json_names_roundtrip [simp]: "json_names (names_to_json ns) = Some ns"
proof -
  have "those (map (json_str \<circ> JStr) ns) = Some ns" by (induction ns) simp_all
  then show ?thesis by (simp add: names_to_json_def comp_def)
qed

lemma json_source_roundtrip [simp]: "json_source (source_to_json s) = Some s"
  by (cases s) (simp_all add: json_source_def source_to_json_def)

lemma json_mode_roundtrip [simp]: "json_mode (mode_to_json m) = Some m"
  by (cases m) (simp_all add: json_mode_def mode_to_json_def)

lemma json_u16_roundtrip [simp]: "json_u16 (JInt (uint w)) = Some w"
  using uint_lt2p [of w] by simp

lemmas field_defs = field_def field_or_def json_field_def

lemma json_smux_roundtrip [simp]: "json_smux (smux_to_json c) = Some c"
  by (simp add: json_smux_def smux_to_json_def field_defs del: json_u16.simps)

lemma json_reality_roundtrip [simp]: "json_reality (reality_to_json r) = Some r"
  by (simp add: json_reality_def reality_to_json_def field_defs)

lemma json_keys_roundtrip [simp]: "json_keys (keys_to_json k) = Some k"
  by (simp add: json_keys_def keys_to_json_def field_defs)

lemma json_canary_roundtrip [simp]: "json_canary_option (canary_to_json c) = Some (Some c)"
  by (simp add: json_canary_option_def json_canary_def canary_to_json_def field_defs)

lemma json_vless_roundtrip: "json_vless (vless_to_json m) = Some m"
  by (cases "vm_canary_upstream m"; cases "vm_transport m")
    (simp_all add: json_vless_def vless_to_json_def field_defs json_transport_def)

lemma json_vless_roundtrip_smux:
  assumes "vm_mihomo_smux m = default_mihomo_smux_config" "remove_member ''mihomo_smux'' (vless_to_json m) = Some v"
  shows "json_vless v = Some m"
proof -
  have "Option.bind (remove_member ''mihomo_smux'' (vless_to_json m)) json_vless = Some m"
    using assms(1) by (cases "vm_canary_upstream m"; cases "vm_transport m")
      (simp_all add: json_vless_def vless_to_json_def field_defs remove_member_def json_transport_def)
  with assms(2) show ?thesis by simp
qed

lemma json_vless_default_smux:
  "json_vless v = Some m \<Longrightarrow> json_field ''mihomo_smux'' v = None \<Longrightarrow>
    vm_mihomo_smux m = default_mihomo_smux_config"
  by (auto simp: json_vless_def bind_eq_Some_conv field_or_def)

section \<open>The instance\<close>

definition sample_ext :: ext where
  "sample_ext = \<lparr>x_rfc3339 = (\<lambda>t. if t = [] then None else Some (int (length t))),
     x_vless_from_value = (\<lambda>v. case json_vless v of None \<Rightarrow> Inl ''invalid metadata'' | Some m \<Rightarrow> Inr m),
     x_vless_to_value = (\<lambda>m. Inr (vless_to_json m)),
     x_url_parse = (\<lambda>_. None), x_probe_payload_from_str = (\<lambda>_. None)\<rparr>"

lemma sample_ext_reads [simp]:
  "x_vless_from_value sample_ext v = Inr m \<longleftrightarrow> json_vless v = Some m"
  "x_vless_to_value sample_ext m = Inr v \<longleftrightarrow> v = vless_to_json m"
  "is_ok (x_vless_to_value sample_ext m)"
  by (auto simp: sample_ext_def split: option.splits)

lemma sample_ext_serde: "vless_serde sample_ext"
  unfolding vless_serde_def sample_ext_reads
proof (intro conjI allI impI)
  fix m v v' assume v: "v = vless_to_json m"
  then show "is_object v" by (simp add: vless_to_json_def is_object_def)
  from v show "json_vless v = Some m" by (simp add: json_vless_roundtrip)
  assume "vm_mihomo_smux m = default_mihomo_smux_config" "remove_member ''mihomo_smux'' v = Some v'"
  with v show "json_vless v' = Some m" by (simp add: json_vless_roundtrip_smux)
qed (rule json_vless_default_smux)

lemma sample_ext_object: "to_value_gives_object sample_ext"
  unfolding to_value_gives_object_def sample_ext_reads by (auto simp: vless_to_json_def is_object_def)

definition sample_domain :: "string \<Rightarrow> reality_domain" where
  "sample_domain name = \<lparr>rd_domain_id = name, rd_server_name = name, rd_disabled_node_ids = bt_empty\<rparr>"

definition sample_meta :: "string \<Rightarrow> vless_meta" where
  "sample_meta name = \<lparr>
     vm_reality = \<lparr>rc_dest = name @ '':443'', rc_server_names = [name], rc_server_names_source = SnGlobal,
       rc_fingerprint = ''chrome''\<rparr>,
     vm_reality_keys = \<lparr>rk_private_key = ''k'', rk_public_key = ''p''\<rparr>, vm_short_ids = [''00''],
     vm_active_short_id = ''00'', vm_canary_upstream = None, vm_accepted_authorities = [],
     vm_mihomo_smux = default_mihomo_smux_config, vm_transport = VisionTcp, vm_managed_default = False\<rparr>"

definition sample_vless_endpoint :: "string \<Rightarrow> endpoint" where
  "sample_vless_endpoint name = \<lparr>ep_endpoint_id = ''e1'', ep_node_id = ''n1'', ep_tag = ''t1'',
     ep_kind = VlessRealityVisionTcp, ep_port = 443, ep_meta = vless_to_json (sample_meta name)\<rparr>"

definition sample_vless_state :: state where
  "sample_vless_state = empty_state\<lparr>st_reality_domains := [sample_domain ''a.com''],
     st_endpoints := bt_insert ''e1'' (sample_vless_endpoint ''a.com'') bt_empty\<rparr>"

lemma sample_derive:
  "derive_global_reality_server_names [sample_domain ''a.com''] ''n1'' = [''a.com'']"
  "derive_global_reality_server_names [sample_domain ''b.com''] ''n1'' = [''b.com'']"
  "derive_global_reality_server_names [] n = []"
  "trim ''a.com'' = ''a.com''" "trim ''b.com'' = ''b.com''"
proof -
  show trims: "trim ''a.com'' = ''a.com''" "trim ''b.com'' = ''b.com''" by code_simp+
  show "derive_global_reality_server_names [sample_domain ''a.com''] ''n1'' = [''a.com'']"
    "derive_global_reality_server_names [sample_domain ''b.com''] ''n1'' = [''b.com'']"
    "derive_global_reality_server_names [] n = []"
    by (simp_all add: derive_global_reality_server_names_def sample_domain_def trims)
qed

lemma sample_vless_state_follow: "endpoints_follow sample_ext sample_vless_state"
  by (auto simp: endpoints_follow_def follows_domains_def sample_vless_state_def sample_vless_endpoint_def
      json_vless_roundtrip sample_derive globalized_def set_server_names_def set_global_dest_def sample_meta_def
      empty_state_def split: if_splits)

theorem reality_domain_change_exact_witness:
  "vless_serde sample_ext \<and> (\<forall>m. is_ok (x_vless_to_value sample_ext m)) \<and>
   endpoints_follow sample_ext sample_vless_state \<and>
   (\<exists>s' v. replace_domains sample_ext [sample_domain ''b.com''] sample_vless_state = (Inr Applied, s') \<and>
      bt_get (st_endpoints s') ''e1'' = Some ((sample_vless_endpoint ''a.com'')\<lparr>ep_meta := v\<rparr>) \<and>
      json_vless v = Some (sample_meta ''b.com''))"
proof -
  let ?r = "replace_domains sample_ext [sample_domain ''b.com''] sample_vless_state"
  have total: "\<forall>m. is_ok (x_vless_to_value sample_ext m)" by simp
  have only: "bt_get (st_endpoints sample_vless_state) k = Some e \<longleftrightarrow> k = ''e1'' \<and> e = sample_vless_endpoint ''a.com''" for k e
    by (auto simp: sample_vless_state_def)
  have e: "ep_node_id (sample_vless_endpoint n) = ''n1''" "ep_kind (sample_vless_endpoint n) = VlessRealityVisionTcp"
    "json_vless (ep_meta (sample_vless_endpoint n)) = Some (sample_meta n)" "is_global (sample_meta n)" for n
    by (simp_all add: sample_vless_endpoint_def json_vless_roundtrip is_global_def sample_meta_def)
  have g: "globalized [sample_domain ''b.com''] ''n1'' (sample_meta ''a.com'') = sample_meta ''b.com''"
    by (simp add: globalized_def sample_derive set_server_names_def set_global_dest_def sample_meta_def)
  note exact = reality_domain_change_exact [OF sample_ext_serde total sample_vless_state_follow, of "[sample_domain ''b.com'']"]
  show ?thesis
  proof (cases ?r)
    case (Pair r s')
    then obtain res where "r = Inr res"
      using exact by (cases r) (auto simp: only e sample_derive)
    with exact Pair show ?thesis
      using total sample_ext_serde sample_vless_state_follow by (simp add: only e g sample_derive)
  qed
qed

end
