(* ===== verification/Xp_Window.thy ===== *)
theory Xp_Window
  imports Xp_BTree
begin

text \<open>
  The sliding window of the last seven days, minute by minute. Two components keep one: the bitmap of
  \<^verbatim>\<open>inbound_ip_usage.rs\<close> and the counters of \<^verbatim>\<open>tcp_connection_usage.rs\<close>. Both store slot
  \<open>W - 1\<close> for the latest minute and move the slots down when time advances. The locale states that
  contract and derives what a window says about a minute; the two components interpret it.
\<close>

unbundle bit_operations_syntax

section \<open>The contract\<close>

text \<open>The value at minute \<open>t\<close> of a window of \<open>W\<close> slots whose latest minute is \<open>l\<close>.\<close>

definition window_at :: "nat \<Rightarrow> 'v \<Rightarrow> ('w \<Rightarrow> nat \<Rightarrow> 'v) \<Rightarrow> 'w \<Rightarrow> int \<Rightarrow> int \<Rightarrow> 'v" where
  "window_at W zero slot w l t = (if l - int W < t \<and> t \<le> l then slot w (nat (t - (l - int W) - 1)) else zero)"

lemma window_at_latest: "0 < W \<Longrightarrow> window_at W zero slot w l l = slot w (W - 1)"
  by (simp add: window_at_def nat_diff_distrib)

locale sliding_window =
  fixes W :: nat
    and zero :: 'v
    and slot :: "'w \<Rightarrow> nat \<Rightarrow> 'v"
    and shift :: "'w \<Rightarrow> nat \<Rightarrow> 'w"
    and full :: "'w \<Rightarrow> bool"
  assumes slot_shift: "\<lbrakk>full w; i < W\<rbrakk> \<Longrightarrow> slot (shift w k) i = (if i + k < W then slot w (i + k) else zero)"
    and full_shift: "full w \<Longrightarrow> full (shift w k)"
begin

lemma at_outside: "t \<le> l - int W \<or> l < t \<Longrightarrow> window_at W zero slot w l t = zero"
  by (auto simp: window_at_def)

lemma at_shift:
  assumes "full w"
  shows "window_at W zero slot (shift w k) (l + int k) t =
    (if l + int k - int W < t then window_at W zero slot w l t else zero)"
proof (cases "l + int k - int W < t \<and> t \<le> l + int k")
  case True
  let ?i = "nat (t - (l + int k - int W) - 1)"
  have "?i < W" using True by (simp add: nat_less_iff)
  then have "window_at W zero slot (shift w k) (l + int k) t = (if ?i + k < W then slot w (?i + k) else zero)"
    using True assms by (simp add: window_at_def slot_shift)
  moreover have "?i + k < W \<longleftrightarrow> t \<le> l" using True by auto
  moreover have "?i + k = nat (t - (l - int W) - 1)" using True by auto
  ultimately show ?thesis using True by (auto simp: window_at_def)
next
  case False
  then show ?thesis by (auto simp: window_at_def)
qed

lemma shift_shift:
  assumes "full w"
  shows "window_at W zero slot (shift (shift w j) k) l t = window_at W zero slot (shift w (j + k)) l t"
  using at_shift [OF assms, of "j + k" "l - int (j + k)" t]
    at_shift [OF full_shift [OF assms], of j k "l - int k" t] at_shift [OF assms, of j "l - int (j + k)" t]
  by (simp add: algebra_simps)

end

section \<open>Bitmaps\<close>

definition MINUTES_WINDOW :: nat where
  "MINUTES_WINDOW = 7 * 24 * 60"

definition BITMAP_BYTES :: nat where
  "BITMAP_BYTES = (MINUTES_WINDOW + 7) div 8"

definition zero_bitmap :: "u8 list" where
  "zero_bitmap = replicate BITMAP_BYTES 0"

definition normalize_bitmap :: "u8 list \<Rightarrow> u8 list" where
  "normalize_bitmap bitmap =
     (if length bitmap < BITMAP_BYTES then bitmap @ replicate (BITMAP_BYTES - length bitmap) 0
      else if length bitmap > BITMAP_BYTES then take BITMAP_BYTES bitmap
      else bitmap)"

definition get_bit :: "u8 list \<Rightarrow> nat \<Rightarrow> bool" where
  "get_bit bitmap index =
     (let byte_index = index div 8; bit_index = index mod 8
      in if byte_index < length bitmap then bitmap ! byte_index AND push_bit bit_index 1 \<noteq> 0 else False)"

definition set_bit :: "u8 list \<Rightarrow> nat \<Rightarrow> bool \<Rightarrow> u8 list" where
  "set_bit bitmap index v =
     (let byte_index = index div 8; bit_index = index mod 8
      in if byte_index < length bitmap
         then bitmap[byte_index :=
           (if v then bitmap ! byte_index OR push_bit bit_index 1
            else bitmap ! byte_index AND NOT (push_bit bit_index 1))]
         else bitmap)"

text \<open>\<^verbatim>\<open>u8::count_ones\<close>.\<close>

definition count_ones :: "u8 \<Rightarrow> nat" where
  "count_ones w = length (filter (bit w) [0..<8])"

definition count_bitmap_bits :: "u8 list \<Rightarrow> nat" where
  "count_bitmap_bits bitmap = sum_list (map count_ones bitmap)"

definition bitmap_has_any_bit_after_shift :: "u8 list \<Rightarrow> nat \<Rightarrow> bool" where
  "bitmap_has_any_bit_after_shift bitmap shift =
     (if shift = 0 then list_ex (\<lambda>byte. byte \<noteq> 0) bitmap
      else if shift \<ge> MINUTES_WINDOW then False
      else
        let start_byte = shift div 8; start_bit = shift mod 8
        in list_ex (\<lambda>(index, byte).
             (if index = start_byte \<and> start_bit \<noteq> 0 then byte AND NOT (push_bit start_bit 1 - 1) else byte) \<noteq> 0)
           (drop start_byte (enumerate 0 bitmap)))"

definition shift_bitmap :: "u8 list \<Rightarrow> nat \<Rightarrow> u8 list" where
  "shift_bitmap bitmap shift =
     (let bitmap = normalize_bitmap bitmap
      in if shift = 0 then bitmap
         else if shift \<ge> MINUTES_WINDOW then map (\<lambda>_. 0) bitmap
         else fold (\<lambda>index bm. if get_bit bitmap index then set_bit bm (index - shift) True else bm)
           [shift..<MINUTES_WINDOW] (map (\<lambda>_. 0) bitmap))"

definition extract_window_flags :: "u8 list \<Rightarrow> nat \<Rightarrow> nat \<Rightarrow> bool list" where
  "extract_window_flags bitmap start_index len = map (\<lambda>offset. get_bit bitmap (start_index + offset)) [0..<len]"

lemma window_bytes: "BITMAP_BYTES * 8 = MINUTES_WINDOW"
  by (simp add: BITMAP_BYTES_def MINUTES_WINDOW_def)

lemma get_bit_iff: "get_bit bitmap i \<longleftrightarrow> i div 8 < length bitmap \<and> bit (bitmap ! (i div 8)) (i mod 8)"
proof -
  have "w AND push_bit n 1 \<noteq> 0 \<longleftrightarrow> bit w n" if "n < 8" for w :: u8 and n
    using that by (simp add: and_exp_eq_0_iff_not_bit push_bit_eq_mult)
  then show ?thesis by (simp add: get_bit_def Let_def)
qed

lemma div_mod_8: "i div 8 = j div 8 \<and> i mod 8 = j mod 8 \<longleftrightarrow> i = j" for i j :: nat
  by (metis div_mult_mod_eq)

lemma length_set_bit [simp]: "length (set_bit bitmap i v) = length bitmap"
  by (simp add: set_bit_def Let_def)

lemma bit_mask:
  assumes "n < 8" "m < 8"
  shows "bit ((2 :: u8) ^ n) m \<longleftrightarrow> m = n" "bit (NOT ((2 :: u8) ^ n)) m \<longleftrightarrow> m \<noteq> n"
  using assms by (simp_all add: bit_exp_iff bit_not_iff)

lemma nth_set_bit:
  "b < length bitmap \<Longrightarrow> set_bit bitmap i v ! b =
     (if b = i div 8 then if v then bitmap ! b OR push_bit (i mod 8) 1 else bitmap ! b AND NOT (push_bit (i mod 8) 1)
      else bitmap ! b)"
  by (simp add: set_bit_def Let_def)

lemma get_set_bit:
  "get_bit (set_bit bitmap i v) j = (if i = j \<and> i div 8 < length bitmap then v else get_bit bitmap j)"
proof (cases "j div 8 < length bitmap \<and> j div 8 = i div 8")
  case True
  have "bit (set_bit bitmap i v ! (j div 8)) (j mod 8) \<longleftrightarrow>
      (if j mod 8 = i mod 8 then v else bit (bitmap ! (j div 8)) (j mod 8))"
    using True by (simp add: nth_set_bit bit_or_iff bit_and_iff bit_mask)
  moreover have "j mod 8 = i mod 8 \<longleftrightarrow> i = j" using True div_mod_8 [of i j] by metis
  ultimately show ?thesis using True by (simp add: get_bit_iff)
next
  case False
  then show ?thesis by (auto simp: get_bit_iff nth_set_bit)
qed

lemma get_bit_zero [simp]: "\<not> get_bit (map (\<lambda>_. 0) xs) i" "\<not> get_bit (replicate n 0) i"
  by (auto simp: get_bit_iff)

lemma length_normalize [simp]: "length (normalize_bitmap bitmap) = BITMAP_BYTES"
  by (simp add: normalize_bitmap_def)

lemma normalize_id [simp]: "length bitmap = BITMAP_BYTES \<Longrightarrow> normalize_bitmap bitmap = bitmap"
  by (simp add: normalize_bitmap_def)

lemma byte_of_minute: "i < MINUTES_WINDOW \<Longrightarrow> i div 8 < BITMAP_BYTES"
  unfolding window_bytes [symmetric] by (rule less_mult_imp_div_less)

lemma get_normalize:
  assumes "i < MINUTES_WINDOW"
  shows "get_bit (normalize_bitmap bitmap) i = get_bit bitmap i"
proof -
  note byte = byte_of_minute [OF assms]
  consider "length bitmap < BITMAP_BYTES" | "length bitmap > BITMAP_BYTES" | "length bitmap = BITMAP_BYTES" by linarith
  then show ?thesis
  proof cases
    case 1
    with byte show ?thesis
      by (cases "i div 8 < length bitmap") (simp_all add: get_bit_iff normalize_bitmap_def nth_append)
  next
    case 2
    with byte show ?thesis by (simp add: get_bit_iff normalize_bitmap_def)
  qed simp
qed

lemma fold_set_bits:
  "length (fold (\<lambda>i bm. if P i then set_bit bm (f i) True else bm) is bm) = length bm"
  "get_bit (fold (\<lambda>i bm. if P i then set_bit bm (f i) True else bm) is bm) j \<longleftrightarrow>
     get_bit bm j \<or> (\<exists>i \<in> set is. P i \<and> f i = j \<and> j div 8 < length bm)"
  by (induction "is" arbitrary: bm) (auto simp: get_set_bit split: if_splits)

lemma length_shift [simp]: "length (shift_bitmap bitmap k) = BITMAP_BYTES"
  by (simp add: shift_bitmap_def Let_def fold_set_bits)

lemma reindex_shift: "(\<exists>j \<in> set [k..<n]. P j \<and> j - k = i) \<longleftrightarrow> i + k < n \<and> P (i + k)" for i :: nat
proof
  assume "\<exists>j \<in> set [k..<n]. P j \<and> j - k = i"
  then obtain j where "k \<le> j" "j < n" "P j" "j - k = i" by auto
  moreover from this have "i + k = j" by simp
  ultimately show "i + k < n \<and> P (i + k)" by simp
next
  assume "i + k < n \<and> P (i + k)"
  then show "\<exists>j \<in> set [k..<n]. P j \<and> j - k = i" by (intro bexI [of _ "i + k"]) simp_all
qed

lemma get_shift_inner:
  assumes "i < MINUTES_WINDOW" "k \<noteq> 0" "k < MINUTES_WINDOW"
  shows "get_bit (shift_bitmap bitmap k) i \<longleftrightarrow> i + k < MINUTES_WINDOW \<and> get_bit (normalize_bitmap bitmap) (i + k)"
proof -
  have "shift_bitmap bitmap k = fold (\<lambda>index bm. if get_bit (normalize_bitmap bitmap) index then set_bit bm (index - k) True else bm)
      [k..<MINUTES_WINDOW] (map (\<lambda>_. 0) (normalize_bitmap bitmap))"
    unfolding shift_bitmap_def Let_def using assms(2,3) by (simp only: if_False not_le [symmetric] simp_thms)
  then have "get_bit (shift_bitmap bitmap k) i \<longleftrightarrow>
      (\<exists>j \<in> set [k..<MINUTES_WINDOW]. get_bit (normalize_bitmap bitmap) j \<and> j - k = i)"
    using byte_of_minute [OF assms(1)] by (simp only: fold_set_bits get_bit_zero length_map length_normalize simp_thms)
  also have "\<dots> \<longleftrightarrow> i + k < MINUTES_WINDOW \<and> get_bit (normalize_bitmap bitmap) (i + k)" by (rule reindex_shift)
  finally show ?thesis .
qed

lemma get_shift:
  assumes "i < MINUTES_WINDOW"
  shows "get_bit (shift_bitmap bitmap k) i \<longleftrightarrow> i + k < MINUTES_WINDOW \<and> get_bit bitmap (i + k)"
proof (cases "k = 0 \<or> k \<ge> MINUTES_WINDOW")
  case True
  then show ?thesis using assms by (auto simp: shift_bitmap_def get_normalize)
next
  case False
  then show ?thesis using get_shift_inner [OF assms, of k bitmap] get_normalize [of "i + k" bitmap] by auto
qed

interpretation bm: sliding_window MINUTES_WINDOW False get_bit shift_bitmap "\<lambda>w. length w = BITMAP_BYTES"
  by unfold_locales (auto simp: get_shift)

text \<open>The number of set bits is the number of minutes the bitmap shows.\<close>

lemma get_bit_Cons: "get_bit (b # bs) i = (if i < 8 then bit b i else get_bit bs (i - 8))"
proof (cases "i < 8")
  case False
  then obtain j where j: "i = j + 8" by (metis add.commute le_Suc_ex not_less)
  have "(j + 8) div 8 = Suc (j div 8)" by simp
  then show ?thesis by (simp only: j get_bit_iff) simp
qed (simp add: get_bit_iff)

lemma set_bits_Cons:
  "{i. get_bit (b # bs) i} = {i. i < 8 \<and> bit b i} \<union> (\<lambda>i. i + 8) ` {i. get_bit bs i}"
proof -
  have "i \<in> (\<lambda>i. i + 8) ` {i. get_bit bs i} \<longleftrightarrow> 8 \<le> i \<and> get_bit bs (i - 8)" for i
    by (auto intro: image_eqI [of _ _ "i - 8"])
  then show ?thesis by (auto simp: get_bit_Cons)
qed

lemma finite_bits [simp]: "finite {i. get_bit bitmap i}"
proof (rule finite_subset)
  show "{i. get_bit bitmap i} \<subseteq> {..<length bitmap * 8}" by (auto simp: get_bit_iff div_less_iff_less_mult)
qed simp

lemma count_bits_card: "count_bitmap_bits bitmap = card {i. get_bit bitmap i}"
proof (induction bitmap)
  case Nil
  show ?case by (simp add: count_bitmap_bits_def get_bit_iff)
next
  case (Cons b bs)
  have "count_ones b = card (set (filter (bit b) [0..<8]))"
    unfolding count_ones_def by (rule distinct_card [symmetric]) simp
  also have "set (filter (bit b) [0..<8]) = {i. i < 8 \<and> bit b i}" by auto
  finally have ones: "count_ones b = card {i. i < 8 \<and> bit b i}" .
  have "card {i. get_bit (b # bs) i} = card {i. i < 8 \<and> bit b i} + card ((\<lambda>i. i + 8) ` {i. get_bit bs i})"
    unfolding set_bits_Cons by (rule card_Un_disjoint) auto
  also have "card ((\<lambda>i. i + 8) ` {i. get_bit bs i}) = card {i. get_bit bs i}" by (rule card_image) simp
  finally show ?case using Cons ones by (simp add: count_bitmap_bits_def)
qed

lemma get_bit_bound: "get_bit bitmap i \<Longrightarrow> length bitmap = BITMAP_BYTES \<Longrightarrow> i < MINUTES_WINDOW"
  unfolding window_bytes [symmetric] by (auto simp: get_bit_iff div_less_iff_less_mult)

lemma count_bits_le: "length bitmap = BITMAP_BYTES \<Longrightarrow> count_bitmap_bits bitmap \<le> MINUTES_WINDOW"
proof -
  assume "length bitmap = BITMAP_BYTES"
  then have "{i. get_bit bitmap i} \<subseteq> {..<MINUTES_WINDOW}" using get_bit_bound by auto
  then show ?thesis unfolding count_bits_card using card_mono [of "{..<MINUTES_WINDOW}"] by simp
qed

lemma count_bits_0: "count_bitmap_bits bitmap = 0 \<longleftrightarrow> (\<forall>i. \<not> get_bit bitmap i)"
  by (simp add: count_bits_card)

lemma count_set_bit:
  assumes "\<not> get_bit bitmap i" "i div 8 < length bitmap"
  shows "count_bitmap_bits (set_bit bitmap i True) = Suc (count_bitmap_bits bitmap)"
proof -
  have "{j. get_bit (set_bit bitmap i True) j} = insert i {j. get_bit bitmap j}"
    using assms(2) by (auto simp: get_set_bit)
  with assms(1) show ?thesis by (simp add: count_bits_card)
qed

text \<open>The early test for a bit that survives a shift agrees with the shift.\<close>

lemma byte_nonzero: "w \<noteq> 0 \<longleftrightarrow> (\<exists>n < 8. bit w n)" for w :: u8
  using bit_imp_le_length [of w] by (auto simp: bit_eq_iff)

lemma byte_above:
  fixes w :: u8
  assumes "s < 8"
  shows "w AND NOT (push_bit s 1 - 1) \<noteq> 0 \<longleftrightarrow> (\<exists>n < 8. s \<le> n \<and> bit w n)"
proof -
  have "push_bit s 1 - 1 = (mask s :: u8)" by (simp add: mask_eq_exp_minus_1)
  then have "bit (w AND NOT (push_bit s 1 - 1)) n \<longleftrightarrow> bit w n \<and> s \<le> n" if "n < 8" for n
    using that by (auto simp: bit_and_iff bit_not_iff bit_mask_iff)
  then show ?thesis unfolding byte_nonzero by auto
qed

lemma has_any_bit_iff:
  assumes "k < MINUTES_WINDOW"
  shows "bitmap_has_any_bit_after_shift bitmap k \<longleftrightarrow> (\<exists>i \<ge> k. get_bit bitmap i)"
proof -
  define test where "test \<equiv> \<lambda>b w. (if b = k div 8 \<and> k mod 8 \<noteq> 0 then w AND NOT (push_bit (k mod 8) 1 - 1) else w :: u8) \<noteq> 0"
  have test: "test b w \<longleftrightarrow> (\<exists>n < 8. k \<le> 8 * b + n \<and> bit w n)" if "k div 8 \<le> b" for b w
  proof (cases "b = k div 8")
    case True
    have "k \<le> 8 * (k div 8) + n \<longleftrightarrow> k mod 8 \<le> n" for n by (metis add_le_cancel_left mult_div_mod_eq)
    with True show ?thesis using byte_above [of "k mod 8" w] byte_nonzero [of w] by (auto simp: test_def)
  next
    case False
    with that have "k div 8 < b" by simp
    then have "k < 8 * b" by (simp add: div_less_iff_less_mult mult.commute)
    then have "k \<le> 8 * b + n" for n by simp
    with False show ?thesis by (simp add: test_def byte_nonzero)
  qed
  have set: "set (drop (k div 8) (enumerate 0 bitmap)) = {(b, w). k div 8 \<le> b \<and> b < length bitmap \<and> w = bitmap ! b}"
  proof -
    have "\<exists>i. (a, bitmap ! a) = enumerate 0 bitmap ! (k div 8 + i) \<and> i < length bitmap - k div 8"
      if "k div 8 \<le> a" "a < length bitmap" for a
      using that by (intro exI [of _ "a - k div 8"]) (simp add: nth_enumerate_eq)
    then show ?thesis by (auto simp: set_conv_nth nth_enumerate_eq)
  qed
  have bytes: "(\<exists>b. k div 8 \<le> b \<and> b < length bitmap \<and> test b (bitmap ! b)) \<longleftrightarrow> (\<exists>i \<ge> k. get_bit bitmap i)"
  proof
    assume "\<exists>b. k div 8 \<le> b \<and> b < length bitmap \<and> test b (bitmap ! b)"
    then obtain b n where "b < length bitmap" "n < 8" "k \<le> 8 * b + n" "bit (bitmap ! b) n" using test by blast
    then have "k \<le> 8 * b + n" "get_bit bitmap (8 * b + n)" by (simp_all add: get_bit_iff)
    then show "\<exists>i \<ge> k. get_bit bitmap i" by blast
  next
    assume "\<exists>i \<ge> k. get_bit bitmap i"
    then obtain i where i: "k \<le> i" "i div 8 < length bitmap" "bit (bitmap ! (i div 8)) (i mod 8)" by (auto simp: get_bit_iff)
    then have "k div 8 \<le> i div 8" by (simp add: div_le_mono)
    moreover from this i have "test (i div 8) (bitmap ! (i div 8))" unfolding test [OF \<open>k div 8 \<le> i div 8\<close>]
      by (intro exI [of _ "i mod 8"]) simp
    ultimately show "\<exists>b. k div 8 \<le> b \<and> b < length bitmap \<and> test b (bitmap ! b)" using i(2) by blast
  qed
  show ?thesis
  proof (cases "k = 0")
    case True
    then have "bitmap_has_any_bit_after_shift bitmap k \<longleftrightarrow> (\<exists>b < length bitmap. test b (bitmap ! b))"
      by (simp add: bitmap_has_any_bit_after_shift_def list_ex_length test_def)
    with bytes True show ?thesis by simp
  next
    case False
    then have "bitmap_has_any_bit_after_shift bitmap k \<longleftrightarrow> (\<exists>(b, w) \<in> set (drop (k div 8) (enumerate 0 bitmap)). test b w)"
      using assms by (simp add: bitmap_has_any_bit_after_shift_def Let_def list_ex_iff test_def)
    also have "\<dots> \<longleftrightarrow> (\<exists>b. k div 8 \<le> b \<and> b < length bitmap \<and> test b (bitmap ! b))" unfolding set by blast
    finally show ?thesis using bytes by simp
  qed
qed

section \<open>Counters\<close>

definition normalize_counts :: "u16 list \<Rightarrow> u16 list" where
  "normalize_counts counts =
     (if length counts < MINUTES_WINDOW then counts @ replicate (MINUTES_WINDOW - length counts) 0
      else if length counts > MINUTES_WINDOW then drop (length counts - MINUTES_WINDOW) counts
      else counts)"

text \<open>\<^verbatim>\<open>rotate_left\<close>, then the last \<open>shift\<close> entries are set to zero.\<close>

definition shift_counts :: "u16 list \<Rightarrow> nat \<Rightarrow> u16 list" where
  "shift_counts counts shift =
     (if shift \<ge> MINUTES_WINDOW then map (\<lambda>_. 0) counts
      else
        let rotated = rotate shift counts
        in take (MINUTES_WINDOW - shift) rotated @ map (\<lambda>_. 0) (drop (MINUTES_WINDOW - shift) rotated))"

definition count_at :: "u16 list \<Rightarrow> nat \<Rightarrow> u16" where
  "count_at counts i = (if i < length counts then counts ! i else 0)"

lemma length_normalize_counts [simp]: "length (normalize_counts counts) = MINUTES_WINDOW"
  by (simp add: normalize_counts_def)

lemma normalize_counts_id [simp]: "length counts = MINUTES_WINDOW \<Longrightarrow> normalize_counts counts = counts"
  by (simp add: normalize_counts_def)

lemma length_shift_counts [simp]: "length (shift_counts counts k) = length counts"
  by (auto simp: shift_counts_def Let_def)

lemma count_at_shift:
  assumes "length counts = MINUTES_WINDOW" "i < MINUTES_WINDOW"
  shows "count_at (shift_counts counts k) i = (if i + k < MINUTES_WINDOW then count_at counts (i + k) else 0)"
proof (cases "k < MINUTES_WINDOW")
  case True
  with assms show ?thesis
    by (auto simp: count_at_def shift_counts_def Let_def nth_append nth_rotate add.commute)
next
  case False
  with assms show ?thesis by (simp add: count_at_def shift_counts_def)
qed

interpretation cw: sliding_window MINUTES_WINDOW 0 count_at shift_counts "\<lambda>w. length w = MINUTES_WINDOW"
  by unfold_locales (simp_all add: count_at_shift)

end
