(* ===== verification/Xp_Net.thy ===== *)
theory Xp_Net
  imports Xp_Text
begin

text \<open>
  Internet addresses of the standard library as far as the sources use them: the value an address string
  parses to, its canonical text, and the address classes. The parser is the one of \<^verbatim>\<open>Xp_Text\<close> with
  its values kept. The theory shows that the canonical text of an address parses to that address.
\<close>

section \<open>Values and text\<close>

datatype ip_addr = V4 u8 u8 u8 u8 | V6 "u16 list"

definition hex_digit :: "nat \<Rightarrow> char" where
  "hex_digit d = ''0123456789abcdef'' ! d"

fun show_base :: "nat \<Rightarrow> nat \<Rightarrow> string" where
  "show_base b n = (if n < b \<or> b < 2 then [hex_digit n] else show_base b (n div b) @ [hex_digit (n mod b)])"

declare show_base.simps [simp del]

fun join_with :: "string \<Rightarrow> string list \<Rightarrow> string" where
  "join_with sep [] = []"
| "join_with sep [x] = x"
| "join_with sep (x # y # xs) = x @ sep @ join_with sep (y # xs)"

definition show_ipv4 :: "u8 \<Rightarrow> u8 \<Rightarrow> u8 \<Rightarrow> u8 \<Rightarrow> string" where
  "show_ipv4 a b c d = join_with ''.'' (map (\<lambda>w. show_base 10 (unat w)) [a, b, c, d])"

text \<open>The scan for the longest run of zero segments, the first of the longest; \<open>(start, len)\<close>.\<close>

fun zero_span :: "nat \<Rightarrow> u16 list \<Rightarrow> nat \<times> nat \<Rightarrow> nat \<times> nat \<Rightarrow> nat \<times> nat" where
  "zero_span i [] cur longest = longest"
| "zero_span i (s # segs) cur longest =
     (if s = 0
      then (let cur = (if snd cur = 0 then i else fst cur, snd cur + 1)
            in zero_span (i + 1) segs cur (if snd cur > snd longest then cur else longest))
      else zero_span (i + 1) segs (0, 0) longest)"

definition show_segments :: "u16 list \<Rightarrow> string" where
  "show_segments segs = join_with '':'' (map (\<lambda>w. show_base 16 (unat w)) segs)"

text \<open>The two octets of a segment, most significant first.\<close>

definition segment_octets :: "u16 \<Rightarrow> u8 \<times> u8" where
  "segment_octets w = (of_nat (unat w div 256), of_nat (unat w mod 256))"

definition octets_segment :: "nat \<Rightarrow> nat \<Rightarrow> u16" where
  "octets_segment a b = of_nat (a * 256 + b)"

definition show_ipv6 :: "u16 list \<Rightarrow> string" where
  "show_ipv6 segs =
     (if take 6 segs = [0, 0, 0, 0, 0, 0xffff]
      then (let (a, b) = segment_octets (segs ! 6); (c, d) = segment_octets (segs ! 7)
            in ''::ffff:'' @ show_ipv4 a b c d)
      else
        let (start, len) = zero_span 0 segs (0, 0) (0, 0)
        in if len > 1 then show_segments (take start segs) @ ''::'' @ show_segments (drop (start + len) segs)
           else show_segments segs)"

fun show_ip :: "ip_addr \<Rightarrow> string" where
  "show_ip (V4 a b c d) = show_ipv4 a b c d"
| "show_ip (V6 segs) = show_ipv6 segs"

section \<open>Parsing\<close>

definition parse_ipv4 :: "string \<Rightarrow> ((nat \<times> nat \<times> nat \<times> nat) \<times> string) option" where
  "parse_ipv4 s =
     Option.bind (read_octet s) (\<lambda>(a, s).
     Option.bind (read_char CHR ''.'' s) (\<lambda>s.
     Option.bind (read_octet s) (\<lambda>(b, s).
     Option.bind (read_char CHR ''.'' s) (\<lambda>s.
     Option.bind (read_octet s) (\<lambda>(c, s).
     Option.bind (read_char CHR ''.'' s) (\<lambda>s.
     Option.bind (read_octet s) (\<lambda>(d, s). Some ((a, b, c, d), s))))))))"

text \<open>\<^verbatim>\<open>read_groups\<close> with the groups it read; \<open>n\<close> is the number of groups still allowed.\<close>

fun parse_groups :: "nat \<Rightarrow> nat \<Rightarrow> nat \<Rightarrow> string \<Rightarrow> u16 list \<times> bool \<times> string" where
  "parse_groups 0 i limit s = ([], False, s)"
| "parse_groups (Suc n) i limit s =
     (case (if i < limit - 1 then Option.bind (skip_separator i s) parse_ipv4 else None) of
        Some ((a, b, c, d), t) \<Rightarrow> ([octets_segment a b, octets_segment c d], True, t)
      | None \<Rightarrow>
          (case Option.bind (skip_separator i s) (read_number 16 (Some 4) True 65536) of
             None \<Rightarrow> ([], False, s)
           | Some (g, t) \<Rightarrow> (let (gs, v4, t) = parse_groups n (i + 1) limit t in (of_nat g # gs, v4, t))))"

definition parse_ipv6 :: "string \<Rightarrow> (u16 list \<times> string) option" where
  "parse_ipv6 s =
     (let (head, head_ipv4, rest) = parse_groups 8 0 8 s
      in if length head = 8 then Some (head, rest)
         else if head_ipv4 then None
         else Option.bind (read_char CHR '':'' rest) (\<lambda>r.
              Option.bind (read_char CHR '':'' r) (\<lambda>r.
              (let limit = 8 - (length head + 1); (tail, _, r) = parse_groups limit 0 limit r
               in Some (head @ replicate (8 - length head - length tail) 0 @ tail, r)))))"

text \<open>\<^verbatim>\<open>str::parse::<IpAddr>\<close>.\<close>

definition parse_ip :: "string \<Rightarrow> ip_addr option" where
  "parse_ip s =
     (case (case parse_ipv4 s of
              Some ((a, b, c, d), t) \<Rightarrow> Some (V4 (of_nat a) (of_nat b) (of_nat c) (of_nat d), t)
            | None \<Rightarrow> map_option (\<lambda>(segs, t). (V6 segs, t)) (parse_ipv6 s)) of
        Some (ip, []) \<Rightarrow> Some ip
      | _ \<Rightarrow> None)"

section \<open>Address classes\<close>

definition v4_is_private :: "u8 \<Rightarrow> u8 \<Rightarrow> bool" where
  "v4_is_private a b = (a = 10 \<or> a = 172 \<and> 16 \<le> b \<and> b \<le> 31 \<or> a = 192 \<and> b = 168)"

definition v4_is_documentation :: "u8 \<Rightarrow> u8 \<Rightarrow> u8 \<Rightarrow> bool" where
  "v4_is_documentation a b c =
     (a = 192 \<and> b = 0 \<and> c = 2 \<or> a = 198 \<and> b = 51 \<and> c = 100 \<or> a = 203 \<and> b = 0 \<and> c = 113)"

definition is_public_ipv4 :: "u8 \<Rightarrow> u8 \<Rightarrow> u8 \<Rightarrow> u8 \<Rightarrow> bool" where
  "is_public_ipv4 a b c d =
     (if v4_is_private a b \<or> a = 127 \<or> (a = 169 \<and> b = 254) \<or>
         (a = 255 \<and> b = 255 \<and> c = 255 \<and> d = 255) \<or> v4_is_documentation a b c \<or>
         (a = 0 \<and> b = 0 \<and> c = 0 \<and> d = 0) \<or> (224 \<le> a \<and> a \<le> 239)
      then False
      else if a = 0 then False
      else if a = 100 \<and> 64 \<le> b \<and> b \<le> 127 then False
      else if a = 192 \<and> b = 0 \<and> c = 0 then False
      else if a = 198 \<and> (b = 18 \<or> b = 19) then False
      else if a \<ge> 240 then False
      else True)"

text \<open>\<^verbatim>\<open>Ipv6Addr::to_ipv4\<close>: IPv4-compatible and IPv4-mapped addresses.\<close>

definition to_ipv4 :: "u16 list \<Rightarrow> (u8 \<times> u8 \<times> u8 \<times> u8) option" where
  "to_ipv4 segs =
     (if take 5 segs = [0, 0, 0, 0, 0] \<and> (segs ! 5 = 0 \<or> segs ! 5 = 0xffff)
      then (let (a, b) = segment_octets (segs ! 6); (c, d) = segment_octets (segs ! 7) in Some (a, b, c, d))
      else None)"

definition is_public_ipv6 :: "u16 list \<Rightarrow> bool" where
  "is_public_ipv6 segs =
     (case to_ipv4 segs of
        Some (a, b, c, d) \<Rightarrow> is_public_ipv4 a b c d
      | None \<Rightarrow>
          let is_documentation = (segs ! 0 = 0x2001 \<and> segs ! 1 = 0x0db8)
          in segs \<noteq> [0, 0, 0, 0, 0, 0, 0, 1] \<and> segs \<noteq> replicate 8 0 \<and>
             unat (segs ! 0) div 256 \<noteq> 0xff \<and>
             unat (segs ! 0) div 512 \<noteq> 0x7e \<and>
             unat (segs ! 0) div 64 \<noteq> 0x3fa \<and>
             \<not> is_documentation)"

definition is_global_geo_ip :: "string \<Rightarrow> bool" where
  "is_global_geo_ip raw =
     (case parse_ip raw of
        Some (V4 a b c d) \<Rightarrow> is_public_ipv4 a b c d
      | Some (V6 segs) \<Rightarrow> is_public_ipv6 segs
      | None \<Rightarrow> False)"

definition normalize_ip_string :: "string \<Rightarrow> string option" where
  "normalize_ip_string raw = map_option show_ip (parse_ip (trim raw))"

section \<open>Numbers round trip\<close>

lemma hex_digit_table:
  "list_all (\<lambda>d. digit_value 16 (hex_digit d) = Some d) [0, 1, 2, 3, 4, 5, 6, 7, 8, 9, 10, 11, 12, 13, 14, 15]"
  by (simp add: hex_digit_def digit_value_def is_ascii_digit_def is_ascii_lower_def)

lemma digit_value_hex:
  "d < 16 \<Longrightarrow> digit_value 16 (hex_digit d) = Some d"
  "d < 10 \<Longrightarrow> digit_value 10 (hex_digit d) = Some d"
proof -
  show 16: "digit_value 16 (hex_digit d) = Some d" if "d < 16" for d
  proof -
    from that have "d \<in> set [0, 1, 2, 3, 4, 5, 6, 7, 8, 9, 10, 11, 12, 13, 14, 15]" by simp presburger
    with hex_digit_table show ?thesis by (simp only: list_all_iff)
  qed
  have "digit_value 10 c = Some d" if "digit_value 16 c = Some d" "d < 10" for c
    using that by (auto simp: digit_value_def Let_def split: option.splits if_splits)
  then show "d < 10 \<Longrightarrow> digit_value 10 (hex_digit d) = Some d" using 16 [of d] by simp
qed

lemma number_of_snoc:
  "number_of b acc (s @ [c]) = number_of b acc s * b + (case digit_value b c of None \<Rightarrow> 0 | Some d \<Rightarrow> d)"
  by (induction s arbitrary: acc) simp_all

locale number_base =
  fixes b :: nat
  assumes base: "1 < b" "b \<le> 16"
    and digits: "d < b \<Longrightarrow> digit_value b (hex_digit d) = Some d"
begin

lemma show_digits: "c \<in> set (show_base b n) \<Longrightarrow> digit_value b c \<noteq> None"
proof (induction n rule: less_induct)
  case (less n)
  show ?case
  proof (cases "n < b")
    case True
    with less.prems digits [OF True] show ?thesis by (simp add: show_base.simps [of b n])
  next
    case False
    then have "n div b < n" using base by simp
    with less.prems less.IH [of "n div b"] False digits [of "n mod b"] base show ?thesis
      by (auto simp: show_base.simps [of b n])
  qed
qed

lemma show_value: "number_of b 0 (show_base b n) = n"
proof (induction n rule: less_induct)
  case (less n)
  show ?case
  proof (cases "n < b")
    case True
    with digits [OF True] show ?thesis by (simp add: show_base.simps [of b n])
  next
    case False
    then have "n div b < n" using base by simp
    then have "number_of b 0 (show_base b (n div b)) = n div b" by (rule less.IH)
    with False base digits [of "n mod b"] show ?thesis by (simp add: show_base.simps [of b n] number_of_snoc)
  qed
qed

lemma show_nonempty [simp]: "show_base b n \<noteq> []"
  by (simp add: show_base.simps [of b n])

lemma show_length: "n < b ^ Suc k \<Longrightarrow> length (show_base b n) \<le> Suc k"
proof (induction k arbitrary: n)
  case 0
  then show ?case by (simp add: show_base.simps [of b n])
next
  case (Suc k)
  then have "n div b < b ^ Suc k" using base by (simp add: div_less_iff_less_mult mult.commute)
  with Suc.IH [of "n div b"] show ?case by (simp add: show_base.simps [of b n])
qed

lemma show_no_zero_prefix: "hd (show_base b n) = CHR ''0'' \<Longrightarrow> length (show_base b n) = 1"
proof (induction n rule: less_induct)
  case (less n)
  show ?case
  proof (cases "n < b")
    case True
    then show ?thesis by (simp add: show_base.simps [of b n])
  next
    case False
    then have div: "n div b < n" "0 < n div b" using base by (simp_all add: div_greater_zero_iff)
    have "show_base b n = show_base b (n div b) @ [hex_digit (n mod b)]" using False base by (simp add: show_base.simps [of b n])
    with less.prems have hd: "hd (show_base b (n div b)) = CHR ''0''" by simp
    with less.IH [OF div(1)] have "length (show_base b (n div b)) = 1" .
    then obtain c where c: "show_base b (n div b) = [c]" by (cases "show_base b (n div b)") auto
    with hd have "number_of b 0 (show_base b (n div b)) = (case digit_value b (CHR ''0'') of None \<Rightarrow> 0 | Some d \<Rightarrow> d)" by simp
    moreover have "digit_value b (CHR ''0'') = Some 0" using digits [of 0] base by (simp add: hex_digit_def)
    ultimately have "n div b = 0" by (simp add: show_value)
    with div(2) show ?thesis by simp
  qed
qed

lemma read_show:
  assumes "n < limit" "n < b ^ Suc k" "rest = [] \<or> digit_value b (hd rest) = None"
  shows "read_number b (Some (Suc k)) z limit (show_base b n @ rest) = Some (n, rest)"
proof -
  have "takeWhile (\<lambda>c. digit_value b c \<noteq> None) (show_base b n @ rest) = show_base b n"
    using assms(3) show_digits by (cases rest) (auto simp: takeWhile_append2 takeWhile_tail)
  with assms(1) show_length [OF assms(2)] show_no_zero_prefix [of n] show ?thesis
    by (auto simp: read_number_def Let_def show_value)
qed

end

interpretation dec: number_base 10
  by unfold_locales (simp_all add: digit_value_hex)

interpretation hex: number_base 16
  by unfold_locales (simp_all add: digit_value_hex)

section \<open>Addresses round trip\<close>

lemma parse_show_ipv4:
  assumes "rest = [] \<or> digit_value 10 (hd rest) = None"
  shows "parse_ipv4 (show_ipv4 a b c d @ rest) = Some ((unat a, unat b, unat c, unat d), rest)"
proof -
  have read: "read_octet (show_base 10 (unat w) @ t) = Some (unat w, t)"
    if "t = [] \<or> digit_value 10 (hd t) = None" for w :: u8 and t
    unfolding read_octet_def
    using dec.read_show [of "unat w" 256 2 t False] that unat_less_pow [of w] by simp
  have dot: "digit_value 10 CHR ''.'' = None" by (simp add: digit_value_def is_ascii_digit_def is_ascii_lower_def is_ascii_upper_def)
  show ?thesis
    using assms by (simp add: show_ipv4_def parse_ipv4_def read dot read_char_def)
qed

lemma parse_ipv4_dot:
  assumes "parse_ipv4 s \<noteq> None"
  shows "\<exists>t. drop (length (takeWhile (\<lambda>c. digit_value 10 c \<noteq> None) s)) s = CHR ''.'' # t"
proof -
  from assms obtain v t where "read_octet s = Some (v, t)" "read_char CHR ''.'' t \<noteq> None"
    by (auto simp: parse_ipv4_def split: bind_splits)
  then show ?thesis
    by (auto simp: read_octet_def read_number_def Let_def read_char_def split: if_splits list.splits)
qed

lemma hex_no_dot: "digit_value 16 c \<noteq> None \<Longrightarrow> c \<noteq> CHR ''.'' \<and> c \<noteq> CHR '':''"
  by (auto simp: digit_value_def is_ascii_digit_def is_ascii_lower_def is_ascii_upper_def)

lemma colon_not_digit: "digit_value 10 CHR '':'' = None" "digit_value 16 CHR '':'' = None"
  by (simp_all add: digit_value_def is_ascii_digit_def is_ascii_lower_def is_ascii_upper_def)

lemma parse_ipv4_hex:
  assumes "\<forall>c \<in> set h. digit_value 16 c \<noteq> None" "rest = [] \<or> hd rest = CHR '':''"
  shows "parse_ipv4 (h @ rest) = None"
proof (rule ccontr)
  assume "parse_ipv4 (h @ rest) \<noteq> None"
  then obtain t where t: "drop (length (takeWhile (\<lambda>c. digit_value 10 c \<noteq> None) (h @ rest))) (h @ rest) = CHR ''.'' # t"
    using parse_ipv4_dot by blast
  let ?p = "takeWhile (\<lambda>c. digit_value 10 c \<noteq> None)"
  have "?p (h @ rest) = ?p h"
    using assms(2) colon_not_digit(1)
    by (cases rest) (auto simp: takeWhile_append takeWhile_tail intro!: takeWhile_eq_all_conv [THEN iffD2, symmetric])
  with t have d: "drop (length (?p h)) (h @ rest) = CHR ''.'' # t" by simp
  have "length (?p h) \<le> length h" by (rule length_takeWhile_le)
  with d have d': "drop (length (?p h)) h @ rest = CHR ''.'' # t" by simp
  show False
  proof (cases "drop (length (?p h)) h")
    case Nil
    with d' assms(2) show False by auto
  next
    case (Cons c cs)
    then have "c \<in> set h" by (metis in_set_dropD list.set_intros(1))
    with Cons d' assms(1) hex_no_dot show False by auto
  qed
qed

text \<open>What ends a list of groups: the end of the text, or the two colons.\<close>

definition stops :: "string \<Rightarrow> bool" where
  "stops rest = (rest = [] \<or> (\<exists>r. rest = '':'' @ '':'' @ r))"

lemma read_number_colon: "read_number b m z l (CHR '':'' # s) = None" if "b = 10 \<or> b = 16"
  using that colon_not_digit by (auto simp: read_number_def)

lemma parse_ipv4_colon: "parse_ipv4 (CHR '':'' # s) = None"
  by (simp add: parse_ipv4_def read_octet_def read_number_colon)

lemma parse_groups_stop: "stops rest \<Longrightarrow> parse_groups n i limit rest = ([], False, rest)"
proof (cases n)
  case (Suc n')
  assume "stops rest"
  moreover have "parse_ipv4 [] = None" "read_number 16 m z l [] = None" for m z l
    by (simp_all add: parse_ipv4_def read_octet_def read_number_def)
  ultimately show ?thesis
    by (auto simp: Suc stops_def skip_separator_def read_char_def parse_ipv4_colon read_number_colon split: option.split)
qed simp

lemma parse_groups_show:
  assumes "length gs \<le> n" "stops rest"
  shows "parse_groups n i limit ((if 0 < i \<and> gs \<noteq> [] then '':'' else []) @ show_segments gs @ rest) = (gs, False, rest)"
  using assms(1)
proof (induction gs arbitrary: n i)
  case Nil
  then show ?case using parse_groups_stop [OF assms(2)] by (simp add: show_segments_def)
next
  case (Cons g gs)
  then obtain n' where n: "n = Suc n'" "length gs \<le> n'" by (cases n) auto
  let ?tail = "(if gs \<noteq> [] then '':'' else []) @ show_segments gs @ rest"
  have show_seg: "show_segments (g # gs) @ rest = show_base 16 (unat g) @ ?tail"
    by (cases gs) (simp_all add: show_segments_def)
  have tail: "?tail = [] \<or> hd ?tail = CHR '':''"
    using assms(2) by (cases gs) (auto simp: stops_def show_segments_def)
  have skip: "skip_separator i ((if 0 < i \<and> g # gs \<noteq> [] then '':'' else []) @ show_segments (g # gs) @ rest) =
      Some (show_base 16 (unat g) @ ?tail)"
    unfolding show_seg by (simp add: skip_separator_def read_char_def)
  have v4: "parse_ipv4 (show_base 16 (unat g) @ ?tail) = None"
    using hex.show_digits tail by (intro parse_ipv4_hex) auto
  have num: "read_number 16 (Some 4) True 65536 (show_base 16 (unat g) @ ?tail) = Some (unat g, ?tail)"
    using hex.read_show [of "unat g" 65536 3 ?tail True] unat_less_pow [of g] tail colon_not_digit(2)
    by (elim disjE) simp_all
  have "parse_groups n' (i + 1) limit ?tail = (gs, False, rest)"
    using Cons.IH [OF n(2), of "i + 1"] by simp
  then show ?case
    unfolding n(1) parse_groups.simps skip by (simp add: v4 num)
qed

definition span_ok :: "u16 list \<Rightarrow> nat \<times> nat \<Rightarrow> bool" where
  "span_ok segs sp = (fst sp + snd sp \<le> length segs \<and> (\<forall>j. fst sp \<le> j \<longrightarrow> j < fst sp + snd sp \<longrightarrow> segs ! j = 0))"

lemma zero_span_ok:
  assumes "length pre = i" "span_ok pre longest" "span_ok pre cur" "snd cur \<noteq> 0 \<Longrightarrow> fst cur + snd cur = i"
  shows "span_ok (pre @ segs) (zero_span i segs cur longest)"
  using assms
proof (induction segs arbitrary: pre i cur longest)
  case Nil
  then show ?case by simp
next
  case (Cons s segs)
  have keep: "span_ok (pre @ [s]) sp" if "span_ok pre sp" for sp
    using that by (auto simp: span_ok_def nth_append)
  show ?case
  proof (cases "s = 0")
    case True
    let ?cur = "(if snd cur = 0 then i else fst cur, snd cur + 1)"
    have cur: "span_ok (pre @ [s]) ?cur"
      using Cons.prems True by (auto simp: span_ok_def nth_append less_Suc_eq)
    have stop: "fst ?cur + snd ?cur = i + 1" using Cons.prems(4) by auto
    have "span_ok ((pre @ [s]) @ segs) (zero_span (i + 1) segs ?cur (if snd ?cur > snd longest then ?cur else longest))"
      by (rule Cons.IH) (use Cons.prems cur keep stop in auto)
    then show ?thesis unfolding zero_span.simps Let_def using True by (simp split del: if_split)
  next
    case False
    have "span_ok ((pre @ [s]) @ segs) (zero_span (i + 1) segs (0, 0) longest)"
      by (rule Cons.IH) (use Cons.prems keep in \<open>auto simp: span_ok_def [of _ "(0, 0)"]\<close>)
    with False show ?thesis by simp
  qed
qed

lemma split_span:
  assumes "span_ok segs (start, len)"
  shows "take start segs @ replicate len 0 @ drop (start + len) segs = segs"
proof (rule nth_equalityI)
  from assms have le: "start + len \<le> length segs" by (simp add: span_ok_def)
  then show "length (take start segs @ replicate len 0 @ drop (start + len) segs) = length segs" by simp
  fix j assume "j < length (take start segs @ replicate len 0 @ drop (start + len) segs)"
  then show "(take start segs @ replicate len 0 @ drop (start + len) segs) ! j = segs ! j"
    using assms le by (auto simp: nth_append span_ok_def)
qed

lemma octets_of_segment: "octets_segment (unat (fst (segment_octets w))) (unat (snd (segment_octets w))) = w"
proof -
  have "unat w div 256 < 256" "unat w mod 256 < 256" using unat_less_pow [of w] by (simp_all add: div_less_iff_less_mult)
  then have "unat (of_nat (unat w div 256) :: u8) = unat w div 256" "unat (of_nat (unat w mod 256) :: u8) = unat w mod 256"
    by (simp_all add: unat_of_nat)
  then show ?thesis by (simp add: octets_segment_def segment_octets_def)
qed

lemma parse_mapped:
  "parse_ipv6 (''::ffff:'' @ show_ipv4 a b c d) =
     Some ([0, 0, 0, 0, 0, 0xffff, octets_segment (unat a) (unat b), octets_segment (unat c) (unat d)], [])"
proof -
  let ?v4 = "show_ipv4 a b c d"
  have ffff: "show_base 16 65535 = ''ffff''" by (simp add: show_base.simps hex_digit_def)
  have head: "parse_groups 8 0 8 (''::ffff:'' @ ?v4) = ([], False, ''::ffff:'' @ ?v4)"
    by (rule parse_groups_stop) (simp add: stops_def)
  have hex: "\<forall>h \<in> set ''ffff''. digit_value 16 h \<noteq> None" using hex.show_digits [of _ 65535] unfolding ffff by blast
  have no4: "parse_ipv4 (''ffff'' @ CHR '':'' # ?v4) = None" by (rule parse_ipv4_hex [OF hex]) simp
  have num: "read_number 16 (Some 4) True 65536 (''ffff'' @ CHR '':'' # ?v4) = Some (65535, CHR '':'' # ?v4)"
    using hex.read_show [of 65535 65536 3 "CHR '':'' # ?v4" True] by (simp add: ffff colon_not_digit)
  have v4: "parse_ipv4 ?v4 = Some ((unat a, unat b, unat c, unat d), [])" using parse_show_ipv4 [of "[]"] by simp
  have zeros: "replicate 5 (0 :: u16) = [0, 0, 0, 0, 0]" by (simp add: numeral_eq_Suc)
  have "parse_groups (Suc (Suc 5)) 0 7 (''ffff'' @ CHR '':'' # ?v4) =
      ([0xffff, octets_segment (unat a) (unat b), octets_segment (unat c) (unat d)], True, [])"
    unfolding parse_groups.simps using no4 num v4 by (simp add: skip_separator_def read_char_def)
  then have tail: "parse_groups 7 0 7 (''ffff'' @ CHR '':'' # ?v4) =
      ([0xffff, octets_segment (unat a) (unat b), octets_segment (unat c) (unat d)], True, [])"
    by (simp only: Suc_numeral semiring_norm)
  show ?thesis
    unfolding parse_ipv6_def head using tail zeros by (simp add: read_char_def)
qed

lemma parse_show_ipv6:
  assumes "length segs = 8"
  shows "parse_ipv6 (show_ipv6 segs) = Some (segs, [])"
proof (cases "take 6 segs = [0, 0, 0, 0, 0, 0xffff]")
  case True
  have "segs = take 6 segs @ [segs ! 6, segs ! 7]"
    using assms by (intro nth_equalityI) (auto simp: nth_append less_Suc_eq numeral_eq_Suc)
  with True have segs: "segs = [0, 0, 0, 0, 0, 0xffff, segs ! 6, segs ! 7]" by simp
  have "show_ipv6 segs = ''::ffff:'' @ show_ipv4 (fst (segment_octets (segs ! 6))) (snd (segment_octets (segs ! 6)))
      (fst (segment_octets (segs ! 7))) (snd (segment_octets (segs ! 7)))"
    using True by (simp add: show_ipv6_def split_beta Let_def)
  then show ?thesis using segs by (simp only: parse_mapped octets_of_segment)
next
  case False
  obtain start len where sp: "zero_span 0 segs (0, 0) (0, 0) = (start, len)" by fastforce
  have ok: "span_ok segs (start, len)"
    using zero_span_ok [of "[]" 0 "(0, 0)" "(0, 0)" segs] by (simp add: sp span_ok_def [of "[]"])
  show ?thesis
  proof (cases "len > 1")
    case True
    let ?head = "take start segs" and ?tail = "drop (start + len) segs"
    from ok assms have le: "start + len \<le> 8" by (simp add: span_ok_def)
    have shown: "show_ipv6 segs = show_segments ?head @ ''::'' @ show_segments ?tail"
      using False True by (simp add: show_ipv6_def sp)
    have head: "parse_groups 8 0 8 (show_ipv6 segs) = (?head, False, ''::'' @ show_segments ?tail)"
      using parse_groups_show [of ?head 8 "''::'' @ show_segments ?tail" 0 8] assms le by (simp add: shown stops_def)
    have tail: "parse_groups (7 - start) 0 (7 - start) (show_segments ?tail) = (?tail, False, [])"
      using parse_groups_show [of ?tail "7 - start" "[]" 0] assms le True by (simp add: stops_def)
    have len: "min 8 start = start" "8 - (start + (8 - (start + len))) = len" using le by simp_all
    have "parse_ipv6 (show_ipv6 segs) = Some (?head @ replicate len 0 @ ?tail, [])"
      using le True unfolding parse_ipv6_def head by (simp add: assms len tail read_char_def Let_def)
    then show ?thesis by (simp add: split_span [OF ok])
  next
    case len: False
    then have "show_ipv6 segs = show_segments segs" using False by (simp add: show_ipv6_def sp)
    then have "parse_groups 8 0 8 (show_ipv6 segs) = (segs, False, [])"
      using parse_groups_show [of segs 8 "[]" 0 8] assms by (simp add: stops_def)
    then show ?thesis using assms by (simp add: parse_ipv6_def)
  qed
qed

lemma show_ipv6_not_ipv4:
  assumes "length segs = 8"
  shows "parse_ipv4 (show_ipv6 segs) = None"
proof (cases "take 6 segs = [0, 0, 0, 0, 0, 0xffff]")
  case True
  then show ?thesis by (simp add: show_ipv6_def split_beta Let_def parse_ipv4_colon)
next
  case False
  have first: "parse_ipv4 (show_segments (g # gs) @ rest) = None" if "rest = [] \<or> hd rest = CHR '':''" for g gs rest
  proof -
    have "show_segments (g # gs) @ rest = show_base 16 (unat g) @ ((if gs \<noteq> [] then '':'' else []) @ show_segments gs @ rest)"
      by (cases gs) (simp_all add: show_segments_def)
    moreover have "(if gs \<noteq> [] then '':'' else []) @ show_segments gs @ rest = [] \<or>
        hd ((if gs \<noteq> [] then '':'' else []) @ show_segments gs @ rest) = CHR '':''"
      using that by (cases gs) (auto simp: show_segments_def)
    ultimately show ?thesis using hex.show_digits by (simp only:) (intro parse_ipv4_hex, auto)
  qed
  obtain start len where sp: "zero_span 0 segs (0, 0) (0, 0) = (start, len)" by fastforce
  have shown: "show_ipv6 segs = (if len > 1 then show_segments (take start segs) @ ''::'' @ show_segments (drop (start + len) segs)
      else show_segments segs)"
    using False by (simp add: show_ipv6_def sp)
  show ?thesis
  proof (cases "len > 1")
    case True
    then show ?thesis
      using first [of "''::'' @ show_segments (drop (start + len) segs)"] shown
      by (cases "take start segs") (simp_all add: parse_ipv4_colon show_segments_def [of "[]"])
  next
    case False
    then show ?thesis using first [of "[]"] shown assms by (cases segs) simp_all
  qed
qed

definition ip_ok :: "ip_addr \<Rightarrow> bool" where
  "ip_ok ip = (case ip of V4 _ _ _ _ \<Rightarrow> True | V6 segs \<Rightarrow> length segs = 8)"

lemma parse_show_ip: "ip_ok ip \<Longrightarrow> parse_ip (show_ip ip) = Some ip"
proof (cases ip)
  case (V4 a b c d)
  then show ?thesis using parse_show_ipv4 [of "[]" a b c d] by (simp add: parse_ip_def)
next
  case (V6 segs)
  assume "ip_ok ip"
  with V6 show ?thesis by (simp add: ip_ok_def parse_ip_def parse_show_ipv6 show_ipv6_not_ipv4)
qed

lemma parse_groups_length: "n + i = limit \<Longrightarrow> parse_groups n i limit s = (gs, v4, t) \<Longrightarrow> length gs \<le> n"
proof (induction n i limit s arbitrary: gs v4 t rule: parse_groups.induct)
  case (2 n i limit s)
  show ?case
  proof (cases "if i < limit - 1 then Option.bind (skip_separator i s) parse_ipv4 else None")
    case v4: (Some r)
    then have "i < limit - 1" by (simp split: if_splits)
    with v4 "2.prems" show ?thesis by (auto split: prod.splits)
  next
    case v4: None
    show ?thesis
    proof (cases "Option.bind (skip_separator i s) (read_number 16 (Some 4) True 65536)")
      case None
      with v4 "2.prems" show ?thesis by simp
    next
      case (Some r)
      obtain g u where r: "r = (g, u)" by (cases r)
      obtain gs' b' t' where rest: "parse_groups n (i + 1) limit u = (gs', b', t')" by (metis prod_cases3)
      from Some r v4 "2.prems" rest have "gs = of_nat g # gs'" by simp
      moreover have "length gs' \<le> n"
        using "2.IH" [OF v4 Some [unfolded r] refl _ rest] "2.prems"(1) by simp
      ultimately show ?thesis by simp
    qed
  qed
qed simp

lemma parse_ipv6_length: "parse_ipv6 s = Some (segs, t) \<Longrightarrow> length segs = 8"
proof -
  assume parse: "parse_ipv6 s = Some (segs, t)"
  obtain head b r where h: "parse_groups 8 0 8 s = (head, b, r)" by (metis prod_cases3)
  have lh: "length head \<le> 8" using parse_groups_length [OF _ h] by simp
  show ?thesis
  proof (cases "length head = 8")
    case True
    with parse h show ?thesis by (simp add: parse_ipv6_def)
  next
    case False
    let ?l = "8 - (length head + 1)"
    from parse h False obtain r' tail c u where tail: "parse_groups ?l 0 ?l r' = (tail, c, u)"
      and segs: "segs = head @ replicate (8 - length head - length tail) 0 @ tail"
      by (auto simp: parse_ipv6_def Let_def split: if_splits bind_splits prod.splits)
    have "length tail \<le> ?l" using parse_groups_length [OF _ tail] by simp
    with segs lh False show ?thesis by simp
  qed
qed

lemma parse_ip_ok: "parse_ip s = Some ip \<Longrightarrow> ip_ok ip"
  by (auto simp: parse_ip_def ip_ok_def dest: parse_ipv6_length split: option.splits list.splits prod.splits)

text \<open>The text of an address has no white space to trim.\<close>

definition plain :: "char \<Rightarrow> bool" where
  "plain c = (digit_value 16 c \<noteq> None \<or> c = CHR ''.'' \<or> c = CHR '':'')"

lemma plain_range: "plain c \<Longrightarrow> 32 < (of_char c :: nat) \<and> of_char c < (128 :: nat)"
  by (auto simp: plain_def digit_value_def is_ascii_digit_def is_ascii_lower_def is_ascii_upper_def Let_def split: if_splits)

lemma strip_one_None: "(\<And>p. p \<in> set ps \<Longrightarrow> s = [] \<or> hd p \<noteq> hd s) \<Longrightarrow> strip_one ps s = None"
proof (induction ps)
  case (Cons p ps)
  have "take (length p) s \<noteq> p" if "p \<noteq> []"
    using Cons.prems [of p] that by (cases s; cases p) auto
  with Cons show ?case by auto
qed simp

lemma white_space_ends:
  "list_all (\<lambda>p. let n = of_char (hd p) :: nat in n \<le> 32 \<or> 128 \<le> n) white_space"
  "list_all (\<lambda>p. let n = of_char (hd p) :: nat in n \<le> 32 \<or> 128 \<le> n) (map rev white_space)"
  by (simp_all add: white_space_def)

lemma trim_plain:
  assumes "list_all plain s"
  shows "trim s = s"
proof -
  have start: "strip_one white_space s = None"
  proof (rule strip_one_None)
    fix p assume "p \<in> set white_space"
    with white_space_ends(1) assms plain_range [of "hd s"] show "s = [] \<or> hd p \<noteq> hd s"
      by (cases s) (auto simp: list_all_iff Let_def)
  qed
  have back_: "strip_one (map rev white_space) (rev s) = None"
  proof (rule strip_one_None)
    fix p assume "p \<in> set (map rev white_space)"
    moreover have "rev s \<noteq> [] \<Longrightarrow> plain (hd (rev s))" using assms by (metis hd_in_set list_all_iff set_rev)
    ultimately show "rev s = [] \<or> hd p \<noteq> hd (rev s)"
      using white_space_ends(2) plain_range [of "hd (rev s)"] by (auto simp: list_all_iff Let_def)
  qed
  show ?thesis
    by (simp add: trim_def trim_start_fixed [OF start] trim_end_def strip_all_fixed [OF back_])
qed

lemma plain_join: "list_all (list_all plain) xs \<Longrightarrow> list_all plain sep \<Longrightarrow> list_all plain (join_with sep xs)"
  by (induction sep xs rule: join_with.induct) auto

lemma plain_base: "b = 10 \<or> b = 16 \<Longrightarrow> list_all plain (show_base b n)"
proof -
  assume "b = 10 \<or> b = 16"
  moreover have "digit_value 16 c \<noteq> None" if "digit_value 10 c \<noteq> None" for c
    using that by (auto simp: digit_value_def Let_def split: option.splits if_splits)
  ultimately show ?thesis
    using dec.show_digits [of _ n] hex.show_digits [of _ n] unfolding list_all_iff plain_def by metis
qed

lemma plain_show_ip: "list_all plain (show_ip ip)"
proof -
  have marks: "plain CHR ''.''" "plain CHR '':''" "plain CHR ''f''"
    by (simp_all add: plain_def digit_value_def is_ascii_digit_def is_ascii_lower_def)
  have v4: "list_all plain (show_ipv4 a b c d)" for a b c d
    unfolding show_ipv4_def by (rule plain_join) (simp_all add: plain_base marks)
  have segs: "list_all plain (show_segments gs)" for gs
    unfolding show_segments_def by (rule plain_join) (simp_all add: list_all_iff [of "list_all plain"] plain_base marks)
  show ?thesis
    by (cases ip) (simp_all add: v4 segs marks show_ipv6_def Let_def split_beta)
qed

text \<open>
  C26: the canonical text of an address parses to that address, so normalising an address string gives a fixed
  point, and two strings have the same normal form exactly when they denote the same address.
\<close>

theorem normalize_ip_roundtrip:
  "(ip_ok ip \<longrightarrow> parse_ip (show_ip ip) = Some ip) \<and>
   (normalize_ip_string raw = Some s \<longrightarrow>
      normalize_ip_string s = Some s \<and>
      (normalize_ip_string raw' = Some s \<longleftrightarrow> parse_ip (trim raw') = parse_ip (trim raw)))"
proof (intro conjI impI)
  show "ip_ok ip \<Longrightarrow> parse_ip (show_ip ip) = Some ip" by (rule parse_show_ip)
  assume "normalize_ip_string raw = Some s"
  then obtain ip where ip: "parse_ip (trim raw) = Some ip" and s: "s = show_ip ip"
    by (auto simp: normalize_ip_string_def)
  note back_ = parse_show_ip [OF parse_ip_ok [OF ip]]
  show "normalize_ip_string s = Some s"
    by (simp add: normalize_ip_string_def s trim_plain plain_show_ip back_)
  show "normalize_ip_string raw' = Some s \<longleftrightarrow> parse_ip (trim raw') = parse_ip (trim raw)"
  proof
    assume "normalize_ip_string raw' = Some s"
    then obtain ip' where ip': "parse_ip (trim raw') = Some ip'" and "show_ip ip' = show_ip ip"
      by (auto simp: normalize_ip_string_def s)
    with back_ parse_show_ip [OF parse_ip_ok [OF ip']] ip show "parse_ip (trim raw') = parse_ip (trim raw)" by simp
  qed (simp add: normalize_ip_string_def ip s)
qed

theorem normalize_ip_roundtrip_witness:
  "parse_ip ''2001:db8::1'' = Some (V6 [0x2001, 0xdb8, 0, 0, 0, 0, 0, 1]) \<and>
   normalize_ip_string ''2001:db8::1'' = Some ''2001:db8::1''"
proof -
  let ?ip = "V6 [0x2001, 0xdb8, 0, 0, 0, 0, 0, 1]"
  have shown: "show_ip ?ip = ''2001:db8::1''"
    by (simp add: show_ipv6_def Let_def show_segments_def show_base.simps hex_digit_def)
  have ok: "ip_ok ?ip" by (simp add: ip_ok_def)
  have parsed: "parse_ip ''2001:db8::1'' = Some ?ip"
    using normalize_ip_roundtrip [THEN conjunct1, of ?ip] ok unfolding shown by simp
  have "normalize_ip_string ''2001:db8::1'' = Some ''2001:db8::1''"
    using trim_plain [OF plain_show_ip, of ?ip] parsed shown by (simp add: normalize_ip_string_def)
  with parsed normalize_ip_roundtrip show ?thesis by blast
qed

section \<open>Special-purpose blocks\<close>

text \<open>The IPv4 blocks that are not public, as address and prefix length, and membership in a block.\<close>

definition special_blocks :: "(nat \<times> nat) list" where
  "special_blocks =
     [(0 * 2 ^ 24, 8), (10 * 2 ^ 24, 8), (100 * 2 ^ 24 + 64 * 2 ^ 16, 10), (127 * 2 ^ 24, 8),
      (169 * 2 ^ 24 + 254 * 2 ^ 16, 16), (172 * 2 ^ 24 + 16 * 2 ^ 16, 12), (192 * 2 ^ 24, 24),
      (192 * 2 ^ 24 + 2 * 2 ^ 8, 24), (192 * 2 ^ 24 + 168 * 2 ^ 16, 16), (198 * 2 ^ 24 + 18 * 2 ^ 16, 15),
      (198 * 2 ^ 24 + 51 * 2 ^ 16 + 100 * 2 ^ 8, 24), (203 * 2 ^ 24 + 113 * 2 ^ 8, 24), (224 * 2 ^ 24, 4),
      (240 * 2 ^ 24, 4)]"

definition in_block :: "nat \<Rightarrow> nat \<times> nat \<Rightarrow> bool" where
  "in_block addr block = (addr div 2 ^ (32 - snd block) = fst block div 2 ^ (32 - snd block))"

definition v4_number :: "u8 \<Rightarrow> u8 \<Rightarrow> u8 \<Rightarrow> u8 \<Rightarrow> nat" where
  "v4_number a b c d = unat a * 2 ^ 24 + unat b * 2 ^ 16 + unat c * 2 ^ 8 + unat d"

lemma prefix_of_address:
  fixes A B C D :: nat
  assumes "B < 256" "C < 256" "D < 256"
  defines "n \<equiv> A * 2 ^ 24 + B * 2 ^ 16 + C * 2 ^ 8 + D"
  shows "n div 2 ^ 8 = A * 65536 + B * 256 + C" "n div 2 ^ 16 = A * 256 + B" "n div 2 ^ 17 = (A * 256 + B) div 2"
    "n div 2 ^ 20 = (A * 256 + B) div 16" "n div 2 ^ 22 = (A * 256 + B) div 64" "n div 2 ^ 24 = A" "n div 2 ^ 28 = A div 16"
proof -
  have "n = (A * 65536 + B * 256 + C) * 2 ^ 8 + D" by (simp add: n_def)
  with assms(3) show "n div 2 ^ 8 = A * 65536 + B * 256 + C" by simp
  have "n = (A * 256 + B) * 2 ^ 16 + (C * 2 ^ 8 + D)" by (simp add: n_def)
  moreover have "C * 2 ^ 8 + D < 2 ^ 16" using assms by simp
  ultimately show 16: "n div 2 ^ 16 = A * 256 + B" by simp
  have d: "n div 2 ^ (16 + k) = (A * 256 + B) div 2 ^ k" for k
    unfolding power_add div_mult2_eq 16 ..
  show "n div 2 ^ 17 = (A * 256 + B) div 2" using d [of 1] by simp
  show "n div 2 ^ 20 = (A * 256 + B) div 16" using d [of 4] by simp
  show "n div 2 ^ 22 = (A * 256 + B) div 64" using d [of 6] by simp
  show "n div 2 ^ 24 = A" using d [of 8] assms(1) by simp
  have "(A * 256 + B) div 2 ^ 12 = A div 16"
    using assms(1) div_mult2_eq [of "A * 256 + B" 256 16] by simp
  then show "n div 2 ^ 28 = A div 16" using d [of 12] by simp
qed

lemma div_range: "0 < n \<Longrightarrow> m div n = k \<longleftrightarrow> n * k \<le> m \<and> m < n * Suc k" for m n k :: nat
  using dividend_less_times_div [of n m] by (auto intro: div_nat_eqI)

lemma digit_unique:
  fixes A B m n :: nat
  assumes "B < 256" "n < 256"
  shows "A * 256 + B = m * 256 + n \<longleftrightarrow> A = m \<and> B = n"
proof
  assume eq: "A * 256 + B = m * 256 + n"
  have "(A * 256 + B) div 256 = A" "(m * 256 + n) div 256 = m" using assms by simp_all
  with eq have "A = m" by metis
  with eq show "A = m \<and> B = n" by simp
qed simp

lemma block_conditions:
  fixes A B :: nat
  assumes "B < 256"
  shows "(A * 256 + B) div 64 = 401 \<longleftrightarrow> A = 100 \<and> 64 \<le> B \<and> B \<le> 127"
    "(A * 256 + B) div 16 = 2753 \<longleftrightarrow> A = 172 \<and> 16 \<le> B \<and> B \<le> 31"
    "(A * 256 + B) div 2 = 25353 \<longleftrightarrow> A = 198 \<and> (B = 18 \<or> B = 19)"
    "A div 16 = 14 \<longleftrightarrow> 224 \<le> A \<and> A \<le> 239"
proof -
  have hi: "A * 256 + B < x * 256 + 256 \<Longrightarrow> x * 256 \<le> A * 256 + B \<Longrightarrow> A = x" for x using assms by linarith
  show "(A * 256 + B) div 64 = 401 \<longleftrightarrow> A = 100 \<and> 64 \<le> B \<and> B \<le> 127"
    using hi [of 100] by (auto simp: div_range)
  show "(A * 256 + B) div 16 = 2753 \<longleftrightarrow> A = 172 \<and> 16 \<le> B \<and> B \<le> 31"
    using hi [of 172] by (auto simp: div_range)
  show "(A * 256 + B) div 2 = 25353 \<longleftrightarrow> A = 198 \<and> (B = 18 \<or> B = 19)"
    using hi [of 198] by (auto simp: div_range)
  show "A div 16 = 14 \<longleftrightarrow> 224 \<le> A \<and> A \<le> 239" by (auto simp: div_range)
qed

lemma block_24:
  fixes A B C :: nat
  assumes "B < 256" "C < 256" "n < 256" "p < 256"
  shows "A * 65536 + B * 256 + C = m * 65536 + n * 256 + p \<longleftrightarrow> A = m \<and> B = n \<and> C = p"
  using digit_unique [OF assms(2,4), of "A * 256 + B" "m * 256 + n"] digit_unique [OF assms(1,3), of A m]
  by (simp add: algebra_simps)

lemma octet_compare:
  "w = numeral k \<longleftrightarrow> unat w = unat (numeral k :: u8)" "w = 0 \<longleftrightarrow> unat w = 0"
  "numeral k \<le> w \<longleftrightarrow> unat (numeral k :: u8) \<le> unat w" "w \<le> numeral k \<longleftrightarrow> unat w \<le> unat (numeral k :: u8)" for w :: u8
  by (simp_all add: word_le_nat_alt unsigned_word_eqI word_unat_eq_iff)

text \<open>
  C27: an IPv4 address is looked up in the geo database exactly when it lies in none of the special-purpose blocks:
  "this network", private, shared, loopback, link-local, protocol assignments, the three documentation blocks,
  benchmarking, multicast and the reserved block with the broadcast address.
\<close>

theorem public_ipv4_exact:
  "is_public_ipv4 a b c d \<longleftrightarrow> \<not> list_ex (in_block (v4_number a b c d)) special_blocks"
proof -
  let ?A = "unat a" and ?B = "unat b" and ?C = "unat c" and ?D = "unat d"
  have lt: "?A < 256" "?B < 256" "?C < 256" "?D < 256"
    using unat_less_pow [of a] unat_less_pow [of b] unat_less_pow [of c] unat_less_pow [of d] by simp_all
  note pre = prefix_of_address [OF lt(2-4), of ?A]
  have last: "?A div 16 = 15 \<longleftrightarrow> 240 \<le> ?A" using lt(1) by (auto simp: div_range)
  have blocks: "list_ex (in_block (v4_number a b c d)) special_blocks \<longleftrightarrow>
      (?A = 0 \<or> ?A = 10 \<or> (?A = 100 \<and> 64 \<le> ?B \<and> ?B \<le> 127) \<or> ?A = 127 \<or> (?A = 169 \<and> ?B = 254) \<or>
         (?A = 172 \<and> 16 \<le> ?B \<and> ?B \<le> 31) \<or> (?A = 192 \<and> ?B = 0 \<and> ?C = 0) \<or> (?A = 192 \<and> ?B = 0 \<and> ?C = 2) \<or>
         (?A = 192 \<and> ?B = 168) \<or> (?A = 198 \<and> (?B = 18 \<or> ?B = 19)) \<or> (?A = 198 \<and> ?B = 51 \<and> ?C = 100) \<or>
         (?A = 203 \<and> ?B = 0 \<and> ?C = 113) \<or> (224 \<le> ?A \<and> ?A \<le> 239) \<or> 240 \<le> ?A)"
    unfolding special_blocks_def in_block_def v4_number_def fst_conv snd_conv
    using block_24 [OF lt(2,3), of 0 0 ?A 192] block_24 [OF lt(2,3), of 0 2 ?A 192] block_24 [OF lt(2,3), of 51 100 ?A 198]
      block_24 [OF lt(2,3), of 0 113 ?A 203] digit_unique [OF lt(2), of 254 ?A 169] digit_unique [OF lt(2), of 168 ?A 192]
    by (simp add: pre [simplified] block_conditions [OF lt(2)] block_conditions(4) last)
  show ?thesis
    unfolding blocks is_public_ipv4_def v4_is_private_def v4_is_documentation_def octet_compare by auto
qed

end
