(* ===== verification/Xp_Inbound_Ip.thy ===== *)
theory Xp_Inbound_Ip
  imports Xp_Window Xp_Net Xp_State
begin

text \<open>
  The inbound IP usage of \<^verbatim>\<open>inbound_ip_usage.rs\<close>: which client addresses used which access membership
  in which minute of the last seven days. The component keeps one bitmap per membership and address; the
  theory gives the minutes a usage record shows and proves that recording a minute adds exactly the sampled
  addresses and forgets exactly the minutes that left the window.

  A \<^verbatim>\<open>DateTime<Utc>\<close> is its number of nanoseconds since the epoch. Formatting and parsing of time stamps
  belong to \<^verbatim>\<open>chrono\<close> and are the two functions of the record \<open>clock\<close>; the geo resolver is an
  argument, as in the source.
\<close>

section \<open>Data\<close>

record clock =
  ck_to_rfc3339 :: "int \<Rightarrow> string"
  ck_parse_rfc3339 :: "string \<Rightarrow> int option"

definition nanos_per_minute :: int where
  "nanos_per_minute = 60 * 1000000000"

definition floor_minute :: "int \<Rightarrow> int" where
  "floor_minute t = t - t mod nanos_per_minute"

definition rfc3339_minute :: "clock \<Rightarrow> int \<Rightarrow> string" where
  "rfc3339_minute clk t = ck_to_rfc3339 clk (floor_minute t)"

definition parse_minute :: "clock \<Rightarrow> string \<Rightarrow> int option" where
  "parse_minute clk raw = map_option floor_minute (ck_parse_rfc3339 clk raw)"

text \<open>\<^verbatim>\<open>signed_duration_since(..).num_minutes()\<close>: whole minutes, rounded towards zero.\<close>

definition num_minutes :: "int \<Rightarrow> int" where
  "num_minutes d = sgn d * (\<bar>d\<bar> div nanos_per_minute)"

definition INBOUND_IP_USAGE_SCHEMA_VERSION :: u32 where
  "INBOUND_IP_USAGE_SCHEMA_VERSION = 1"

definition default_geo :: ip_geo where
  "default_geo = \<lparr>geo_country = [], geo_region = [], geo_city = [], geo_operator = []\<rparr>"

definition geo_is_default :: "ip_geo \<Rightarrow> bool" where
  "geo_is_default g = (geo_country g = [] \<and> geo_region g = [] \<and> geo_city g = [] \<and> geo_operator g = [])"

record ip_record =
  ir_bitmap :: "u8 list"
  ir_minutes :: u32
  ir_first_seen_at :: string
  ir_last_seen_at :: string
  ir_geo :: ip_geo

definition default_ip_record :: ip_record where
  "default_ip_record = \<lparr>ir_bitmap = zero_bitmap, ir_minutes = 0, ir_first_seen_at = [], ir_last_seen_at = [],
     ir_geo = default_geo\<rparr>"

record ip_membership =
  im_user_id :: string
  im_node_id :: string
  im_endpoint_id :: string
  im_endpoint_tag :: string
  im_ips :: "(string, ip_record) btree_map"

record ip_usage =
  iu_schema_version :: u32
  iu_generated_at :: string
  iu_minutes_window :: nat
  iu_latest_minute :: "string option"
  iu_online_stats_unavailable :: bool
  iu_memberships :: "(string, ip_membership) btree_map"

definition default_ip_usage :: ip_usage where
  "default_ip_usage = \<lparr>iu_schema_version = INBOUND_IP_USAGE_SCHEMA_VERSION, iu_generated_at = [],
     iu_minutes_window = MINUTES_WINDOW, iu_latest_minute = None, iu_online_stats_unavailable = False,
     iu_memberships = bt_empty\<rparr>"

record ip_sample =
  is_membership_key :: string
  is_user_id :: string
  is_node_id :: string
  is_endpoint_id :: string
  is_endpoint_tag :: string
  is_ips :: "string list"

section \<open>Operations\<close>

definition latest_minute_dt :: "clock \<Rightarrow> ip_usage \<Rightarrow> int option" where
  "latest_minute_dt clk u = Option.bind (iu_latest_minute u) (parse_minute clk)"

text \<open>\<^verbatim>\<open>collect_known_geo_by_ip_surviving_shift\<close>; the first membership that knows an address wins.\<close>

definition collect_known_geo_by_ip_surviving_shift :: "ip_usage \<Rightarrow> nat \<Rightarrow> (string, ip_geo) btree_map" where
  "collect_known_geo_by_ip_surviving_shift u shift =
     fold (\<lambda>m out.
         fold (\<lambda>(ip, record) out.
             if geo_is_default (ir_geo record) then out
             else if \<not> bitmap_has_any_bit_after_shift (ir_bitmap record) shift then out
             else if bt_contains_key out ip then out
             else bt_insert ip (ir_geo record) out)
           (bt_entries (im_ips m)) out)
       (bt_values (iu_memberships u)) bt_empty"

definition collect_known_geo_by_ip :: "ip_usage \<Rightarrow> (string, ip_geo) btree_map" where
  "collect_known_geo_by_ip u = collect_known_geo_by_ip_surviving_shift u 0"

definition normalize_record :: "ip_record \<Rightarrow> ip_record" where
  "normalize_record r =
     (let bm = normalize_bitmap (ir_bitmap r) in r\<lparr>ir_bitmap := bm, ir_minutes := of_nat (count_bitmap_bits bm)\<rparr>)"

definition normalize_membership :: "ip_membership \<Rightarrow> bool \<times> ip_membership" where
  "normalize_membership m =
     (let ips = bt_map_values (\<lambda>_. normalize_record) (im_ips m);
          kept = bt_retain (\<lambda>_ r. ir_minutes r \<noteq> 0) ips;
          changed = (list_ex (\<lambda>r. ir_minutes r \<noteq> ir_minutes (normalize_record r)) (bt_values (im_ips m)) \<or>
            bt_len kept \<noteq> bt_len (im_ips m))
      in (changed, m\<lparr>im_ips := kept\<rparr>))"

text \<open>\<^verbatim>\<open>PersistedInboundIpUsage::normalize\<close>.\<close>

definition normalize_ip_usage :: "string btree_set \<Rightarrow> ip_usage \<Rightarrow> bool \<times> ip_usage" where
  "normalize_ip_usage allowed u =
     (let changed = (iu_schema_version u \<noteq> INBOUND_IP_USAGE_SCHEMA_VERSION \<or> iu_minutes_window u \<noteq> MINUTES_WINDOW);
          u = u\<lparr>iu_schema_version := INBOUND_IP_USAGE_SCHEMA_VERSION, iu_minutes_window := MINUTES_WINDOW\<rparr>;
          kept = bt_retain (\<lambda>k _. bs_contains allowed k) (iu_memberships u);
          changed = (changed \<or> bt_len kept \<noteq> bt_len (iu_memberships u) \<or>
            list_ex (\<lambda>m. fst (normalize_membership m)) (bt_values kept));
          ms = bt_map_values (\<lambda>_ m. snd (normalize_membership m)) kept;
          ms = bt_retain (\<lambda>_ m. \<not> bt_is_empty (im_ips m)) ms
      in (changed, u\<lparr>iu_memberships := ms\<rparr>))"

definition clear_membership :: "string \<Rightarrow> ip_usage \<Rightarrow> bool \<times> ip_usage" where
  "clear_membership k u =
     (bt_contains_key (iu_memberships u) k, u\<lparr>iu_memberships := bt_remove k (iu_memberships u)\<rparr>)"

definition normalized_ips :: "string list \<Rightarrow> string btree_set" where
  "normalized_ips ips = bs_of_list (List.map_filter normalize_ip_string ips)"

definition collect_lookup_candidates :: "clock \<Rightarrow> ip_usage \<Rightarrow> int \<Rightarrow> ip_sample list \<Rightarrow> string list" where
  "collect_lookup_candidates clk u minute samples =
     (let minute = floor_minute minute;
          shift = nat (max 0 (case latest_minute_dt clk u of None \<Rightarrow> 0 | Some previous \<Rightarrow> num_minutes (minute - previous)));
          known = collect_known_geo_by_ip_surviving_shift u shift
      in bs_list (fold (\<lambda>sample out.
           let existing = bt_get (iu_memberships u) (is_membership_key sample)
           in fold (\<lambda>ip out.
                if \<not> is_global_geo_ip ip then out
                else if bt_contains_key known ip then out
                else if (case Option.bind existing (\<lambda>m. bt_get (im_ips m) ip) of
                           None \<Rightarrow> True
                         | Some record \<Rightarrow> geo_is_default (ir_geo record) \<or>
                             \<not> bitmap_has_any_bit_after_shift (ir_bitmap record) shift)
                then bs_insert ip out else out)
              (List.map_filter normalize_ip_string (is_ips sample)) out)
          samples bt_empty))"

definition collect_missing_geo_for_ips :: "ip_usage \<Rightarrow> string list \<Rightarrow> string list" where
  "collect_missing_geo_for_ips u ips =
     (if ips = [] then []
      else
        let candidates = normalized_ips ips
        in if bt_is_empty candidates then []
           else bs_list (fold (\<lambda>m out.
                  fold (\<lambda>(ip, record) out.
                      if \<not> bs_contains candidates ip then out
                      else if geo_is_default (ir_geo record) then bs_insert ip out else out)
                    (bt_entries (im_ips m)) out)
                (bt_values (iu_memberships u)) bt_empty))"

definition backfill_record :: "string btree_set \<Rightarrow> (string \<Rightarrow> ip_geo) \<Rightarrow> string \<Rightarrow> ip_record \<Rightarrow> ip_record" where
  "backfill_record candidates lookup ip record =
     (if \<not> bs_contains candidates ip then record
      else if \<not> geo_is_default (ir_geo record) then record
      else if geo_is_default (lookup ip) then record
      else record\<lparr>ir_geo := lookup ip\<rparr>)"

definition backfill_geo_for_ips :: "string list \<Rightarrow> (string \<Rightarrow> ip_geo) \<Rightarrow> ip_usage \<Rightarrow> bool \<times> ip_usage" where
  "backfill_geo_for_ips ips lookup u =
     (if ips = [] then (False, u)
      else
        let candidates = normalized_ips ips
        in if bt_is_empty candidates then (False, u)
           else
             (list_ex (\<lambda>m. list_ex (\<lambda>(ip, r). bs_contains candidates ip \<and> geo_is_default (ir_geo r) \<and>
                 \<not> geo_is_default (lookup ip)) (bt_entries (im_ips m))) (bt_values (iu_memberships u)),
              u\<lparr>iu_memberships := bt_map_values (\<lambda>_ m. m\<lparr>im_ips :=
                bt_map_values (backfill_record candidates lookup) (im_ips m)\<rparr>) (iu_memberships u)\<rparr>))"

definition shift_record :: "nat \<Rightarrow> ip_record \<Rightarrow> ip_record" where
  "shift_record shift r =
     (let bm = shift_bitmap (ir_bitmap r) shift
      in r\<lparr>ir_bitmap := bm, ir_minutes := of_nat (count_bitmap_bits bm)\<rparr>)"

definition shift_membership :: "nat \<Rightarrow> ip_membership \<Rightarrow> ip_membership" where
  "shift_membership shift m =
     m\<lparr>im_ips := bt_retain (\<lambda>_ r. ir_minutes r \<noteq> 0) (bt_map_values (\<lambda>_. shift_record shift) (im_ips m))\<rparr>"

definition advance_to_minute :: "clock \<Rightarrow> int \<Rightarrow> ip_usage \<Rightarrow> bool \<times> ip_usage" where
  "advance_to_minute clk minute u =
     (case latest_minute_dt clk u of
        None \<Rightarrow> (True, u\<lparr>iu_latest_minute := Some (rfc3339_minute clk minute)\<rparr>)
      | Some previous \<Rightarrow>
          let shift = num_minutes (minute - previous)
          in if shift \<le> 0 then (False, u)
             else
               let shift = nat shift;
                   ms = (if shift \<ge> MINUTES_WINDOW then bt_empty
                     else bt_retain (\<lambda>_ m. \<not> bt_is_empty (im_ips m))
                       (bt_map_values (\<lambda>_. shift_membership shift) (iu_memberships u)))
               in (True, u\<lparr>iu_memberships := ms, iu_latest_minute := Some (rfc3339_minute clk minute)\<rparr>))"

text \<open>
  The body of the loop over the addresses of a sample: the record is marked for the minute, then its geo data is
  filled in. The state is the flag, the records of the membership and the known geo data.
\<close>

definition touch_record :: "string \<Rightarrow> bool \<Rightarrow> ip_record \<Rightarrow> bool \<times> ip_record" where
  "touch_record minute_str changed r =
     (let r = r\<lparr>ir_bitmap := normalize_bitmap (ir_bitmap r)\<rparr>;
          was_empty = (ir_minutes r = 0);
          already_present = get_bit (ir_bitmap r) (MINUTES_WINDOW - 1);
          (changed, r) = (if \<not> already_present
            then (True, r\<lparr>ir_bitmap := set_bit (ir_bitmap r) (MINUTES_WINDOW - 1) True, ir_minutes := sat_add (ir_minutes r) 1\<rparr>)
            else (changed, r));
          (changed, r) = (if was_empty \<or> ir_first_seen_at r = []
            then (True, r\<lparr>ir_first_seen_at := minute_str\<rparr>) else (changed, r))
      in if ir_last_seen_at r \<noteq> minute_str then (True, r\<lparr>ir_last_seen_at := minute_str\<rparr>) else (changed, r))"

definition fill_geo ::
  "(string \<Rightarrow> ip_geo) \<Rightarrow> bool \<Rightarrow> string \<Rightarrow> (string, ip_geo) btree_map \<Rightarrow> bool \<Rightarrow> ip_record \<Rightarrow>
   bool \<times> ip_record \<times> (string, ip_geo) btree_map" where
  "fill_geo lookup allow_geo_reuse ip known changed r =
     (if geo_is_default (ir_geo r)
      then (case (if allow_geo_reuse then bt_get known ip else None) of
          Some existing \<Rightarrow> (True, r\<lparr>ir_geo := existing\<rparr>, known)
        | None \<Rightarrow>
            let geo = lookup ip
            in if geo \<noteq> ir_geo r
               then (True, r\<lparr>ir_geo := geo\<rparr>, if \<not> geo_is_default geo then bt_insert ip geo known else known)
               else (changed, r, known))
      else (changed, r, known))"

definition record_ip ::
  "(string \<Rightarrow> ip_geo) \<Rightarrow> bool \<Rightarrow> string \<Rightarrow> string \<Rightarrow>
   bool \<times> (string, ip_record) btree_map \<times> (string, ip_geo) btree_map \<Rightarrow>
   bool \<times> (string, ip_record) btree_map \<times> (string, ip_geo) btree_map" where
  "record_ip lookup allow_geo_reuse minute_str ip = (\<lambda>(changed, ips, known).
     let (changed, r) = touch_record minute_str changed (bt_get_or default_ip_record ips ip);
         (changed, r, known) = fill_geo lookup allow_geo_reuse ip known changed r
     in (changed, bt_insert ip r ips, known))"

definition record_sample ::
  "(string \<Rightarrow> ip_geo) \<Rightarrow> bool \<Rightarrow> string \<Rightarrow> ip_sample \<Rightarrow>
   bool \<times> (string, ip_membership) btree_map \<times> (string, ip_geo) btree_map \<Rightarrow>
   bool \<times> (string, ip_membership) btree_map \<times> (string, ip_geo) btree_map" where
  "record_sample lookup allow_geo_reuse minute_str sample = (\<lambda>(changed, ms, known).
     let unique_ips = normalized_ips (is_ips sample)
     in if bt_is_empty unique_ips then (changed, ms, known)
        else
          let m = (case bt_get ms (is_membership_key sample) of
                Some m \<Rightarrow> m
              | None \<Rightarrow> \<lparr>im_user_id = is_user_id sample, im_node_id = is_node_id sample,
                  im_endpoint_id = is_endpoint_id sample, im_endpoint_tag = is_endpoint_tag sample, im_ips = bt_empty\<rparr>);
              changed = (changed \<or> im_user_id m \<noteq> is_user_id sample \<or> im_node_id m \<noteq> is_node_id sample \<or>
                im_endpoint_id m \<noteq> is_endpoint_id sample \<or> im_endpoint_tag m \<noteq> is_endpoint_tag sample);
              (changed, ips, known) =
                fold (record_ip lookup allow_geo_reuse minute_str) (bs_list unique_ips) (changed, im_ips m, known);
              m = m\<lparr>im_user_id := is_user_id sample, im_node_id := is_node_id sample,
                im_endpoint_id := is_endpoint_id sample, im_endpoint_tag := is_endpoint_tag sample, im_ips := ips\<rparr>
          in (changed, bt_insert (is_membership_key sample) m ms, known))"

definition record_minute_samples ::
  "clock \<Rightarrow> int \<Rightarrow> bool \<Rightarrow> ip_sample list \<Rightarrow> (string \<Rightarrow> ip_geo) \<Rightarrow> bool \<Rightarrow> ip_usage \<Rightarrow> bool \<times> ip_usage" where
  "record_minute_samples clk minute online_stats_unavailable samples lookup allow_geo_reuse u =
     (let minute = floor_minute minute;
          minute_str = rfc3339_minute clk minute;
          changed = (iu_schema_version u \<noteq> INBOUND_IP_USAGE_SCHEMA_VERSION \<or> iu_minutes_window u \<noteq> MINUTES_WINDOW \<or>
            iu_online_stats_unavailable u \<noteq> online_stats_unavailable);
          u = u\<lparr>iu_schema_version := INBOUND_IP_USAGE_SCHEMA_VERSION, iu_minutes_window := MINUTES_WINDOW,
            iu_online_stats_unavailable := online_stats_unavailable\<rparr>;
          (advanced, u) = advance_to_minute clk minute u;
          known = (if allow_geo_reuse then collect_known_geo_by_ip u else bt_empty);
          (changed, ms, known) = fold (record_sample lookup allow_geo_reuse minute_str) samples
            (changed \<or> advanced, iu_memberships u, known);
          u = u\<lparr>iu_memberships := ms\<rparr>
      in (changed \<or> iu_generated_at u \<noteq> minute_str, u\<lparr>iu_generated_at := minute_str\<rparr>))"

section \<open>The invariant\<close>

definition record_ok :: "ip_record \<Rightarrow> bool" where
  "record_ok r =
     (length (ir_bitmap r) = BITMAP_BYTES \<and> unat (ir_minutes r) = count_bitmap_bits (ir_bitmap r) \<and> ir_minutes r \<noteq> 0)"

definition ips_ok :: "(string, ip_record) btree_map \<Rightarrow> bool" where
  "ips_ok ips = (\<forall>ip r. bt_get ips ip = Some r \<longrightarrow> record_ok r)"

definition memberships_ok :: "(string, ip_membership) btree_map \<Rightarrow> bool" where
  "memberships_ok ms = (\<forall>k m. bt_get ms k = Some m \<longrightarrow> ips_ok (im_ips m) \<and> \<not> bt_is_empty (im_ips m))"

lemma count_u32:
  assumes "length bm = BITMAP_BYTES"
  shows "unat (of_nat (count_bitmap_bits bm) :: u32) = count_bitmap_bits bm"
proof -
  have "count_bitmap_bits bm \<le> 10080" using count_bits_le [OF assms] by (simp add: MINUTES_WINDOW_def)
  then have "count_bitmap_bits bm < 2 ^ LENGTH(32)" by simp
  then show ?thesis unfolding unat_of_nat by (rule mod_less)
qed

lemma record_ok_normalize: "ir_minutes (normalize_record r) \<noteq> 0 \<Longrightarrow> record_ok (normalize_record r)"
  by (simp add: record_ok_def normalize_record_def Let_def count_u32)

lemma record_ok_shift: "ir_minutes (shift_record k r) \<noteq> 0 \<Longrightarrow> record_ok (shift_record k r)"
  by (simp add: record_ok_def shift_record_def Let_def count_u32)

lemma normalize_usage_ok: "memberships_ok (iu_memberships (snd (normalize_ip_usage allowed u)))"
  unfolding memberships_ok_def ips_ok_def
  by (auto simp: normalize_ip_usage_def Let_def normalize_membership_def bt_get_retain bt_get_map_values
      intro: record_ok_normalize split: option.splits if_splits)

section \<open>The minutes a usage shows\<close>

definition ip_bit :: "(string, ip_record) btree_map \<Rightarrow> string \<Rightarrow> nat \<Rightarrow> bool" where
  "ip_bit ips ip i = (case bt_get ips ip of None \<Rightarrow> False | Some r \<Rightarrow> get_bit (ir_bitmap r) i)"

definition usage_bit :: "(string, ip_membership) btree_map \<Rightarrow> string \<Rightarrow> string \<Rightarrow> nat \<Rightarrow> bool" where
  "usage_bit ms k ip i = (case bt_get ms k of None \<Rightarrow> False | Some m \<Rightarrow> ip_bit (im_ips m) ip i)"

text \<open>Membership \<open>k\<close> was used from address \<open>ip\<close> in minute \<open>t\<close>, where \<open>l\<close> is the latest minute.\<close>

definition used_at :: "(string, ip_membership) btree_map \<Rightarrow> string \<Rightarrow> string \<Rightarrow> int \<Rightarrow> int \<Rightarrow> bool" where
  "used_at ms k ip l t = window_at MINUTES_WINDOW False (usage_bit ms k) ip l t"

lemma window_positive: "0 < MINUTES_WINDOW"
  by (simp add: MINUTES_WINDOW_def)

lemma record_bits:
  assumes "case bt_get ips ip of None \<Rightarrow> True | Some r \<Rightarrow> record_ok r"
  obtains r' c' k' where "record_ip lookup reuse t ip (c, ips, known) = (c', bt_insert ip r' ips, k')"
    "record_ok r'" "\<And>i. get_bit (ir_bitmap r') i \<longleftrightarrow> i = MINUTES_WINDOW - 1 \<or> ip_bit ips ip i"
proof -
  let ?r = "bt_get_or default_ip_record ips ip"
  let ?last = "MINUTES_WINDOW - 1"
  have len: "length (ir_bitmap ?r) = BITMAP_BYTES"
    using assms by (auto simp: bt_get_or_def record_ok_def default_ip_record_def zero_bitmap_def split: option.splits)
  have bits: "get_bit (ir_bitmap ?r) i \<longleftrightarrow> ip_bit ips ip i" for i
    by (simp add: ip_bit_def bt_get_or_def default_ip_record_def zero_bitmap_def split: option.splits)
  have mins: "unat (ir_minutes ?r) = count_bitmap_bits (ir_bitmap ?r)"
    using assms by (auto simp: bt_get_or_def record_ok_def default_ip_record_def zero_bitmap_def count_bits_card split: option.splits)
  have byte: "?last div 8 < length (ir_bitmap ?r)" using len byte_of_minute [of ?last] window_positive by simp
  define bm where "bm \<equiv> (if get_bit (ir_bitmap ?r) ?last then ir_bitmap ?r else set_bit (ir_bitmap ?r) ?last True)"
  define ms where "ms \<equiv> (if get_bit (ir_bitmap ?r) ?last then ir_minutes ?r else sat_add (ir_minutes ?r) 1)"
  obtain c1 r1 where touch: "touch_record t c ?r = (c1, r1)" by fastforce
  then have r1: "ir_bitmap r1 = bm" "ir_minutes r1 = ms"
    by (auto simp: touch_record_def Let_def len bm_def ms_def split: if_splits)
  obtain c' r' k' where fill: "fill_geo lookup reuse ip known c1 r1 = (c', r', k')" by (metis prod_cases3)
  then have "ir_bitmap r' = ir_bitmap r1" "ir_minutes r' = ir_minutes r1"
    by (auto simp: fill_geo_def Let_def split: if_splits option.splits)
  with r1 have r': "ir_bitmap r' = bm" "ir_minutes r' = ms" by simp_all
  have run: "record_ip lookup reuse t ip (c, ips, known) = (c', bt_insert ip r' ips, k')"
    by (simp add: record_ip_def touch fill)
  have bm: "get_bit bm i \<longleftrightarrow> i = ?last \<or> ip_bit ips ip i" "length bm = BITMAP_BYTES" for i
    using byte by (auto simp: bm_def get_set_bit bits len)
  have "unat ms = count_bitmap_bits bm"
  proof (cases "get_bit (ir_bitmap ?r) ?last")
    case True
    then show ?thesis by (simp add: ms_def bm_def mins)
  next
    case False
    have "count_bitmap_bits (ir_bitmap ?r) \<le> MINUTES_WINDOW" by (rule count_bits_le [OF len])
    then have "unat (ir_minutes ?r) + unat (1 :: u32) < 2 ^ LENGTH(32)" by (simp add: mins MINUTES_WINDOW_def)
    then have "unat (sat_add (ir_minutes ?r) 1) = unat (ir_minutes ?r) + 1" by (simp add: unat_sat_add)
    with False byte show ?thesis by (simp add: ms_def bm_def mins count_set_bit)
  qed
  moreover have "ms \<noteq> 0"
    using calculation bm(1) [of ?last] by (metis count_bits_0 unsigned_0)
  ultimately have "record_ok r'" by (simp add: record_ok_def r' bm)
  then show ?thesis using run that bm(1) by (simp add: r')
qed

lemma record_ips:
  assumes "ips_ok ips" "fold (record_ip lookup reuse t) xs (c, ips, known) = (c', ips', known')"
  shows "ips_ok ips'" "bt_contains_key ips' ip \<longleftrightarrow> bt_contains_key ips ip \<or> ip \<in> set xs"
    "ip_bit ips' ip i \<longleftrightarrow> ip_bit ips ip i \<or> ip \<in> set xs \<and> i = MINUTES_WINDOW - 1"
proof -
  have "ips_ok ips' \<and> (\<forall>ip. bt_contains_key ips' ip \<longleftrightarrow> bt_contains_key ips ip \<or> ip \<in> set xs) \<and>
      (\<forall>ip i. ip_bit ips' ip i \<longleftrightarrow> ip_bit ips ip i \<or> ip \<in> set xs \<and> i = MINUTES_WINDOW - 1)"
    using assms
  proof (induction xs arbitrary: c ips known)
    case Nil
    then show ?case by simp
  next
    case (Cons x xs)
    have "case bt_get ips x of None \<Rightarrow> True | Some r \<Rightarrow> record_ok r"
      using Cons.prems(1) by (simp add: ips_ok_def split: option.split)
    then obtain r c1 k1 where run: "record_ip lookup reuse t x (c, ips, known) = (c1, bt_insert x r ips, k1)"
      and r: "record_ok r" "\<And>i. get_bit (ir_bitmap r) i \<longleftrightarrow> i = MINUTES_WINDOW - 1 \<or> ip_bit ips x i"
      by (rule record_bits) blast
    have ok: "ips_ok (bt_insert x r ips)" using Cons.prems(1) r(1) by (simp add: ips_ok_def)
    have bit: "ip_bit (bt_insert x r ips) ip i \<longleftrightarrow> ip_bit ips ip i \<or> ip = x \<and> i = MINUTES_WINDOW - 1" for ip i
      using r(2) by (auto simp: ip_bit_def)
    from Cons.prems(2) run have rest: "fold (record_ip lookup reuse t) xs (c1, bt_insert x r ips, k1) = (c', ips', known')" by simp
    from Cons.IH [OF ok rest] bit show ?case by auto
  qed
  then show "ips_ok ips'" "bt_contains_key ips' ip \<longleftrightarrow> bt_contains_key ips ip \<or> ip \<in> set xs"
    "ip_bit ips' ip i \<longleftrightarrow> ip_bit ips ip i \<or> ip \<in> set xs \<and> i = MINUTES_WINDOW - 1" by blast+
qed

definition sampled :: "ip_sample list \<Rightarrow> string \<Rightarrow> string \<Rightarrow> bool" where
  "sampled samples k ip = (\<exists>s \<in> set samples. is_membership_key s = k \<and> ip \<in> bs_set (normalized_ips (is_ips s)))"

lemma record_sample_bits:
  assumes "memberships_ok ms" "record_sample lookup reuse t s (c, ms, known) = (c', ms', known')"
  shows "memberships_ok ms'"
    "usage_bit ms' k ip i \<longleftrightarrow> usage_bit ms k ip i \<or> sampled [s] k ip \<and> i = MINUTES_WINDOW - 1"
proof -
  let ?ips = "normalized_ips (is_ips s)"
  let ?old = "case bt_get ms (is_membership_key s) of
      Some m \<Rightarrow> m
    | None \<Rightarrow> \<lparr>im_user_id = is_user_id s, im_node_id = is_node_id s,
        im_endpoint_id = is_endpoint_id s, im_endpoint_tag = is_endpoint_tag s, im_ips = bt_empty\<rparr>"
  have "memberships_ok ms' \<and>
      (\<forall>k ip i. usage_bit ms' k ip i \<longleftrightarrow> usage_bit ms k ip i \<or> sampled [s] k ip \<and> i = MINUTES_WINDOW - 1)"
  proof (cases "bs_set ?ips = {}")
    case True
    with assms show ?thesis by (simp add: record_sample_def sampled_def)
  next
    case False
    let ?c = "c \<or> im_user_id ?old \<noteq> is_user_id s \<or> im_node_id ?old \<noteq> is_node_id s \<or>
      im_endpoint_id ?old \<noteq> is_endpoint_id s \<or> im_endpoint_tag ?old \<noteq> is_endpoint_tag s"
    obtain c1 ips1 k1 where run: "fold (record_ip lookup reuse t) (bs_list ?ips) (?c, im_ips ?old, known) = (c1, ips1, k1)"
      by (metis prod_cases3)
    let ?new = "?old\<lparr>im_user_id := is_user_id s, im_node_id := is_node_id s,
      im_endpoint_id := is_endpoint_id s, im_endpoint_tag := is_endpoint_tag s, im_ips := ips1\<rparr>"
    have ms': "ms' = bt_insert (is_membership_key s) ?new ms"
      using assms(2) False run by (simp add: record_sample_def Let_def)
    have "ips_ok (im_ips ?old)"
      using assms(1) by (simp add: memberships_ok_def ips_ok_def split: option.split)
    note rec = record_ips [OF this run]
    have "\<not> bt_is_empty ips1"
      using False rec(2) by (auto simp: bt_is_empty_iff bt_contains_iff)
    then have ok: "memberships_ok ms'" using assms(1) rec(1) by (simp add: ms' memberships_ok_def)
    have old: "ip_bit (im_ips ?old) ip i \<longleftrightarrow> usage_bit ms (is_membership_key s) ip i" for ip i
      by (simp add: usage_bit_def ip_bit_def split: option.split)
    have "usage_bit ms' k ip i \<longleftrightarrow> usage_bit ms k ip i \<or> sampled [s] k ip \<and> i = MINUTES_WINDOW - 1" for k ip i
    proof (cases "k = is_membership_key s")
      case True
      then have "usage_bit ms' k ip i \<longleftrightarrow> ip_bit ips1 ip i" by (simp add: ms' usage_bit_def)
      with True show ?thesis by (simp add: rec(3) old sampled_def)
    next
      case False
      then show ?thesis by (auto simp: ms' usage_bit_def sampled_def)
    qed
    with ok show ?thesis by blast
  qed
  then show "memberships_ok ms'" "usage_bit ms' k ip i \<longleftrightarrow> usage_bit ms k ip i \<or> sampled [s] k ip \<and> i = MINUTES_WINDOW - 1"
    by blast+
qed

lemma sampled_Cons: "sampled (s # ss) k ip \<longleftrightarrow> sampled [s] k ip \<or> sampled ss k ip"
  by (auto simp: sampled_def)

lemma record_samples_bits:
  assumes "memberships_ok ms" "fold (record_sample lookup reuse t) ss (c, ms, known) = (c', ms', known')"
  shows "memberships_ok ms' \<and>
    (\<forall>k ip i. usage_bit ms' k ip i \<longleftrightarrow> usage_bit ms k ip i \<or> sampled ss k ip \<and> i = MINUTES_WINDOW - 1)"
  using assms
proof (induction ss arbitrary: c ms known)
  case Nil
  then show ?case by (simp add: sampled_def)
next
  case (Cons s ss)
  obtain c1 ms1 k1 where run: "record_sample lookup reuse t s (c, ms, known) = (c1, ms1, k1)" by (metis prod_cases3)
  note first = record_sample_bits [OF Cons.prems(1) run]
  from Cons.prems(2) run have "fold (record_sample lookup reuse t) ss (c1, ms1, k1) = (c', ms', known')" by simp
  from Cons.IH [OF first(1) this] first(2) sampled_Cons [of s ss] show ?case by blast
qed

section \<open>Recording a minute\<close>

definition minute_no :: "int \<Rightarrow> int" where
  "minute_no t = t div nanos_per_minute"

lemma nanos_positive: "0 < nanos_per_minute"
  by (simp add: nanos_per_minute_def)

lemma floor_minute_no: "floor_minute t = minute_no t * nanos_per_minute"
  by (simp add: floor_minute_def minute_no_def minus_mod_eq_div_mult)

lemma minute_no_scaled [simp]: "minute_no (m * nanos_per_minute) = m"
  using nanos_positive by (simp add: minute_no_def)

lemma floor_minute_idem [simp]: "floor_minute (floor_minute t) = floor_minute t"
  unfolding floor_minute_no by simp

lemma num_minutes_scaled: "0 \<le> d \<Longrightarrow> num_minutes (d * nanos_per_minute) = d"
  using nanos_positive by (simp add: num_minutes_def abs_mult sgn_mult) (cases "d = 0"; simp)

lemma num_minutes_negative: "d \<le> 0 \<Longrightarrow> num_minutes (d * nanos_per_minute) \<le> 0"
  using nanos_positive by (auto simp: num_minutes_def sgn_mult abs_mult mult_le_0_iff sgn_if pos_imp_zdiv_nonneg_iff)

lemma latest_scaled:
  "latest_minute_dt clk u = Some p \<Longrightarrow> p = minute_no p * nanos_per_minute"
  by (auto simp: latest_minute_dt_def parse_minute_def floor_minute_no split: bind_splits)

lemma shift_bits:
  assumes "memberships_ok ms" "i < MINUTES_WINDOW"
  shows "usage_bit (bt_retain (\<lambda>_ m. \<not> bt_is_empty (im_ips m)) (bt_map_values (\<lambda>_. shift_membership n) ms)) k ip i \<longleftrightarrow>
    i + n < MINUTES_WINDOW \<and> usage_bit ms k ip (i + n)"
proof (cases "bt_get ms k")
  case None
  then show ?thesis by (simp add: usage_bit_def bt_get_retain bt_get_map_values)
next
  case (Some m)
  have inner: "ip_bit (im_ips (shift_membership n m)) ip i \<longleftrightarrow> i + n < MINUTES_WINDOW \<and> ip_bit (im_ips m) ip (i + n)"
  proof (cases "bt_get (im_ips m) ip")
    case None
    then show ?thesis by (simp add: ip_bit_def shift_membership_def bt_get_retain bt_get_map_values)
  next
    case r: (Some r)
    let ?bm = "shift_bitmap (ir_bitmap r) n"
    have dead: "ir_minutes (shift_record n r) = 0 \<Longrightarrow> \<not> get_bit ?bm i"
      using count_u32 [of ?bm] count_bits_0 [of ?bm] by (simp add: shift_record_def Let_def)
    have "ip_bit (im_ips (shift_membership n m)) ip i \<longleftrightarrow> get_bit ?bm i"
      using r dead by (simp add: ip_bit_def shift_membership_def bt_get_retain bt_get_map_values)
        (simp add: shift_record_def Let_def)
    with r show ?thesis by (simp add: get_shift [OF assms(2)] ip_bit_def)
  qed
  show ?thesis
  proof (cases "bt_is_empty (im_ips (shift_membership n m))")
    case True
    then have "\<not> ip_bit (im_ips (shift_membership n m)) ip i" by (simp add: ip_bit_def bt_is_empty_iff)
    with True Some inner show ?thesis by (simp add: usage_bit_def bt_get_retain bt_get_map_values)
  next
    case False
    with Some inner show ?thesis by (simp add: usage_bit_def bt_get_retain bt_get_map_values)
  qed
qed

lemma shift_ok:
  "memberships_ok ms \<Longrightarrow>
    memberships_ok (bt_retain (\<lambda>_ m. \<not> bt_is_empty (im_ips m)) (bt_map_values (\<lambda>_. shift_membership n) ms))"
  unfolding memberships_ok_def ips_ok_def
  by (auto simp: shift_membership_def bt_get_retain bt_get_map_values intro: record_ok_shift split: option.splits if_splits)

lemma used_at_shift:
  assumes "\<And>i. i < MINUTES_WINDOW \<Longrightarrow> usage_bit ms' k ip i \<longleftrightarrow> i + n < MINUTES_WINDOW \<and> usage_bit ms k ip (i + n)"
  shows "used_at ms' k ip (l + int n) t \<longleftrightarrow> l + int n - int MINUTES_WINDOW < t \<and> used_at ms k ip l t"
proof (cases "l + int n - int MINUTES_WINDOW < t \<and> t \<le> l + int n")
  case True
  let ?i = "nat (t - (l + int n - int MINUTES_WINDOW) - 1)"
  have i: "?i < MINUTES_WINDOW" using True by (simp add: nat_less_iff)
  have "?i + n < MINUTES_WINDOW \<longleftrightarrow> t \<le> l" "?i + n = nat (t - (l - int MINUTES_WINDOW) - 1)" using True by auto
  with True assms [OF i] show ?thesis by (auto simp: used_at_def window_at_def)
next
  case False
  then show ?thesis by (auto simp: used_at_def window_at_def)
qed

text \<open>What advancing does: the latest minute moves up to \<open>m\<close>, never back, and the window with it.\<close>

lemma advance_effect:
  assumes ok: "memberships_ok (iu_memberships u)" and m: "parse_minute clk (rfc3339_minute clk (m * nanos_per_minute)) = Some (m * nanos_per_minute)"
    and run: "advance_to_minute clk (m * nanos_per_minute) u = (c, u')"
  defines "l \<equiv> (case latest_minute_dt clk u of None \<Rightarrow> m | Some p \<Rightarrow> minute_no p)"
  shows "memberships_ok (iu_memberships u') \<and> latest_minute_dt clk u' = Some (max l m * nanos_per_minute) \<and>
    (\<forall>k ip t. used_at (iu_memberships u') k ip (max l m) t \<longleftrightarrow>
       max l m - int MINUTES_WINDOW < t \<and> used_at (iu_memberships u) k ip l t)"
proof (cases "latest_minute_dt clk u")
  case None
  have "used_at ms k ip m t \<Longrightarrow> m - int MINUTES_WINDOW < t" for ms k ip t by (simp add: used_at_def window_at_def split: if_splits)
  with None run ok m show ?thesis by (auto simp: advance_to_minute_def l_def latest_minute_dt_def)
next
  case (Some p)
  then have p: "p = l * nanos_per_minute" using latest_scaled [OF Some] by (simp add: l_def)
  have diff: "m * nanos_per_minute - p = (m - l) * nanos_per_minute" by (simp add: p algebra_simps)
  have inside: "used_at ms k ip l t \<Longrightarrow> l - int MINUTES_WINDOW < t" for ms k ip t by (simp add: used_at_def window_at_def split: if_splits)
  show ?thesis
  proof (cases "m \<le> l")
    case True
    then have "num_minutes (m * nanos_per_minute - p) \<le> 0" unfolding diff by (intro num_minutes_negative) simp
    with run Some have "u' = u" by (simp add: advance_to_minute_def)
    with ok Some True inside show ?thesis by (auto simp: p max_def)
  next
    case False
    then have shift: "num_minutes (m * nanos_per_minute - p) = m - l" unfolding diff by (intro num_minutes_scaled) simp
    let ?n = "nat (m - l)"
    let ?ms = "if ?n \<ge> MINUTES_WINDOW then bt_empty
      else bt_retain (\<lambda>_ m. \<not> bt_is_empty (im_ips m)) (bt_map_values (\<lambda>_. shift_membership ?n) (iu_memberships u))"
    from run Some False shift have u': "u' = u\<lparr>iu_memberships := ?ms, iu_latest_minute := Some (rfc3339_minute clk (m * nanos_per_minute))\<rparr>"
      by (simp add: advance_to_minute_def Let_def)
    have "used_at ?ms k ip (l + int ?n) t \<longleftrightarrow> l + int ?n - int MINUTES_WINDOW < t \<and> used_at (iu_memberships u) k ip l t" for k ip t
      by (rule used_at_shift) (simp add: shift_bits [OF ok] usage_bit_def [of bt_empty])
    moreover have "l + int ?n = m" "max l m = m" using False by simp_all
    moreover have "memberships_ok ?ms" using shift_ok [OF ok] by (simp add: memberships_ok_def [of bt_empty])
    ultimately show ?thesis using m by (simp add: u' latest_minute_dt_def)
  qed
qed

lemma used_at_recorded:
  assumes "\<And>i. usage_bit ms' k ip i \<longleftrightarrow> usage_bit ms k ip i \<or> P \<and> i = MINUTES_WINDOW - 1"
  shows "used_at ms' k ip l t \<longleftrightarrow> used_at ms k ip l t \<or> P \<and> t = l"
proof (cases "l - int MINUTES_WINDOW < t \<and> t \<le> l")
  case True
  let ?i = "nat (t - (l - int MINUTES_WINDOW) - 1)"
  have "?i = MINUTES_WINDOW - 1 \<longleftrightarrow> t = l" using True by (auto simp: MINUTES_WINDOW_def)
  with True assms [of ?i] show ?thesis by (simp add: used_at_def window_at_def)
next
  case False
  then show ?thesis by (auto simp: used_at_def window_at_def MINUTES_WINDOW_def)
qed

text \<open>
  C25: Recording a minute of samples is exact on the window of minutes. Where the clock reads back the
  minute it writes, the latest minute becomes the later of the stored one and the sampled one; every
  address bit of a minute still inside the window is kept, every older one is gone; and the new bits are
  those of the sampled, parseable addresses, at the latest minute. The stored bitmaps and minute
  counters stay consistent.
\<close>
theorem record_minute_exact:
  assumes "memberships_ok (iu_memberships u)"
    and "ck_parse_rfc3339 clk (ck_to_rfc3339 clk (floor_minute now)) = Some (floor_minute now)"
    and "record_minute_samples clk now unavailable samples lookup reuse u = (changed, u')"
    and "l = (case latest_minute_dt clk u of None \<Rightarrow> minute_no now | Some p \<Rightarrow> minute_no p)"
    and "l' = max l (minute_no now)"
  shows "memberships_ok (iu_memberships u') \<and> latest_minute_dt clk u' = Some (l' * nanos_per_minute) \<and>
    (\<forall>k ip t. used_at (iu_memberships u') k ip l' t \<longleftrightarrow>
       l' - int MINUTES_WINDOW < t \<and> used_at (iu_memberships u) k ip l t \<or> t = l' \<and> sampled samples k ip)"
proof -
  let ?m = "minute_no now"
  let ?u = "u\<lparr>iu_schema_version := INBOUND_IP_USAGE_SCHEMA_VERSION, iu_minutes_window := MINUTES_WINDOW,
            iu_online_stats_unavailable := unavailable\<rparr>"
  obtain c1 u1 where adv: "advance_to_minute clk (?m * nanos_per_minute) ?u = (c1, u1)" by (metis surj_pair)
  have parse: "parse_minute clk (rfc3339_minute clk (?m * nanos_per_minute)) = Some (?m * nanos_per_minute)"
    using assms(2) by (simp add: parse_minute_def rfc3339_minute_def floor_minute_no)
  have ok: "memberships_ok (iu_memberships ?u)" using assms(1) by simp
  have l: "(case latest_minute_dt clk ?u of None \<Rightarrow> ?m | Some p \<Rightarrow> minute_no p) = l"
    using assms(4) by (simp add: latest_minute_dt_def)
  note advanced = advance_effect [OF ok parse adv, unfolded l, folded assms(5)]
  let ?c0 = "(iu_schema_version u \<noteq> INBOUND_IP_USAGE_SCHEMA_VERSION \<or> iu_minutes_window u \<noteq> MINUTES_WINDOW \<or>
      iu_online_stats_unavailable u \<noteq> unavailable) \<or> c1"
  let ?known = "if reuse then collect_known_geo_by_ip u1 else bt_empty"
  obtain c2 ms known where run: "fold (record_sample lookup reuse (rfc3339_minute clk (?m * nanos_per_minute))) samples
        (?c0, iu_memberships u1, ?known) = (c2, ms, known)"
    by (metis prod_cases3)
  have "u' = u1\<lparr>iu_memberships := ms, iu_generated_at := rfc3339_minute clk (?m * nanos_per_minute)\<rparr>"
    using assms(3) unfolding record_minute_samples_def Let_def floor_minute_no adv prod.case run by simp
  then have u': "iu_memberships u' = ms" "iu_latest_minute u' = iu_latest_minute u1" by simp_all
  from record_samples_bits [OF conjunct1 [OF advanced] run]
  have rec: "memberships_ok ms"
    "\<And>k ip i. usage_bit ms k ip i \<longleftrightarrow> usage_bit (iu_memberships u1) k ip i \<or> sampled samples k ip \<and> i = MINUTES_WINDOW - 1"
    by blast+
  have "used_at ms k ip l' t \<longleftrightarrow> used_at (iu_memberships u1) k ip l' t \<or> sampled samples k ip \<and> t = l'" for k ip t
    by (rule used_at_recorded) (rule rec(2))
  with advanced rec(1) u' show ?thesis by (auto simp: latest_minute_dt_def)
qed

text \<open>A clock that writes a minute as that many marks, and one sample seen at minutes 2 and 5.\<close>

definition tally_clock :: clock where
  "tally_clock = \<lparr>ck_to_rfc3339 = \<lambda>t. replicate (nat (minute_no t)) (CHR ''I''),
     ck_parse_rfc3339 = \<lambda>s. Some (int (length s) * nanos_per_minute)\<rparr>"

definition sample_seen :: ip_sample where
  "sample_seen = \<lparr>is_membership_key = ''u::e'', is_user_id = ''u'', is_node_id = ''n'', is_endpoint_id = ''e'',
     is_endpoint_tag = ''t'', is_ips = [''1.2.3.4'', ''unknown'']\<rparr>"

definition sample_usage :: "nat \<Rightarrow> ip_usage \<Rightarrow> ip_usage" where
  "sample_usage m u =
     snd (record_minute_samples tally_clock (int m * nanos_per_minute) False [sample_seen] (\<lambda>_. default_geo) True u)"

lemma tally_clock_minute: "ck_parse_rfc3339 tally_clock (ck_to_rfc3339 tally_clock (floor_minute (int m * nanos_per_minute))) =
    Some (floor_minute (int m * nanos_per_minute))"
  by (simp add: tally_clock_def floor_minute_no)

lemma sample_seen_ip: "sampled [sample_seen] ''u::e'' ''1.2.3.4''"
proof -
  have shown: "show_ip (V4 1 2 3 4) = ''1.2.3.4''"
    by (simp add: show_ipv4_def show_base.simps hex_digit_def)
  have "parse_ip ''1.2.3.4'' = Some (V4 1 2 3 4)"
    using parse_show_ip [of "V4 1 2 3 4"] unfolding shown by (simp add: ip_ok_def)
  with trim_plain [OF plain_show_ip, of "V4 1 2 3 4"] have "normalize_ip_string ''1.2.3.4'' = Some ''1.2.3.4''"
    by (simp only: shown normalize_ip_string_def option.map)
  then show ?thesis by (simp add: sampled_def sample_seen_def normalized_ips_def List.map_filter_simps)
qed

theorem record_minute_exact_witness:
  "latest_minute_dt tally_clock (sample_usage 5 (sample_usage 2 default_ip_usage)) = Some (5 * nanos_per_minute) \<and>
   (\<forall>t. used_at (iu_memberships (sample_usage 5 (sample_usage 2 default_ip_usage))) ''u::e'' ''1.2.3.4'' 5 t \<longleftrightarrow> t = 2 \<or> t = 5)"
proof -
  have ok: "memberships_ok (iu_memberships default_ip_usage)" and none: "latest_minute_dt tally_clock default_ip_usage = None"
    by (simp_all add: memberships_ok_def default_ip_usage_def latest_minute_dt_def)
  have never: "\<not> used_at (iu_memberships default_ip_usage) k ip l t" for k ip l t
    by (simp add: used_at_def window_at_def usage_bit_def default_ip_usage_def)
  have run: "record_minute_samples tally_clock (int m * nanos_per_minute) False [sample_seen] (\<lambda>_. default_geo) True u =
      (fst (record_minute_samples tally_clock (int m * nanos_per_minute) False [sample_seen] (\<lambda>_. default_geo) True u), sample_usage m u)" for m u
    by (simp add: sample_usage_def)
  have at2: "memberships_ok (iu_memberships (sample_usage 2 default_ip_usage))"
      "latest_minute_dt tally_clock (sample_usage 2 default_ip_usage) = Some (2 * nanos_per_minute)"
      "\<And>k ip t. used_at (iu_memberships (sample_usage 2 default_ip_usage)) k ip 2 t \<longleftrightarrow> t = 2 \<and> sampled [sample_seen] k ip"
    using record_minute_exact [OF ok tally_clock_minute run refl refl, of 2] by (simp_all add: none never)
  show ?thesis
    using record_minute_exact [OF at2(1) tally_clock_minute run refl refl, of 5] sample_seen_ip
    by (auto simp: at2(2,3) MINUTES_WINDOW_def)
qed

end
