(* ===== verification/Xp_Tcp_Usage.thy ===== *)
theory Xp_Tcp_Usage
  imports Xp_Inbound_Ip
begin

text \<open>
  The connection counts of \<^verbatim>\<open>tcp_connection_usage.rs\<close>: per endpoint a counter for every minute of the
  last seven days. The records, every operation of \<^verbatim>\<open>PersistedTcpConnectionUsage\<close> and the series a
  view shows are modelled; the section after them shows what recording a minute does to the counts.
\<close>

section \<open>Data\<close>

definition TCP_CONNECTION_USAGE_SCHEMA_VERSION :: u32 where
  "TCP_CONNECTION_USAGE_SCHEMA_VERSION = 1"

record tcp_warning =
  tw_code :: string
  tw_message :: string

record tcp_endpoint_usage =
  te_node_id :: string
  te_endpoint_id :: string
  te_endpoint_tag :: string
  te_port :: u16
  te_counts :: "u16 list"

record tcp_usage =
  tu_schema_version :: u32
  tu_generated_at :: string
  tu_minutes_window :: nat
  tu_latest_minute :: "string option"
  tu_linux_only :: bool
  tu_last_warning :: "tcp_warning option"
  tu_endpoints :: "(string, tcp_endpoint_usage) btree_map"

definition default_tcp_usage :: tcp_usage where
  "default_tcp_usage = \<lparr>tu_schema_version = TCP_CONNECTION_USAGE_SCHEMA_VERSION, tu_generated_at = [],
     tu_minutes_window = MINUTES_WINDOW, tu_latest_minute = None, tu_linux_only = True, tu_last_warning = None,
     tu_endpoints = bt_empty\<rparr>"

record tcp_sample =
  ts_node_id :: string
  ts_endpoint_id :: string
  ts_endpoint_tag :: string
  ts_port :: u16
  ts_count :: u32

record tcp_endpoint_view =
  tv_node_id :: string
  tv_endpoint_id :: string
  tv_endpoint_tag :: string
  tv_port :: u16

datatype tcp_window = Hours24 | Days7

fun window_minutes :: "tcp_window \<Rightarrow> nat" where
  "window_minutes Hours24 = 24 * 60"
| "window_minutes Days7 = 7 * 24 * 60"

record series_point =
  sp_minute :: string
  sp_count :: u32

record endpoint_series =
  es_endpoint_id :: string
  es_endpoint_tag :: string
  es_port :: u16
  es_series :: "series_point list"

section \<open>Operations\<close>

definition tcp_latest_minute_dt :: "clock \<Rightarrow> tcp_usage \<Rightarrow> int option" where
  "tcp_latest_minute_dt clk u = Option.bind (tu_latest_minute u) (parse_minute clk)"

definition tcp_build_warnings :: "bool \<Rightarrow> tcp_warning option \<Rightarrow> tcp_warning list" where
  "tcp_build_warnings linux_only last_warning =
     (if \<not> linux_only then [\<lparr>tw_code = ''unsupported_platform'',
        tw_message = ''TCP connection count history is currently only supported on Linux nodes.''\<rparr>] else []) @
     (case last_warning of None \<Rightarrow> [] | Some w \<Rightarrow> [w])"


definition follow_view :: "tcp_endpoint_view \<Rightarrow> tcp_endpoint_usage \<Rightarrow> tcp_endpoint_usage" where
  "follow_view v r = r\<lparr>te_node_id := tv_node_id v, te_endpoint_tag := tv_endpoint_tag v, te_port := tv_port v\<rparr>"

text \<open>
  \<^verbatim>\<open>PersistedTcpConnectionUsage::normalize\<close>: records of unknown endpoints go, the others take node, tag
  and port of their endpoint. Only these changes are reported, not a resized counter list.
\<close>

definition tcp_normalize :: "(string, tcp_endpoint_view) btree_map \<Rightarrow> tcp_usage \<Rightarrow> bool \<times> tcp_usage" where
  "tcp_normalize allowed u =
     (let changed = (tu_schema_version u \<noteq> TCP_CONNECTION_USAGE_SCHEMA_VERSION \<or> tu_minutes_window u \<noteq> MINUTES_WINDOW);
          kept = bt_retain (\<lambda>k _. bt_contains_key allowed k) (tu_endpoints u);
          changed = (changed \<or> bt_len kept \<noteq> bt_len (tu_endpoints u) \<or>
            list_ex (\<lambda>(k, r). case bt_get allowed k of None \<Rightarrow> False | Some v \<Rightarrow> follow_view v r \<noteq> r) (bt_entries kept));
          es = bt_map_values (\<lambda>k r. let r = r\<lparr>te_counts := normalize_counts (te_counts r)\<rparr>
            in case bt_get allowed k of None \<Rightarrow> r | Some v \<Rightarrow> follow_view v r) kept
      in (changed, u\<lparr>tu_schema_version := TCP_CONNECTION_USAGE_SCHEMA_VERSION, tu_minutes_window := MINUTES_WINDOW,
            tu_endpoints := es\<rparr>))"

definition clear_endpoint :: "string \<Rightarrow> tcp_usage \<Rightarrow> bool \<times> tcp_usage" where
  "clear_endpoint endpoint_id u =
     (bt_contains_key (tu_endpoints u) endpoint_id, u\<lparr>tu_endpoints := bt_remove endpoint_id (tu_endpoints u)\<rparr>)"

definition clear_node :: "string \<Rightarrow> tcp_usage \<Rightarrow> bool \<times> tcp_usage" where
  "clear_node node_id u =
     (let kept = bt_retain (\<lambda>_ r. te_node_id r \<noteq> node_id) (tu_endpoints u)
      in (bt_len kept \<noteq> bt_len (tu_endpoints u), u\<lparr>tu_endpoints := kept\<rparr>))"

definition tcp_shift_record :: "nat \<Rightarrow> tcp_endpoint_usage \<Rightarrow> tcp_endpoint_usage" where
  "tcp_shift_record shift r =
     r\<lparr>te_counts := (if shift \<ge> MINUTES_WINDOW then replicate MINUTES_WINDOW 0
        else shift_counts (normalize_counts (te_counts r)) shift)\<rparr>"

definition tcp_advance_to_minute :: "clock \<Rightarrow> int \<Rightarrow> tcp_usage \<Rightarrow> bool \<times> tcp_usage" where
  "tcp_advance_to_minute clk minute u =
     (case tcp_latest_minute_dt clk u of
        None \<Rightarrow> (True, u\<lparr>tu_latest_minute := Some (rfc3339_minute clk minute),
          tu_endpoints := bt_map_values (\<lambda>_ r. r\<lparr>te_counts := normalize_counts (te_counts r)\<rparr>) (tu_endpoints u)\<rparr>)
      | Some previous \<Rightarrow>
          let shift = num_minutes (minute - previous)
          in if shift \<le> 0 then (False, u)
             else (True, u\<lparr>tu_endpoints := bt_map_values (\<lambda>_. tcp_shift_record (nat shift)) (tu_endpoints u),
               tu_latest_minute := Some (rfc3339_minute clk minute)\<rparr>))"

definition clamp_count :: "u32 \<Rightarrow> u16" where
  "clamp_count c = ucast (min c 0xFFFF)"

definition with_latest :: "u16 \<Rightarrow> tcp_endpoint_usage \<Rightarrow> tcp_endpoint_usage" where
  "with_latest c r = r\<lparr>te_counts := (normalize_counts (te_counts r))[MINUTES_WINDOW - 1 := c]\<rparr>"

text \<open>The body of the loop over the samples, and of the loop over the endpoints without a sample.\<close>

definition tcp_record_sample ::
  "tcp_sample \<Rightarrow> bool \<times> (string, tcp_endpoint_usage) btree_map \<Rightarrow> bool \<times> (string, tcp_endpoint_usage) btree_map" where
  "tcp_record_sample s = (\<lambda>(changed, es).
     let r = bt_get_or \<lparr>te_node_id = ts_node_id s, te_endpoint_id = ts_endpoint_id s, te_endpoint_tag = ts_endpoint_tag s,
           te_port = ts_port s, te_counts = replicate MINUTES_WINDOW 0\<rparr> es (ts_endpoint_id s);
         r' = with_latest (clamp_count (ts_count s))
           (r\<lparr>te_node_id := ts_node_id s, te_endpoint_tag := ts_endpoint_tag s, te_port := ts_port s\<rparr>)
     in (changed \<or> te_node_id r \<noteq> ts_node_id s \<or> te_endpoint_tag r \<noteq> ts_endpoint_tag s \<or> te_port r \<noteq> ts_port s \<or>
           normalize_counts (te_counts r) ! (MINUTES_WINDOW - 1) \<noteq> clamp_count (ts_count s),
         bt_insert (ts_endpoint_id s) r' es))"

definition tcp_zero_others ::
  "tcp_sample list \<Rightarrow> bool \<times> (string, tcp_endpoint_usage) btree_map \<Rightarrow> bool \<times> (string, tcp_endpoint_usage) btree_map" where
  "tcp_zero_others samples = (\<lambda>(changed, es).
     let sampled_ids = set (map ts_endpoint_id samples)
     in (changed \<or> list_ex (\<lambda>(k, r). k \<notin> sampled_ids \<and> normalize_counts (te_counts r) ! (MINUTES_WINDOW - 1) \<noteq> 0)
           (bt_entries es),
         bt_map_values (\<lambda>k r. if k \<in> sampled_ids then r else with_latest 0 r) es))"

definition tcp_record_minute_samples ::
  "clock \<Rightarrow> int \<Rightarrow> bool \<Rightarrow> tcp_warning option \<Rightarrow> tcp_sample list \<Rightarrow> tcp_usage \<Rightarrow> bool \<times> tcp_usage" where
  "tcp_record_minute_samples clk minute linux_only warning samples u =
     (let minute = floor_minute minute;
          minute_str = rfc3339_minute clk minute;
          changed = (tu_schema_version u \<noteq> TCP_CONNECTION_USAGE_SCHEMA_VERSION \<or> tu_minutes_window u \<noteq> MINUTES_WINDOW \<or>
            tu_linux_only u \<noteq> linux_only \<or> tu_last_warning u \<noteq> warning);
          u = u\<lparr>tu_schema_version := TCP_CONNECTION_USAGE_SCHEMA_VERSION, tu_minutes_window := MINUTES_WINDOW,
            tu_linux_only := linux_only, tu_last_warning := warning\<rparr>;
          (advanced, u) = tcp_advance_to_minute clk minute u;
          (changed, es) = tcp_zero_others samples (fold tcp_record_sample samples (changed \<or> advanced, tu_endpoints u));
          u = u\<lparr>tu_endpoints := es\<rparr>
      in (changed \<or> tu_generated_at u \<noteq> minute_str, u\<lparr>tu_generated_at := minute_str\<rparr>))"

text \<open>The series that \<^verbatim>\<open>build_window_view\<close> shows for one endpoint of the request.\<close>

definition view_series :: "clock \<Rightarrow> tcp_usage \<Rightarrow> int \<Rightarrow> tcp_window \<Rightarrow> tcp_endpoint_view \<Rightarrow> endpoint_series" where
  "view_series clk u now window v =
     (let latest = (case tcp_latest_minute_dt clk u of None \<Rightarrow> floor_minute now | Some l \<Rightarrow> l);
          window_start = latest - int (window_minutes window - 1) * nanos_per_minute;
          counts = map_option te_counts (bt_get (tu_endpoints u) (tv_endpoint_id v))
      in \<lparr>es_endpoint_id = tv_endpoint_id v, es_endpoint_tag = tv_endpoint_tag v, es_port = tv_port v,
          es_series = map (\<lambda>index. \<lparr>sp_minute = rfc3339_minute clk (window_start + int index * nanos_per_minute),
              sp_count = (case counts of None \<Rightarrow> 0
                | Some counts \<Rightarrow> ucast (count_at counts (MINUTES_WINDOW - window_minutes window + index)))\<rparr>)
            [0..<window_minutes window]\<rparr>)"

definition view_endpoints :: "tcp_endpoint_view list \<Rightarrow> tcp_endpoint_view list" where
  "view_endpoints endpoints =
     sort_key tv_endpoint_tag (sort_key tv_port (sort_key tv_endpoint_id endpoints))"

definition tcp_build_window_view ::
  "clock \<Rightarrow> tcp_usage \<Rightarrow> int \<Rightarrow> tcp_window \<Rightarrow> tcp_endpoint_view list \<Rightarrow>
   string \<times> string \<times> tcp_warning list \<times> tcp_endpoint_view list \<times> endpoint_series list" where
  "tcp_build_window_view clk u now window endpoints =
     (let latest = (case tcp_latest_minute_dt clk u of None \<Rightarrow> floor_minute now | Some l \<Rightarrow> l);
          window_start = latest - int (window_minutes window - 1) * nanos_per_minute;
          options = view_endpoints endpoints
      in (rfc3339_minute clk window_start, rfc3339_minute clk latest,
          tcp_build_warnings (tu_linux_only u) (tu_last_warning u), options, map (view_series clk u now window) options))"

section \<open>The counts of the window\<close>

definition full_counts :: "(string, tcp_endpoint_usage) btree_map \<Rightarrow> bool" where
  "full_counts es = (\<forall>k r. bt_get es k = Some r \<longrightarrow> length (te_counts r) = MINUTES_WINDOW)"

definition tcp_count :: "(string, tcp_endpoint_usage) btree_map \<Rightarrow> string \<Rightarrow> int \<Rightarrow> int \<Rightarrow> u16" where
  "tcp_count es k l t =
     (case bt_get es k of None \<Rightarrow> 0 | Some r \<Rightarrow> window_at MINUTES_WINDOW 0 count_at (te_counts r) l t)"


text \<open>The count the samples give for an endpoint: the last one wins, none means no connection.\<close>

definition counted :: "tcp_sample list \<Rightarrow> string \<Rightarrow> u16" where
  "counted samples k =
     (case find (\<lambda>s. ts_endpoint_id s = k) (rev samples) of None \<Rightarrow> 0 | Some s \<Rightarrow> clamp_count (ts_count s))"

lemma counted_snoc: "counted (ss @ [s]) k = (if ts_endpoint_id s = k then clamp_count (ts_count s) else counted ss k)"
  by (simp add: counted_def)

lemma counted_none: "k \<notin> ts_endpoint_id ` set ss \<Longrightarrow> counted ss k = 0"
  by (induction ss rule: rev_induct) (auto simp: counted_snoc, simp add: counted_def)

lemma window_update:
  assumes "length counts = MINUTES_WINDOW"
  shows "window_at MINUTES_WINDOW 0 count_at (counts[MINUTES_WINDOW - Suc 0 := c]) l t =
    (if t = l then c else window_at MINUTES_WINDOW 0 count_at counts l t)"
proof (cases "l - int MINUTES_WINDOW < t \<and> t \<le> l")
  case True
  then have "nat (t - (l - int MINUTES_WINDOW) - 1) = MINUTES_WINDOW - Suc 0 \<longleftrightarrow> t = l" by (auto simp: MINUTES_WINDOW_def)
  with True assms show ?thesis by (auto simp: window_at_def count_at_def nth_list_update)
next
  case False
  then show ?thesis using window_positive by (auto simp: window_at_def)
qed

lemma window_zeros: "window_at MINUTES_WINDOW 0 count_at (replicate MINUTES_WINDOW 0) l t = 0"
  by (simp add: window_at_def count_at_def)

lemma full_countsD: "full_counts es \<Longrightarrow> bt_get es k = Some r \<Longrightarrow> length (te_counts r) = MINUTES_WINDOW"
  by (auto simp: full_counts_def)

lemma record_tcp_sample:
  assumes "full_counts es" "tcp_record_sample s (c, es) = (c', es')"
  shows "full_counts es' \<and>
    (\<forall>k l t. tcp_count es' k l t = (if t = l \<and> k = ts_endpoint_id s then clamp_count (ts_count s) else tcp_count es k l t))"
proof -
  let ?d = "\<lparr>te_node_id = ts_node_id s, te_endpoint_id = ts_endpoint_id s, te_endpoint_tag = ts_endpoint_tag s,
           te_port = ts_port s, te_counts = replicate MINUTES_WINDOW 0\<rparr>"
  let ?r = "bt_get_or ?d es (ts_endpoint_id s)"
  have len: "length (te_counts ?r) = MINUTES_WINDOW"
    using full_countsD [OF assms(1)] by (cases "bt_get es (ts_endpoint_id s)") (simp_all add: bt_get_or_def)
  have old: "tcp_count es (ts_endpoint_id s) l t = window_at MINUTES_WINDOW 0 count_at (te_counts ?r) l t" for l t
    by (cases "bt_get es (ts_endpoint_id s)") (simp_all add: tcp_count_def window_zeros)
  let ?r' = "with_latest (clamp_count (ts_count s)) (?r\<lparr>te_node_id := ts_node_id s, te_endpoint_tag := ts_endpoint_tag s, te_port := ts_port s\<rparr>)"
  have es': "es' = bt_insert (ts_endpoint_id s) ?r' es" using assms(2) by (simp add: tcp_record_sample_def Let_def)
  have r': "te_counts ?r' = (te_counts ?r)[MINUTES_WINDOW - Suc 0 := clamp_count (ts_count s)]"
    using len by (simp add: with_latest_def)
  have "full_counts es'" using assms(1) len by (auto simp: full_counts_def es' r' split: if_splits)
  moreover have "tcp_count es' k l t = (if t = l \<and> k = ts_endpoint_id s then clamp_count (ts_count s) else tcp_count es k l t)" for k l t
  proof (cases "k = ts_endpoint_id s")
    case True
    have "tcp_count es' k l t = window_at MINUTES_WINDOW 0 count_at (te_counts ?r') l t" by (simp add: True tcp_count_def es')
    then show ?thesis unfolding r' window_update [OF len] True old by simp
  next
    case False
    then show ?thesis by (simp add: tcp_count_def es')
  qed
  ultimately show ?thesis by blast
qed

lemma record_tcp_samples:
  assumes "full_counts es" "fold tcp_record_sample ss (c, es) = (c', es')"
  shows "full_counts es' \<and> (\<forall>k l t. tcp_count es' k l t =
    (if t = l \<and> k \<in> ts_endpoint_id ` set ss then counted ss k else tcp_count es k l t))"
  using assms(2)
proof (induction ss arbitrary: c' es' rule: rev_induct)
  case Nil
  then show ?case using assms(1) by simp
next
  case (snoc s ss)
  obtain c1 es1 where run: "fold tcp_record_sample ss (c, es) = (c1, es1)" by fastforce
  with snoc.prems have last_run: "tcp_record_sample s (c1, es1) = (c', es')" by simp
  from snoc.IH [OF run] record_tcp_sample [OF _ last_run] show ?case by (auto simp: counted_snoc)
qed

lemma zero_others:
  assumes "full_counts es" "tcp_zero_others ss (c, es) = (c', es')"
  shows "full_counts es' \<and> (\<forall>k l t. tcp_count es' k l t =
    (if t = l \<and> k \<notin> ts_endpoint_id ` set ss then 0 else tcp_count es k l t))"
proof -
  have es': "es' = bt_map_values (\<lambda>k r. if k \<in> ts_endpoint_id ` set ss then r else with_latest 0 r) es"
    using assms(2) by (simp add: tcp_zero_others_def Let_def)
  have "full_counts es'" using assms(1) by (auto simp: full_counts_def es' bt_get_map_values with_latest_def)
  moreover have "tcp_count es' k l t = (if t = l \<and> k \<notin> ts_endpoint_id ` set ss then 0 else tcp_count es k l t)" for k l t
    using full_countsD [OF assms(1), of k]
    by (cases "bt_get es k") (simp_all add: tcp_count_def es' bt_get_map_values with_latest_def window_update)
  ultimately show ?thesis by blast
qed

lemma tcp_shift_counts:
  assumes "full_counts es"
  shows "full_counts (bt_map_values (\<lambda>_. tcp_shift_record n) es) \<and>
    tcp_count (bt_map_values (\<lambda>_. tcp_shift_record n) es) k (l + int n) t =
      (if l + int n - int MINUTES_WINDOW < t then tcp_count es k l t else 0)"
proof
  show "full_counts (bt_map_values (\<lambda>_. tcp_shift_record n) es)"
    using assms by (auto simp: full_counts_def bt_get_map_values tcp_shift_record_def)
  show "tcp_count (bt_map_values (\<lambda>_. tcp_shift_record n) es) k (l + int n) t =
      (if l + int n - int MINUTES_WINDOW < t then tcp_count es k l t else 0)"
  proof (cases "bt_get es k")
    case None
    then show ?thesis by (simp add: tcp_count_def bt_get_map_values)
  next
    case (Some r)
    note len = full_countsD [OF assms Some]
    from Some have "tcp_count (bt_map_values (\<lambda>_. tcp_shift_record n) es) k (l + int n) t =
        window_at MINUTES_WINDOW 0 count_at (te_counts (tcp_shift_record n r)) (l + int n) t"
      by (simp add: tcp_count_def bt_get_map_values)
    also have "te_counts (tcp_shift_record n r) = shift_counts (te_counts r) n"
      using len by (simp add: tcp_shift_record_def shift_counts_def map_replicate_const)
    finally show ?thesis using Some by (simp add: cw.at_shift [OF len] tcp_count_def)
  qed
qed

lemma tcp_count_inside: "tcp_count es k l t \<noteq> 0 \<Longrightarrow> l - int MINUTES_WINDOW < t \<and> t \<le> l"
  by (auto simp: tcp_count_def window_at_def split: option.splits if_splits)

lemma tcp_advance:
  assumes ok: "full_counts (tu_endpoints u)"
    and m: "parse_minute clk (rfc3339_minute clk (m * nanos_per_minute)) = Some (m * nanos_per_minute)"
    and run: "tcp_advance_to_minute clk (m * nanos_per_minute) u = (c, u')"
    and l: "l = (case tcp_latest_minute_dt clk u of None \<Rightarrow> m | Some p \<Rightarrow> minute_no p)"
  shows "full_counts (tu_endpoints u') \<and> tcp_latest_minute_dt clk u' = Some (max l m * nanos_per_minute) \<and>
    (\<forall>k t. tcp_count (tu_endpoints u') k (max l m) t =
       (if max l m - int MINUTES_WINDOW < t then tcp_count (tu_endpoints u) k l t else 0))"
proof (cases "tcp_latest_minute_dt clk u")
  case None
  have "bt_map_values (\<lambda>_ r. r\<lparr>te_counts := normalize_counts (te_counts r)\<rparr>) (tu_endpoints u) = tu_endpoints u"
  proof (rule bt_eqI)
    show "bt_get (bt_map_values (\<lambda>_ r. r\<lparr>te_counts := normalize_counts (te_counts r)\<rparr>) (tu_endpoints u)) k = bt_get (tu_endpoints u) k" for k
      using full_countsD [OF ok, of k] by (cases "bt_get (tu_endpoints u) k") (simp_all add: bt_get_map_values)
  qed
  with None run have "u' = u\<lparr>tu_latest_minute := Some (rfc3339_minute clk (m * nanos_per_minute))\<rparr>"
    by (auto simp: tcp_advance_to_minute_def)
  with None ok m l tcp_count_inside [of "tu_endpoints u"] show ?thesis by (auto simp: tcp_latest_minute_dt_def)
next
  case (Some p)
  then have "p = minute_no p * nanos_per_minute"
    by (auto simp: tcp_latest_minute_dt_def parse_minute_def floor_minute_no split: bind_splits)
  with Some l have p: "p = l * nanos_per_minute" by simp
  have diff: "m * nanos_per_minute - p = (m - l) * nanos_per_minute" by (simp add: p algebra_simps)
  show ?thesis
  proof (cases "m \<le> l")
    case True
    then have "num_minutes (m * nanos_per_minute - p) \<le> 0" unfolding diff by (intro num_minutes_negative) simp
    with run Some have "u' = u" by (simp add: tcp_advance_to_minute_def)
    with ok Some True tcp_count_inside [of "tu_endpoints u"] show ?thesis by (auto simp: p max_def)
  next
    case False
    then have shift: "num_minutes (m * nanos_per_minute - p) = m - l" unfolding diff by (intro num_minutes_scaled) simp
    from run Some False shift have u': "u' = u\<lparr>tu_endpoints := bt_map_values (\<lambda>_. tcp_shift_record (nat (m - l))) (tu_endpoints u),
        tu_latest_minute := Some (rfc3339_minute clk (m * nanos_per_minute))\<rparr>"
      by (simp add: tcp_advance_to_minute_def Let_def)
    have "l + int (nat (m - l)) = m" "max l m = m" using False by simp_all
    with tcp_shift_counts [OF ok, of "nat (m - l)" _ l] m show ?thesis by (simp add: u' tcp_latest_minute_dt_def)
  qed
qed

text \<open>
  C36: Recording a minute of connection counts is exact on the window. Where the clock reads back the minute
  it writes, the latest minute becomes the later of the stored one and the sampled one; at that minute every
  endpoint has the count of its last sample, capped at the greatest 16-bit number, and zero without a sample;
  at the earlier minutes still inside the window every count is unchanged, and the others are gone.
\<close>
theorem tcp_record_exact:
  assumes "full_counts (tu_endpoints u)"
    and "ck_parse_rfc3339 clk (ck_to_rfc3339 clk (floor_minute now)) = Some (floor_minute now)"
    and "tcp_record_minute_samples clk now linux warning samples u = (changed, u')"
    and "l = (case tcp_latest_minute_dt clk u of None \<Rightarrow> minute_no now | Some p \<Rightarrow> minute_no p)"
    and "l' = max l (minute_no now)"
  shows "full_counts (tu_endpoints u') \<and> tcp_latest_minute_dt clk u' = Some (l' * nanos_per_minute) \<and>
    (\<forall>k t. tcp_count (tu_endpoints u') k l' t =
       (if t = l' then counted samples k
        else if l' - int MINUTES_WINDOW < t then tcp_count (tu_endpoints u) k l t else 0))"
proof -
  let ?m = "minute_no now"
  let ?u = "u\<lparr>tu_schema_version := TCP_CONNECTION_USAGE_SCHEMA_VERSION, tu_minutes_window := MINUTES_WINDOW,
            tu_linux_only := linux, tu_last_warning := warning\<rparr>"
  obtain c1 u1 where adv: "tcp_advance_to_minute clk (?m * nanos_per_minute) ?u = (c1, u1)" by (metis surj_pair)
  have parse: "parse_minute clk (rfc3339_minute clk (?m * nanos_per_minute)) = Some (?m * nanos_per_minute)"
    using assms(2) by (simp add: parse_minute_def rfc3339_minute_def floor_minute_no)
  have ok: "full_counts (tu_endpoints ?u)" using assms(1) by simp
  have l: "l = (case tcp_latest_minute_dt clk ?u of None \<Rightarrow> ?m | Some p \<Rightarrow> minute_no p)"
    using assms(4) by (simp add: tcp_latest_minute_dt_def)
  note advanced = tcp_advance [OF ok parse adv l, folded assms(5)]
  let ?c0 = "(tu_schema_version u \<noteq> TCP_CONNECTION_USAGE_SCHEMA_VERSION \<or> tu_minutes_window u \<noteq> MINUTES_WINDOW \<or>
            tu_linux_only u \<noteq> linux \<or> tu_last_warning u \<noteq> warning) \<or> c1"
  obtain c2 es2 where loop: "fold tcp_record_sample samples (?c0, tu_endpoints u1) = (c2, es2)" by (metis surj_pair)
  obtain c3 es3 where rest: "tcp_zero_others samples (c2, es2) = (c3, es3)" by (metis surj_pair)
  have "u' = u1\<lparr>tu_endpoints := es3, tu_generated_at := rfc3339_minute clk (?m * nanos_per_minute)\<rparr>"
    using assms(3) unfolding tcp_record_minute_samples_def Let_def floor_minute_no adv prod.case loop rest by simp
  then have u': "tu_endpoints u' = es3" "tcp_latest_minute_dt clk u' = tcp_latest_minute_dt clk u1"
    by (simp_all add: tcp_latest_minute_dt_def)
  from record_tcp_samples [OF conjunct1 [OF advanced] loop] have es2: "full_counts es2"
    and two: "\<And>k l t. tcp_count es2 k l t =
      (if t = l \<and> k \<in> ts_endpoint_id ` set samples then counted samples k else tcp_count (tu_endpoints u1) k l t)" by blast+
  from zero_others [OF es2 rest] have es3: "full_counts es3"
    and three: "\<And>k l t. tcp_count es3 k l t = (if t = l \<and> k \<notin> ts_endpoint_id ` set samples then 0 else tcp_count es2 k l t)" by blast+
  have "tcp_count es3 k l' t = (if t = l' then counted samples k
        else if l' - int MINUTES_WINDOW < t then tcp_count (tu_endpoints u) k l t else 0)" for k t
    using advanced counted_none [of k samples] by (simp add: two three)
  with advanced es3 show ?thesis by (simp add: u')
qed


text \<open>An endpoint with two connections at minute 2 and 70000 at minute 5.\<close>

definition sample_counts :: "nat \<Rightarrow> u32 \<Rightarrow> tcp_usage \<Rightarrow> tcp_usage" where
  "sample_counts m c u = snd (tcp_record_minute_samples tally_clock (int m * nanos_per_minute) True None
     [\<lparr>ts_node_id = ''n'', ts_endpoint_id = ''e'', ts_endpoint_tag = ''t'', ts_port = 443, ts_count = c\<rparr>] u)"

lemma sample_counts_run:
  "tcp_record_minute_samples tally_clock (int m * nanos_per_minute) True None
     [\<lparr>ts_node_id = ''n'', ts_endpoint_id = ''e'', ts_endpoint_tag = ''t'', ts_port = 443, ts_count = c\<rparr>] u =
   (fst (tcp_record_minute_samples tally_clock (int m * nanos_per_minute) True None
     [\<lparr>ts_node_id = ''n'', ts_endpoint_id = ''e'', ts_endpoint_tag = ''t'', ts_port = 443, ts_count = c\<rparr>] u), sample_counts m c u)"
  by (simp add: sample_counts_def)

theorem tcp_record_exact_witness:
  "let es = tu_endpoints (sample_counts 5 70000 (sample_counts 2 2 default_tcp_usage))
   in tcp_count es ''e'' 5 2 = 2 \<and> tcp_count es ''e'' 5 3 = 0 \<and> tcp_count es ''e'' 5 5 = 0xFFFF"
proof -
  have ok: "full_counts (tu_endpoints default_tcp_usage)" and none: "tcp_latest_minute_dt tally_clock default_tcp_usage = None"
    by (simp_all add: full_counts_def default_tcp_usage_def tcp_latest_minute_dt_def)
  have never: "tcp_count (tu_endpoints default_tcp_usage) k l t = 0" for k l t
    by (simp add: tcp_count_def default_tcp_usage_def)
  have at2: "full_counts (tu_endpoints (sample_counts 2 2 default_tcp_usage))"
      "tcp_latest_minute_dt tally_clock (sample_counts 2 2 default_tcp_usage) = Some (2 * nanos_per_minute)"
      "tcp_count (tu_endpoints (sample_counts 2 2 default_tcp_usage)) ''e'' 2 t = (if t = 2 then 2 else 0)" for t
    using tcp_record_exact [OF ok tally_clock_minute sample_counts_run refl refl, of 2 2]
    by (simp_all add: none never counted_def clamp_count_def)
  show ?thesis
    using tcp_record_exact [OF at2(1) tally_clock_minute sample_counts_run refl refl, of 5 70000]
    by (simp add: at2(2,3) MINUTES_WINDOW_def counted_def clamp_count_def Let_def)
qed


end
