(* ===== verification/Xp_Nodes.thy ===== *)
theory Xp_Nodes
  imports Xp_Endpoints
begin

text \<open>
  Nodes and what is attached to them: joining and leaving (\<^verbatim>\<open>state_join_command.rs\<close>, the deletion
  arm of \<^verbatim>\<open>state.rs\<close>), the durable membership operations (\<^verbatim>\<open>membership_operation.rs\<close>), the reverse-mesh
  assignments, and the endpoint probe history.
\<close>

section \<open>Quota settings\<close>

definition validate_user_quota_reset :: "user_quota_reset \<Rightarrow> domain_error + unit" where
  "validate_user_quota_reset reset =
     (case reset of
        UqrUnlimited tz \<Rightarrow> validate_tz_offset_minutes tz
      | UqrMonthly day tz \<Rightarrow>
          and_then (validate_cycle_day_of_month day) (\<lambda>_. validate_tz_offset_minutes tz))"

definition validate_node_quota_reset :: "node_quota_reset \<Rightarrow> domain_error + unit" where
  "validate_node_quota_reset reset =
     (case reset of
        NqrUnlimited tz \<Rightarrow> (case tz of None \<Rightarrow> Inr () | Some tz \<Rightarrow> validate_tz_offset_minutes tz)
      | NqrMonthly day tz \<Rightarrow>
          and_then (validate_cycle_day_of_month day) (\<lambda>_.
            case tz of None \<Rightarrow> Inr () | Some tz \<Rightarrow> validate_tz_offset_minutes tz))"

definition validate_node_quota_config :: "node \<Rightarrow> domain_error + unit" where
  "validate_node_quota_config node =
     (if n_quota_limit_bytes node > 0 \<and> (case n_quota_reset node of NqrUnlimited _ \<Rightarrow> True | _ \<Rightarrow> False)
      then Inl (InvalidNodeQuotaConfig ''quota_limit_bytes > 0 requires quota_reset policy monthly'')
      else Inr ())"

section \<open>Joining\<close>

definition validate_session :: "state \<Rightarrow> join_session option \<Rightarrow> store_error + unit" where
  "validate_session s session =
     (case session of
        None \<Rightarrow> Inr ()
      | Some session \<Rightarrow>
          (case bt_get (st_join_sessions s) (js_node_id session) of
             None \<Rightarrow> Inr ()
           | Some current \<Rightarrow> map_err InvalidJoinSession (join_validate_successor current session)))"

definition commit_session :: "join_session option \<Rightarrow> state \<Rightarrow> state" where
  "commit_session session s =
     (case session of
        None \<Rightarrow> s
      | Some session \<Rightarrow> s\<lparr>st_join_sessions := bt_insert (js_node_id session) session (st_join_sessions s)\<rparr>)"

definition apply_upsert_node :: "node \<Rightarrow> join_session option \<Rightarrow> state_handler" where
  "apply_upsert_node node session s =
     try_in s (validate_session s session) (\<lambda>_.
     try_in s (map_err Domain (validate_node_quota_reset (n_quota_reset node))) (\<lambda>_.
     try_in s (map_err Domain (validate_node_quota_config node)) (\<lambda>_.
       let s1 = s\<lparr>st_nodes := bt_insert (n_node_id node) node (st_nodes s)\<rparr>;
           s2 = commit_session session s1
       in (Inr Applied, sync_memberships s2))))"

section \<open>Leaving\<close>

definition remove_endpoint_refs :: "(string \<times> string) list \<Rightarrow> state \<Rightarrow> state" where
  "remove_endpoint_refs refs s =
     fold (\<lambda>(endpoint_id, _) s.
         let s1 = s\<lparr>st_endpoints := bt_remove endpoint_id (st_endpoints s)\<rparr>
         in s1\<lparr>st_endpoint_probe_history := bt_remove endpoint_id (st_endpoint_probe_history s1)\<rparr>)
       refs s"

text \<open>Removing a node from every inner map and dropping the inner maps that become empty.\<close>

definition forget_inner :: "'k::linorder \<Rightarrow> ('o::linorder, ('k, 'v) btree_map) btree_map \<Rightarrow> ('o, ('k, 'v) btree_map) btree_map" where
  "forget_inner k m = bt_retain (\<lambda>_ inner. \<not> bt_is_empty inner) (bt_map_values (\<lambda>_. bt_remove k) m)"

definition forget_in_history :: "string \<Rightarrow> (string, probe_history) btree_map \<Rightarrow> (string, probe_history) btree_map" where
  "forget_in_history node_id m =
     bt_retain (\<lambda>_ hours. \<not> bt_is_empty hours) (bt_map_values (\<lambda>_. forget_inner node_id) m)"

definition forget_node :: "string \<Rightarrow> state \<Rightarrow> state" where
  "forget_node node_id s =
     (let s = s\<lparr>st_reality_domains :=
                  map (\<lambda>d. d\<lparr>rd_disabled_node_ids := bs_remove node_id (rd_disabled_node_ids d)\<rparr>) (st_reality_domains s)\<rparr>;
          s = s\<lparr>st_user_node_quotas := forget_inner node_id (st_user_node_quotas s)\<rparr>;
          s = s\<lparr>st_user_node_weights := forget_inner node_id (st_user_node_weights s)\<rparr>;
          s = s\<lparr>st_node_weight_policies := bt_remove node_id (st_node_weight_policies s)\<rparr>;
          s = s\<lparr>st_endpoint_probe_history := forget_in_history node_id (st_endpoint_probe_history s)\<rparr>;
          s = s\<lparr>st_endpoint_probe_participants_by_hour :=
                  bt_retain (\<lambda>_ ps. \<not> bt_is_empty ps)
                    (bt_map_values (\<lambda>_. bs_remove node_id) (st_endpoint_probe_participants_by_hour s))\<rparr>;
          s = s\<lparr>st_node_egress_probes := bt_remove node_id (st_node_egress_probes s)\<rparr>
      in s\<lparr>st_reverse_mesh_assignments :=
             bt_retain (\<lambda>target_id a. target_id \<noteq> node_id \<and> ra_target_node_id a \<noteq> node_id \<and>
               \<not> contains_rendezvous a node_id) (st_reverse_mesh_assignments s)\<rparr>)"

definition apply_delete_node :: "string \<Rightarrow> bool \<Rightarrow> string list \<Rightarrow> join_session option \<Rightarrow> state_handler" where
  "apply_delete_node node_id delete_endpoints expected_endpoint_ids session s =
     try_in s (validate_session s session) (\<lambda>_.
       if \<not> bt_contains_key (st_nodes s) node_id
       then (Inr (NodeDeleted False []), commit_session session s)
       else
         let refs = map (\<lambda>e. (ep_endpoint_id e, ep_tag e)) (endpoints_on node_id s)
         in if refs \<noteq> [] \<and> \<not> delete_endpoints
            then (Inl (Domain (NodeInUse node_id (fst (refs ! 0)))), s)
            else if delete_endpoints \<and> bs_of_list (map fst refs) \<noteq> bs_of_list expected_endpoint_ids
            then (Inl (Domain (NodeEndpointSetChanged node_id)), s)
            else
              let s1 = remove_endpoint_refs refs s;
                  s2 = s1\<lparr>st_nodes := bt_remove node_id (st_nodes s1)\<rparr>;
                  s3 = commit_session session s2;
                  s4 = forget_node node_id s3
              in (Inr (NodeDeleted True (map snd refs)), sync_memberships s4))"

section \<open>Membership operations\<close>

text \<open>The command works on a clone of the state and commits it at the end; an error drops the clone.\<close>

definition apply_begin_membership_operation ::
  "membership_operation \<Rightarrow> node option \<Rightarrow> join_session option \<Rightarrow> state_handler" where
  "apply_begin_membership_operation operation node join_session s =
     (if trim (mo_operation_id operation) = [] \<or> trim (mo_expected_membership operation) = [] \<or>
         trim (mo_created_at operation) = []
      then (Inl (InvalidMembershipOperation ''membership operation identity is empty''), s)
      else if mo_phase operation \<noteq> Prepared
      then (Inl (InvalidMembershipOperation ''membership operation must begin prepared''), s)
      else if bt_contains_key (st_membership_operations s) (mo_operation_id operation)
      then (Inl (InvalidMembershipOperation ''membership operation id already exists''), s)
      else if active_membership_operation s \<noteq> None
      then (Inl (InvalidMembershipOperation ''another membership operation is active''), s)
      else if mo_kind operation = Join \<and> \<not> mo_legacy operation \<and> (node = None \<or> join_session = None)
      then (Inl (InvalidMembershipOperation ''join operation must atomically persist node and session''), s)
      else if (node \<noteq> None) \<noteq> (join_session \<noteq> None)
      then (Inl (InvalidMembershipOperation ''membership operation node and join session must be paired''), s)
      else try_in s (validate_remove_node_endpoint_snapshot s operation) (\<lambda>_.
        let (r, nxt) = (case node of None \<Rightarrow> (Inr Applied, s) | Some node \<Rightarrow> apply_upsert_node node join_session s)
        in case r of
             Inl e \<Rightarrow> (Inl e, s)
           | Inr _ \<Rightarrow>
               (Inr (MembershipOperationResult operation),
                nxt\<lparr>st_membership_operations :=
                  bt_insert (mo_operation_id operation) operation (st_membership_operations nxt)\<rparr>)))"

definition apply_transition_membership_operation :: "ext \<Rightarrow> membership_operation \<Rightarrow> state_handler" where
  "apply_transition_membership_operation x operation s =
     (case bt_get (st_membership_operations s) (mo_operation_id operation) of
        None \<Rightarrow> (Inl (InvalidMembershipOperation ''membership operation does not exist''), s)
      | Some current \<Rightarrow>
          try_in s (map_err InvalidMembershipOperation (op_validate_successor (x_rfc3339 x) current operation)) (\<lambda>_.
            (Inr (MembershipOperationResult operation),
             s\<lparr>st_membership_operations :=
               bt_insert (mo_operation_id operation) operation (st_membership_operations s)\<rparr>)))"

definition outlives_prune :: "ext \<Rightarrow> int \<Rightarrow> membership_operation \<Rightarrow> bool" where
  "outlives_prune x before operation =
     (case mo_terminal_at operation of
        None \<Rightarrow> True
      | Some terminal_at \<Rightarrow> (case x_rfc3339 x terminal_at of None \<Rightarrow> True | Some t \<Rightarrow> t > before))"

definition apply_prune_membership_operations :: "ext \<Rightarrow> string \<Rightarrow> state_handler" where
  "apply_prune_membership_operations x terminal_before s =
     (case x_rfc3339 x terminal_before of
        None \<Rightarrow> (Inl (InvalidMembershipOperation ''membership operation prune time is invalid''), s)
      | Some before \<Rightarrow>
          (Inr Applied,
           s\<lparr>st_membership_operations :=
             bt_retain (\<lambda>_ operation. outlives_prune x before operation) (st_membership_operations s)\<rparr>))"

section \<open>Reverse-mesh assignments\<close>

definition apply_set_reverse_mesh_epoch :: "u64 \<Rightarrow> state_handler" where
  "apply_set_reverse_mesh_epoch epoch s =
     (if epoch < st_reverse_mesh_epoch s
      then (Inl (Migration (''reverse mesh epoch cannot move backwards: current='' @ show_word (st_reverse_mesh_epoch s) @
              '', requested='' @ show_word epoch)), s)
      else (Inr Applied, s\<lparr>st_reverse_mesh_epoch := epoch\<rparr>))"

definition apply_upsert_reverse_mesh_assignment :: "reverse_mesh_assignment \<Rightarrow> u64 option \<Rightarrow> state_handler" where
  "apply_upsert_reverse_mesh_assignment assignment expected_generation s =
     (if \<not> assignment_is_valid assignment \<or> ra_generation assignment = 0 \<or> ra_membership_revision assignment = 0
      then (Inl (Migration ''invalid reverse mesh assignment''), s)
      else if \<not> bt_contains_key (st_nodes s) (ra_target_node_id assignment) \<or>
              \<not> bt_contains_key (st_nodes s) (ra_primary_node_id assignment) \<or>
              ra_target_node_id assignment = ra_primary_node_id assignment \<or>
              (case ra_standby_node_id assignment of
                 None \<Rightarrow> False
               | Some standby \<Rightarrow>
                   \<not> bt_contains_key (st_nodes s) standby \<or> standby = ra_target_node_id assignment \<or>
                   standby = ra_primary_node_id assignment)
      then (Inl (Migration ''reverse mesh assignment references an invalid cluster node''), s)
      else if ra_credential_epoch assignment \<noteq> st_reverse_mesh_epoch s
      then (Inl (Migration (''reverse mesh assignment credential epoch '' @ show_word (ra_credential_epoch assignment) @
              '' does not match state epoch '' @ show_word (st_reverse_mesh_epoch s))), s)
      else
        let current = bt_get (st_reverse_mesh_assignments s) (ra_target_node_id assignment)
        in if (case expected_generation of
                 None \<Rightarrow> False
               | Some expected \<Rightarrow> map_option ra_generation current \<noteq> Some expected)
           then (Inl (Migration ''reverse mesh assignment generation CAS failed''), s)
           else
             let generation_floor = bt_get_or 0 (st_reverse_mesh_generation_counters s) (ra_target_node_id assignment);
                 is_same_current_generation =
                   (case current of None \<Rightarrow> False | Some c \<Rightarrow> ra_generation c = ra_generation assignment)
             in if ra_generation assignment < generation_floor \<or>
                   (\<not> is_same_current_generation \<and> ra_generation assignment \<le> generation_floor)
                then (Inl (Migration (''reverse mesh assignment generation '' @ show_word (ra_generation assignment) @
                        '' is below durable floor '' @ show_word generation_floor)), s)
                else
                  let s1 = s\<lparr>st_reverse_mesh_assignments :=
                         bt_insert (ra_target_node_id assignment) assignment (st_reverse_mesh_assignments s)\<rparr>
                  in (Inr Applied,
                      s1\<lparr>st_reverse_mesh_generation_counters :=
                        (case bt_get (st_reverse_mesh_generation_counters s1) (ra_target_node_id assignment) of
                           None \<Rightarrow> bt_insert (ra_target_node_id assignment) (ra_generation assignment)
                             (st_reverse_mesh_generation_counters s1)
                         | Some g \<Rightarrow> bt_insert (ra_target_node_id assignment) (max g (ra_generation assignment))
                             (st_reverse_mesh_generation_counters s1))\<rparr>))"

definition apply_delete_reverse_mesh_assignment :: "string \<Rightarrow> u64 option \<Rightarrow> state_handler" where
  "apply_delete_reverse_mesh_assignment target_node_id expected_generation s =
     (let current = bt_get (st_reverse_mesh_assignments s) target_node_id
      in if (case expected_generation of
               None \<Rightarrow> False
             | Some expected \<Rightarrow> map_option ra_generation current \<noteq> Some expected)
         then (Inl (Migration ''reverse mesh assignment deletion CAS failed''), s)
         else (Inr Applied,
               s\<lparr>st_reverse_mesh_assignments := bt_remove target_node_id (st_reverse_mesh_assignments s)\<rparr>))"

section \<open>Probe history\<close>

lemma bt_len_remove_less: "bt_contains_key m k \<Longrightarrow> bt_len (bt_remove k m) < bt_len m"
proof -
  assume "bt_contains_key m k"
  then obtain v where "(k, v) \<in> set (bt_entries m)" by (auto simp: bt_contains_iff bt_entries_iff)
  then show ?thesis
    unfolding bt_len_def bt_remove_def bt_retain.rep_eq by (intro length_filter_less) auto
qed

function prune_endpoint_probe_hour_map :: "(string, 'v) btree_map \<Rightarrow> (string, 'v) btree_map" where
  "prune_endpoint_probe_hour_map hours =
     (if bt_len hours > ENDPOINT_PROBE_HOUR_BUCKET_LIMIT
      then (case bt_keys hours of
          [] \<Rightarrow> hours
        | oldest # _ \<Rightarrow> prune_endpoint_probe_hour_map (bt_remove oldest hours))
      else hours)"
  by pat_completeness auto
termination
  by (relation "measure bt_len") (auto intro!: bt_len_remove_less simp: bt_keys_iff [symmetric] simp del: bt_keys_iff)

declare prune_endpoint_probe_hour_map.simps [simp del]

definition node_sample :: "probe_append_sample \<Rightarrow> probe_node_sample" where
  "node_sample p = \<lparr>pns_ok = pas_ok p, pns_skipped = pas_skipped p, pns_checked_at = pas_checked_at p,
     pns_latency_ms = pas_latency_ms p, pns_target_id = pas_target_id p, pns_target_url = pas_target_url p,
     pns_error = pas_error p, pns_config_hash = pas_config_hash p\<rparr>"

definition append_sample :: "string \<Rightarrow> string \<Rightarrow> probe_append_sample \<Rightarrow> state \<Rightarrow> state" where
  "append_sample hour from_node_id p s =
     (if \<not> bt_contains_key (st_endpoints s) (pas_endpoint_id p) then s
      else
        let history = bt_get_or bt_empty (st_endpoint_probe_history s) (pas_endpoint_id p);
            bucket = bt_get_or bt_empty history hour;
            bucket = bt_insert from_node_id (node_sample p) bucket;
            history = bt_insert hour bucket history;
            history = prune_endpoint_probe_hour_map history
        in s\<lparr>st_endpoint_probe_history := bt_insert (pas_endpoint_id p) history (st_endpoint_probe_history s)\<rparr>)"

definition apply_append_endpoint_probe_samples :: "string \<Rightarrow> string \<Rightarrow> probe_append_sample list \<Rightarrow> state_handler" where
  "apply_append_endpoint_probe_samples hour from_node_id samples s =
     (let s1 = s\<lparr>st_endpoint_probe_participants_by_hour :=
                bt_entry hour bt_empty (bs_insert from_node_id) (st_endpoint_probe_participants_by_hour s)\<rparr>;
          s2 = s1\<lparr>st_endpoint_probe_participants_by_hour :=
                prune_endpoint_probe_hour_map (st_endpoint_probe_participants_by_hour s1)\<rparr>
      in (Inr Applied, fold (append_sample hour from_node_id) samples s2))"

text \<open>\<^verbatim>\<open>prune_deleted_nodes_from_endpoint_probe_tracking\<close>, which runs when the store is opened.\<close>

definition prune_deleted_nodes :: "state \<Rightarrow> bool \<times> state" where
  "prune_deleted_nodes s =
     (let known = (\<lambda>node_id. bt_contains_key (st_nodes s) node_id);
          h0 = st_endpoint_probe_history s;
          h1 = bt_map_values (\<lambda>_. bt_map_values (\<lambda>_. bt_retain (\<lambda>node_id _. known node_id))) h0;
          h2 = bt_map_values (\<lambda>_. bt_retain (\<lambda>_ bucket. \<not> bt_is_empty bucket)) h1;
          h3 = bt_retain (\<lambda>_ hours. \<not> bt_is_empty hours) h2;
          p0 = st_endpoint_probe_participants_by_hour s;
          p1 = bt_map_values (\<lambda>_. bs_retain known) p0;
          p2 = bt_retain (\<lambda>_ ps. \<not> bt_is_empty ps) p1;
          changed =
            list_ex (\<lambda>(e, hours). list_ex (\<lambda>(hour, bucket).
              bt_len bucket \<noteq> bt_len (bt_retain (\<lambda>node_id _. known node_id) bucket)) (bt_entries hours)) (bt_entries h0) \<or>
            list_ex (\<lambda>(e, hours). bt_len hours \<noteq> bt_len (bt_retain (\<lambda>_ bucket. \<not> bt_is_empty bucket) hours)) (bt_entries h1) \<or>
            bt_len h2 \<noteq> bt_len h3 \<or>
            list_ex (\<lambda>(hour, ps). bt_len ps \<noteq> bt_len (bs_retain known ps)) (bt_entries p0) \<or>
            bt_len p1 \<noteq> bt_len p2
      in (changed, s\<lparr>st_endpoint_probe_history := h3, st_endpoint_probe_participants_by_hour := p2\<rparr>))"

end
