(* ===== verification/Xp_Apply.thy ===== *)
theory Xp_Apply
  imports Xp_Nodes
begin

text \<open>
  The state machine of \<^verbatim>\<open>state.rs\<close>: the remaining command handlers and the dispatcher
  \<^verbatim>\<open>DesiredStateCommand::apply\<close>, which every node runs on every committed log entry. The theory shows
  that a rejected command leaves the state as it was.
\<close>

section \<open>Users\<close>

definition apply_upsert_user :: "user \<Rightarrow> state_handler" where
  "apply_upsert_user user s =
     try_in s (map_err Domain (validate_user_quota_reset (u_quota_reset user))) (\<lambda>_.
       (Inr Applied, s\<lparr>st_users := bt_insert (u_user_id user) user (st_users s)\<rparr>))"

definition apply_delete_user :: "string \<Rightarrow> state_handler" where
  "apply_delete_user user_id s =
     (let s = s\<lparr>st_mihomo_resource_revision := st_mihomo_resource_revision s + 1\<rparr>;
          deleted = bt_contains_key (st_users s) user_id;
          s = s\<lparr>st_users := bt_remove user_id (st_users s)\<rparr>;
          s = s\<lparr>st_user_node_quotas := bt_remove user_id (st_user_node_quotas s)\<rparr>;
          s = s\<lparr>st_user_node_weights := bt_remove user_id (st_user_node_weights s)\<rparr>;
          s = s\<lparr>st_user_global_weights := bt_remove user_id (st_user_global_weights s)\<rparr>;
          s = s\<lparr>st_user_mihomo_profiles := bt_remove user_id (st_user_mihomo_profiles s)\<rparr>
      in (Inr (UserDeleted deleted), sync_memberships s))"

definition apply_reset_user_subscription_token :: "string \<Rightarrow> string \<Rightarrow> state_handler" where
  "apply_reset_user_subscription_token user_id subscription_token s =
     (case bt_get (st_users s) user_id of
        None \<Rightarrow> (Inr (UserTokenReset False), s)
      | Some user \<Rightarrow>
          (Inr (UserTokenReset True),
           s\<lparr>st_users := bt_insert user_id (user\<lparr>u_subscription_token := subscription_token\<rparr>) (st_users s)\<rparr>))"

definition apply_set_user_node_quota :: "string \<Rightarrow> string \<Rightarrow> u64 \<Rightarrow> quota_reset_source \<Rightarrow> state_handler" where
  "apply_set_user_node_quota user_id node_id quota_limit_bytes quota_reset_source s =
     (if \<not> bt_contains_key (st_users s) user_id then (Inl (Domain (MissingUser user_id)), s)
      else if \<not> bt_contains_key (st_nodes s) node_id then (Inl (Domain (MissingNode node_id)), s)
      else
        (Inr (UserNodeQuotaSet \<lparr>unq_user_id = user_id, unq_node_id = node_id,
           unq_quota_limit_bytes = quota_limit_bytes, unq_quota_reset_source = quota_reset_source\<rparr>),
         s\<lparr>st_user_node_quotas := bt_entry user_id bt_empty
             (bt_insert node_id \<lparr>unqc_quota_limit_bytes = Some quota_limit_bytes,
                unqc_quota_reset_source = quota_reset_source\<rparr>) (st_user_node_quotas s)\<rparr>))"

definition apply_set_user_node_weight :: "string \<Rightarrow> string \<Rightarrow> u16 \<Rightarrow> state_handler" where
  "apply_set_user_node_weight user_id node_id weight s =
     (if \<not> bt_contains_key (st_users s) user_id then (Inl (Domain (MissingUser user_id)), s)
      else if \<not> bt_contains_key (st_nodes s) node_id then (Inl (Domain (MissingNode node_id)), s)
      else
        let s1 = s\<lparr>st_user_node_weights :=
               bt_entry user_id bt_empty (bt_insert node_id weight) (st_user_node_weights s)\<rparr>
        in (Inr Applied, s1\<lparr>st_node_weight_policies := bt_insert node_id False (st_node_weight_policies s1)\<rparr>))"

definition apply_set_user_global_weight :: "string \<Rightarrow> u16 \<Rightarrow> state_handler" where
  "apply_set_user_global_weight user_id weight s =
     (if \<not> bt_contains_key (st_users s) user_id then (Inl (Domain (MissingUser user_id)), s)
      else (Inr Applied, s\<lparr>st_user_global_weights := bt_insert user_id weight (st_user_global_weights s)\<rparr>))"

definition apply_set_node_weight_policy :: "string \<Rightarrow> bool \<Rightarrow> state_handler" where
  "apply_set_node_weight_policy node_id inherit_global s =
     (if \<not> bt_contains_key (st_nodes s) node_id then (Inl (Domain (MissingNode node_id)), s)
      else (Inr Applied, s\<lparr>st_node_weight_policies := bt_insert node_id inherit_global (st_node_weight_policies s)\<rparr>))"

definition apply_set_user_mihomo_profile :: "string \<Rightarrow> user_mihomo_profile \<Rightarrow> state_handler" where
  "apply_set_user_mihomo_profile user_id profile s =
     (if \<not> bt_contains_key (st_users s) user_id then (Inl (Domain (MissingUser user_id)), s)
      else
        let s1 = s\<lparr>st_mihomo_resource_revision := st_mihomo_resource_revision s + 1\<rparr>
        in (Inr Applied, s1\<lparr>st_user_mihomo_profiles := bt_insert user_id profile (st_user_mihomo_profiles s1)\<rparr>))"

definition apply_bump_user_credential_epoch :: "string \<Rightarrow> state_handler" where
  "apply_bump_user_credential_epoch user_id s =
     (case bt_get (st_users s) user_id of
        None \<Rightarrow> (Inl (Domain (MissingUser user_id)), s)
      | Some user \<Rightarrow>
          let epoch = sat_add (u_credential_epoch user) 1
          in (Inr (UserCredentialEpochBumped user_id epoch),
              s\<lparr>st_users := bt_insert user_id (user\<lparr>u_credential_epoch := epoch\<rparr>) (st_users s)\<rparr>))"

section \<open>Notes and repository members\<close>

definition decode_node_egress_probe_compat_note :: "ext \<Rightarrow> string \<Rightarrow> (string \<times> node_egress_probe) option" where
  "decode_node_egress_probe_compat_note x note =
     Option.bind (strip_prefix ''node_egress_probe_state:'' note) (x_probe_payload_from_str x)"

definition apply_compat_noop :: "ext \<Rightarrow> string \<Rightarrow> state_handler" where
  "apply_compat_noop x note s =
     (case decode_node_egress_probe_compat_note x note of
        None \<Rightarrow> (Inr Applied, s)
      | Some (node_id, probe) \<Rightarrow>
          if \<not> bt_contains_key (st_nodes s) node_id then (Inr Applied, s)
          else (Inr Applied, s\<lparr>st_node_egress_probes := bt_insert node_id probe (st_node_egress_probes s)\<rparr>))"

definition apply_repository_membership :: "repository_membership \<Rightarrow> (state, domain_error, unit) handler" where
  "apply_repository_membership membership s =
     (case find (\<lambda>node_id. \<not> bt_contains_key (st_nodes s) node_id) (map rm_node_id membership) of
        Some node_id \<Rightarrow> (Inl (MissingNode node_id), s)
      | None \<Rightarrow> (Inr (), s\<lparr>st_repository_membership := Some membership\<rparr>))"

definition apply_replace_repository_membership :: "repository_membership \<Rightarrow> state_handler" where
  "apply_replace_repository_membership membership s =
     (let (r, s') = apply_repository_membership membership s
      in try_in s' (map_err Domain r) (\<lambda>_. (Inr Applied, s')))"

definition apply_update_repository_member_runtime :: "repository_member_runtime_patch \<Rightarrow> state_handler" where
  "apply_update_repository_member_runtime patch s =
     (let (r, m) = apply_member_runtime_update patch (st_repository_membership s);
          s' = s\<lparr>st_repository_membership := m\<rparr>
      in try_in s' (map_err (\<lambda>e. Migration (control_error_to_string e)) r) (\<lambda>_. (Inr Applied, s')))"

section \<open>The dispatcher\<close>

fun apply_command :: "ext \<Rightarrow> command \<Rightarrow> state_handler" where
  "apply_command x (UpsertNode node session) s = apply_upsert_node node session s"
| "apply_command x (DeleteNode node_id delete_endpoints expected_ids session) s =
     apply_delete_node node_id delete_endpoints expected_ids session s"
| "apply_command x (BeginMembershipOperation operation node session) s =
     apply_begin_membership_operation operation node session s"
| "apply_command x (TransitionMembershipOperation operation) s = apply_transition_membership_operation x operation s"
| "apply_command x (PruneMembershipOperations terminal_before) s = apply_prune_membership_operations x terminal_before s"
| "apply_command x (UpsertEndpoint e expected) s = apply_upsert_endpoint x e expected s"
| "apply_command x (DeleteEndpoint endpoint_id) s = apply_delete_endpoint endpoint_id s"
| "apply_command x (CreateRealityDomain domain) s = apply_create_reality_domain x domain s"
| "apply_command x (PatchRealityDomain domain_id server_name disabled) s =
     apply_patch_reality_domain x domain_id server_name disabled s"
| "apply_command x (DeleteRealityDomain domain_id) s = apply_delete_reality_domain x domain_id s"
| "apply_command x (ReorderRealityDomains domain_ids) s = apply_reorder_reality_domains x domain_ids s"
| "apply_command x (UpsertUser user) s = apply_upsert_user user s"
| "apply_command x (DeleteUser user_id) s = apply_delete_user user_id s"
| "apply_command x (ResetUserSubscriptionToken user_id token) s = apply_reset_user_subscription_token user_id token s"
| "apply_command x (SetUserNodeQuota user_id node_id limit source) s =
     apply_set_user_node_quota user_id node_id limit source s"
| "apply_command x (SetUserNodeWeight user_id node_id weight) s = apply_set_user_node_weight user_id node_id weight s"
| "apply_command x (SetUserGlobalWeight user_id weight) s = apply_set_user_global_weight user_id weight s"
| "apply_command x (SetNodeWeightPolicy node_id inherit_global) s = apply_set_node_weight_policy node_id inherit_global s"
| "apply_command x (SetUserMihomoProfile user_id profile) s = apply_set_user_mihomo_profile user_id profile s"
| "apply_command x (SetMihomoDeliveryMode mode) s = (Inr Applied, s\<lparr>st_mihomo_delivery_mode := mode\<rparr>)"
| "apply_command x (SetMihomoResourceAllowPrivateTargets allow) s =
     (Inr Applied, s\<lparr>st_mihomo_resource_allow_private_targets := allow\<rparr>)"
| "apply_command x (SetGeoDbUpdateSettings settings) s = (Inr Applied, s)"
| "apply_command x (ReplaceUserAccess user_id endpoint_ids) s = apply_replace_user_access user_id endpoint_ids s"
| "apply_command x (EnsureMembership user_id endpoint_id) s = apply_ensure_membership user_id endpoint_id s"
| "apply_command x (BumpUserCredentialEpoch user_id) s = apply_bump_user_credential_epoch user_id s"
| "apply_command x (CompatNoop note) s = apply_compat_noop x note s"
| "apply_command x (AppendEndpointProbeSamples hour from_node_id samples) s =
     apply_append_endpoint_probe_samples hour from_node_id samples s"
| "apply_command x (ReplaceRepositoryMembership membership) s = apply_replace_repository_membership membership s"
| "apply_command x (UpdateRepositoryMemberRuntime patch) s = apply_update_repository_member_runtime patch s"
| "apply_command x (SetReverseMeshEpoch epoch) s = apply_set_reverse_mesh_epoch epoch s"
| "apply_command x (UpsertReverseMeshAssignment assignment expected) s =
     apply_upsert_reverse_mesh_assignment assignment expected s"
| "apply_command x (DeleteReverseMeshAssignment target expected) s = apply_delete_reverse_mesh_assignment target expected s"

section \<open>A rejected command changes nothing\<close>

lemma try_in_atomic:
  "(\<And>a s'. r = Inr a \<Longrightarrow> f a = (Inl e, s') \<Longrightarrow> s' = s) \<Longrightarrow> try_in s r f = (Inl e, s') \<Longrightarrow> s' = s"
  by (cases r) auto

lemma upsert_node_atomic: "apply_upsert_node n j s = (Inl e, s') \<Longrightarrow> s' = s"
  by (auto simp: apply_upsert_node_def Let_def try_in_Inl_iff)

lemma delete_node_atomic: "apply_delete_node n d es j s = (Inl e, s') \<Longrightarrow> s' = s"
  by (auto simp: apply_delete_node_def Let_def try_in_Inl_iff split: if_splits)

lemma begin_operation_atomic: "apply_begin_membership_operation op n j s = (Inl e, s') \<Longrightarrow> s' = s"
  by (auto simp: apply_begin_membership_operation_def Let_def try_in_Inl_iff split: if_splits option.splits prod.splits sum.splits)

lemma operation_atomic:
  "apply_transition_membership_operation x op s = (Inl e, s') \<Longrightarrow> s' = s"
  "apply_prune_membership_operations x t s = (Inl e, s') \<Longrightarrow> s' = s"
  by (auto simp: apply_transition_membership_operation_def apply_prune_membership_operations_def try_in_Inl_iff
      split: option.splits)

lemma endpoint_atomic:
  "apply_upsert_endpoint x ep ex s = (Inl e, s') \<Longrightarrow> s' = s"
  "apply_delete_endpoint k s = (Inl e, s') \<Longrightarrow> s' = s"
  by (auto simp: apply_upsert_endpoint_def apply_delete_endpoint_def Let_def try_in_Inl_iff split: if_splits)

lemma domain_atomic:
  "apply_create_reality_domain x d s = (Inl e, s') \<Longrightarrow> s' = s"
  "apply_patch_reality_domain x k nm ds s = (Inl e, s') \<Longrightarrow> s' = s"
  "apply_delete_reality_domain x k s = (Inl e, s') \<Longrightarrow> s' = s"
  "apply_reorder_reality_domains x ks s = (Inl e, s') \<Longrightarrow> s' = s"
  by (auto simp: apply_create_reality_domain_def apply_patch_reality_domain_def apply_delete_reality_domain_def
      apply_reorder_reality_domains_def Let_def try_in_Inl_iff split: if_splits option.splits
      dest: replace_domains_Inl(1))

lemma access_atomic:
  "apply_replace_user_access u es s = (Inl e, s') \<Longrightarrow> s' = s"
  "apply_ensure_membership u k s = (Inl e, s') \<Longrightarrow> s' = s"
  by (auto simp: apply_replace_user_access_def apply_ensure_membership_def Let_def
      split: if_splits option.splits sum.splits)

lemmas user_handler_defs =
  apply_upsert_user_def apply_delete_user_def apply_reset_user_subscription_token_def apply_set_user_node_quota_def
  apply_set_user_node_weight_def apply_set_user_global_weight_def apply_set_node_weight_policy_def
  apply_set_user_mihomo_profile_def apply_bump_user_credential_epoch_def apply_compat_noop_def

lemmas mesh_handler_defs =
  apply_set_reverse_mesh_epoch_def apply_upsert_reverse_mesh_assignment_def apply_delete_reverse_mesh_assignment_def

lemma user_atomic:
  "apply_upsert_user u s = (Inl e, s') \<Longrightarrow> s' = s"
  "apply_delete_user k s = (Inl e, s') \<Longrightarrow> s' = s"
  "apply_reset_user_subscription_token k t s = (Inl e, s') \<Longrightarrow> s' = s"
  "apply_set_user_node_quota k n l src s = (Inl e, s') \<Longrightarrow> s' = s"
  "apply_set_user_node_weight k n w s = (Inl e, s') \<Longrightarrow> s' = s"
  "apply_set_user_global_weight k w s = (Inl e, s') \<Longrightarrow> s' = s"
  "apply_set_node_weight_policy n b s = (Inl e, s') \<Longrightarrow> s' = s"
  "apply_set_user_mihomo_profile k p s = (Inl e, s') \<Longrightarrow> s' = s"
  "apply_bump_user_credential_epoch k s = (Inl e, s') \<Longrightarrow> s' = s"
  "apply_compat_noop x nt s = (Inl e, s') \<Longrightarrow> s' = s"
  by (auto simp: user_handler_defs Let_def try_in_Inl_iff split: if_splits option.splits)

lemma mesh_atomic:
  "apply_set_reverse_mesh_epoch ep s = (Inl e, s') \<Longrightarrow> s' = s"
  "apply_upsert_reverse_mesh_assignment a ex s = (Inl e, s') \<Longrightarrow> s' = s"
  "apply_delete_reverse_mesh_assignment t ex s = (Inl e, s') \<Longrightarrow> s' = s"
  by (auto simp: mesh_handler_defs Let_def split: if_splits)

lemma member_runtime_update_atomic:
  "apply_member_runtime_update p m = (Inl e, m') \<Longrightarrow> m' = m"
proof (cases m)
  case (Some ms)
  have "fst (member_runtime_update p ms) = Inl e \<Longrightarrow> snd (member_runtime_update p ms) = ms"
    using membership_step_atomic [of "RuntimeUpdate p" ms e] by simp
  then show "apply_member_runtime_update p m = (Inl e, m') \<Longrightarrow> m' = m"
    by (auto simp: apply_member_runtime_update_def Some split: sum.splits prod.splits)
qed (auto simp: apply_member_runtime_update_def split: sum.splits)

lemma repository_atomic:
  "apply_replace_repository_membership m s = (Inl e, s') \<Longrightarrow> s' = s"
  "apply_update_repository_member_runtime p s = (Inl e, s') \<Longrightarrow> s' = s"
  by (auto simp: apply_replace_repository_membership_def apply_repository_membership_def
      apply_update_repository_member_runtime_def try_in_Inl_iff Let_def map_err_def
      split: option.splits prod.splits sum.splits dest!: member_runtime_update_atomic)

lemma probe_atomic: "apply_append_endpoint_probe_samples h n ps s \<noteq> (Inl e, s')"
  by (simp add: apply_append_endpoint_probe_samples_def Let_def)

lemmas handler_atomic =
  upsert_node_atomic delete_node_atomic begin_operation_atomic operation_atomic endpoint_atomic domain_atomic
  access_atomic user_atomic mesh_atomic repository_atomic

lemma apply_command_atomic: "apply_command x c s = (Inl e, s') \<Longrightarrow> s' = s"
  by (cases c) (auto dest: handler_atomic simp: probe_atomic)

interpretation store: atomic_machine "apply_command x" for x
  by unfold_locales (metis apply_command_atomic prod.collapse)

text \<open>
  C20: a command that is rejected leaves the state exactly as it was, whichever command it is and whichever of
  its checks failed; so a replica that replays a log and one that sees only the accepted commands of it
  end in the same state.
\<close>

theorem rejected_command_changes_nothing:
  "(case apply_command x c s of (Inl e, s') \<Rightarrow> s' = s | (Inr r, s') \<Rightarrow> True) \<and>
   run_log (apply_command x) (accepted (apply_command x) cs s) s = run_log (apply_command x) cs s"
  using apply_command_atomic [of x c s] store.run_accepted [of x cs s]
  by (auto split: prod.splits sum.splits)

end
