(* ===== verification/Xp_Invariants.thy ===== *)
theory Xp_Invariants
  imports Xp_Apply
begin

text \<open>
  The invariants of the replicated state. Each group of fields has its own predicate and a lemma that
  every accepted command keeps it; the handlers enter through lemmas that give the new state of an
  accepted command as an update of the old one.
\<close>

section \<open>The new state of an accepted command\<close>

lemma sync_sel [simp]:
  "st_schema_version (sync_memberships s) = st_schema_version s"
  "st_join_sessions (sync_memberships s) = st_join_sessions s"
  "st_membership_operations (sync_memberships s) = st_membership_operations s"
  "st_endpoint_probe_history (sync_memberships s) = st_endpoint_probe_history s"
  "st_endpoint_probe_participants_by_hour (sync_memberships s) = st_endpoint_probe_participants_by_hour s"
  "st_node_egress_probes (sync_memberships s) = st_node_egress_probes s"
  "st_reality_domains (sync_memberships s) = st_reality_domains s"
  "st_user_node_quotas (sync_memberships s) = st_user_node_quotas s"
  "st_user_node_weights (sync_memberships s) = st_user_node_weights s"
  "st_user_global_weights (sync_memberships s) = st_user_global_weights s"
  "st_node_weight_policies (sync_memberships s) = st_node_weight_policies s"
  "st_user_mihomo_profiles (sync_memberships s) = st_user_mihomo_profiles s"
  "st_repository_membership (sync_memberships s) = st_repository_membership s"
  "st_reverse_mesh_epoch (sync_memberships s) = st_reverse_mesh_epoch s"
  "st_reverse_mesh_assignments (sync_memberships s) = st_reverse_mesh_assignments s"
  "st_reverse_mesh_generation_counters (sync_memberships s) = st_reverse_mesh_generation_counters s"
  by (simp_all add: sync_memberships_def Let_def)

lemma commit_sel [simp]:
  "st_nodes (commit_session j s) = st_nodes s"
  "st_users (commit_session j s) = st_users s"
  "st_endpoints (commit_session j s) = st_endpoints s"
  "st_membership_operations (commit_session j s) = st_membership_operations s"
  "st_endpoint_probe_history (commit_session j s) = st_endpoint_probe_history s"
  "st_endpoint_probe_participants_by_hour (commit_session j s) = st_endpoint_probe_participants_by_hour s"
  "st_node_egress_probes (commit_session j s) = st_node_egress_probes s"
  "st_reality_domains (commit_session j s) = st_reality_domains s"
  "st_user_node_quotas (commit_session j s) = st_user_node_quotas s"
  "st_user_node_weights (commit_session j s) = st_user_node_weights s"
  "st_user_global_weights (commit_session j s) = st_user_global_weights s"
  "st_node_weight_policies (commit_session j s) = st_node_weight_policies s"
  "st_node_user_endpoint_memberships (commit_session j s) = st_node_user_endpoint_memberships s"
  "st_user_auto_assign_endpoint_kinds (commit_session j s) = st_user_auto_assign_endpoint_kinds s"
  "st_user_mihomo_profiles (commit_session j s) = st_user_mihomo_profiles s"
  "st_repository_membership (commit_session j s) = st_repository_membership s"
  "st_reverse_mesh_epoch (commit_session j s) = st_reverse_mesh_epoch s"
  "st_reverse_mesh_assignments (commit_session j s) = st_reverse_mesh_assignments s"
  "st_reverse_mesh_generation_counters (commit_session j s) = st_reverse_mesh_generation_counters s"
  by (simp_all add: commit_session_def split: option.split)

lemma forget_sel [simp]:
  "st_nodes (forget_node n s) = st_nodes s"
  "st_users (forget_node n s) = st_users s"
  "st_endpoints (forget_node n s) = st_endpoints s"
  "st_join_sessions (forget_node n s) = st_join_sessions s"
  "st_membership_operations (forget_node n s) = st_membership_operations s"
  "st_user_global_weights (forget_node n s) = st_user_global_weights s"
  "st_node_user_endpoint_memberships (forget_node n s) = st_node_user_endpoint_memberships s"
  "st_user_auto_assign_endpoint_kinds (forget_node n s) = st_user_auto_assign_endpoint_kinds s"
  "st_user_mihomo_profiles (forget_node n s) = st_user_mihomo_profiles s"
  "st_repository_membership (forget_node n s) = st_repository_membership s"
  "st_reverse_mesh_epoch (forget_node n s) = st_reverse_mesh_epoch s"
  "st_reverse_mesh_generation_counters (forget_node n s) = st_reverse_mesh_generation_counters s"
  "st_reality_domains (forget_node n s) =
     map (\<lambda>d. d\<lparr>rd_disabled_node_ids := bs_remove n (rd_disabled_node_ids d)\<rparr>) (st_reality_domains s)"
  "st_user_node_quotas (forget_node n s) = forget_inner n (st_user_node_quotas s)"
  "st_user_node_weights (forget_node n s) = forget_inner n (st_user_node_weights s)"
  "st_node_weight_policies (forget_node n s) = bt_remove n (st_node_weight_policies s)"
  "st_endpoint_probe_history (forget_node n s) = forget_in_history n (st_endpoint_probe_history s)"
  "st_endpoint_probe_participants_by_hour (forget_node n s) =
     bt_retain (\<lambda>_ ps. \<not> bt_is_empty ps)
       (bt_map_values (\<lambda>_. bs_remove n) (st_endpoint_probe_participants_by_hour s))"
  "st_node_egress_probes (forget_node n s) = bt_remove n (st_node_egress_probes s)"
  "st_reverse_mesh_assignments (forget_node n s) =
     bt_retain (\<lambda>t a. t \<noteq> n \<and> ra_target_node_id a \<noteq> n \<and> \<not> contains_rendezvous a n) (st_reverse_mesh_assignments s)"
  by (simp_all add: forget_node_def Let_def)

lemma bt_retain_remove: "bt_retain (\<lambda>k' _. k' \<notin> A) (bt_remove k m) = bt_retain (\<lambda>k' _. k' \<notin> insert k A) m"
  by (intro bt_eqI) (auto simp: bt_get_retain split: option.splits)

lemma remove_refs_eq:
  "remove_endpoint_refs refs s =
     s\<lparr>st_endpoints := bt_retain (\<lambda>k _. k \<notin> fst ` set refs) (st_endpoints s),
       st_endpoint_probe_history := bt_retain (\<lambda>k _. k \<notin> fst ` set refs) (st_endpoint_probe_history s)\<rparr>"
proof (induction refs arbitrary: s)
  case Nil
  show ?case by (simp add: remove_endpoint_refs_def bt_retain_all)
next
  case (Cons r refs)
  show ?case
    using Cons.IH by (cases r) (simp add: remove_endpoint_refs_def Let_def bt_retain_remove)
qed

lemma upsert_node_Inr:
  assumes "apply_upsert_node n j s = (Inr r, s')"
  shows "validate_session s j = Inr ()" "is_ok (validate_node_quota_reset (n_quota_reset n))"
    "is_ok (validate_node_quota_config n)" "r = Applied"
    "s' = sync_memberships (commit_session j (s\<lparr>st_nodes := bt_insert (n_node_id n) n (st_nodes s)\<rparr>))"
  using assms by (auto simp: apply_upsert_node_def Let_def try_in_Inr_iff is_ok_iff)

lemma set_map_endpoints_on:
  "k \<in> fst ` set (map (\<lambda>e. (ep_endpoint_id e, ep_tag e)) (endpoints_on n s)) \<longleftrightarrow>
     (\<exists>k' e. bt_get (st_endpoints s) k' = Some e \<and> ep_node_id e = n \<and> ep_endpoint_id e = k)"
  by (force simp: endpoints_on_def bt_values_iff)

text \<open>The state a node is deleted from, after the deletion, before the index is rebuilt.\<close>

definition without_node :: "string \<Rightarrow> join_session option \<Rightarrow> state \<Rightarrow> state" where
  "without_node n j s =
     forget_node n (commit_session j
       (s\<lparr>st_endpoints := bt_retain (\<lambda>k _. k \<notin> ep_endpoint_id ` set (endpoints_on n s)) (st_endpoints s),
          st_endpoint_probe_history :=
            bt_retain (\<lambda>k _. k \<notin> ep_endpoint_id ` set (endpoints_on n s)) (st_endpoint_probe_history s),
          st_nodes := bt_remove n (st_nodes s)\<rparr>))"

lemma delete_node_Inr:
  assumes "apply_delete_node n d ids j s = (Inr r, s')"
  shows "validate_session s j = Inr ()"
    "\<not> bt_contains_key (st_nodes s) n \<and> r = NodeDeleted False [] \<and> s' = commit_session j s \<or>
     bt_contains_key (st_nodes s) n \<and> r = NodeDeleted True (map ep_tag (endpoints_on n s)) \<and>
       (endpoints_on n s = [] \<or> d \<and> ep_endpoint_id ` set (endpoints_on n s) = set ids) \<and>
       s' = sync_memberships (without_node n j s)"
proof -
  show "validate_session s j = Inr ()"
    using assms by (auto simp: apply_delete_node_def try_in_Inr_iff)
  have imgs: "fst ` set (map (\<lambda>e. (ep_endpoint_id e, ep_tag e)) (endpoints_on n s)) = ep_endpoint_id ` set (endpoints_on n s)"
    by force
  have tags: "map snd (map (\<lambda>e. (ep_endpoint_id e, ep_tag e)) (endpoints_on n s)) = map ep_tag (endpoints_on n s)"
    by simp
  have ids: "bs_of_list (map fst (map (\<lambda>e. (ep_endpoint_id e, ep_tag e)) (endpoints_on n s))) = bs_of_list ids \<longleftrightarrow>
      ep_endpoint_id ` set (endpoints_on n s) = set ids"
    by (simp add: bs_eq_iff)
  show "\<not> bt_contains_key (st_nodes s) n \<and> r = NodeDeleted False [] \<and> s' = commit_session j s \<or>
     bt_contains_key (st_nodes s) n \<and> r = NodeDeleted True (map ep_tag (endpoints_on n s)) \<and>
       (endpoints_on n s = [] \<or> d \<and> ep_endpoint_id ` set (endpoints_on n s) = set ids) \<and>
       s' = sync_memberships (without_node n j s)"
    using assms
    unfolding apply_delete_node_def try_in_Inr_iff Let_def ids tags remove_refs_eq imgs without_node_def
    by (auto split: if_splits)
qed

lemma begin_operation_Inr:
  assumes "apply_begin_membership_operation op n j s = (Inr r, s')"
  obtains s1 where "mo_phase op = Prepared" "\<not> bt_contains_key (st_membership_operations s) (mo_operation_id op)"
    "active_membership_operation s = None" "validate_remove_node_endpoint_snapshot s op = Inr ()"
    "n = None \<and> s1 = s \<or> (\<exists>node. n = Some node \<and> apply_upsert_node node j s = (Inr Applied, s1))"
    "s' = s1\<lparr>st_membership_operations := bt_insert (mo_operation_id op) op (st_membership_operations s1)\<rparr>"
proof -
  let ?run = "case n of None \<Rightarrow> (Inr Applied, s) | Some node \<Rightarrow> apply_upsert_node node j s"
  obtain r1 s1 where run: "?run = (r1, s1)" by (cases ?run)
  from assms run obtain r' where r1: "r1 = Inr r'" and facts: "mo_phase op = Prepared"
    "\<not> bt_contains_key (st_membership_operations s) (mo_operation_id op)" "active_membership_operation s = None"
    "validate_remove_node_endpoint_snapshot s op = Inr ()"
    "s' = s1\<lparr>st_membership_operations := bt_insert (mo_operation_id op) op (st_membership_operations s1)\<rparr>"
    by (auto simp: apply_begin_membership_operation_def Let_def try_in_Inr_iff split: if_splits sum.splits)
  have "n = None \<and> s1 = s \<or> (\<exists>node. n = Some node \<and> apply_upsert_node node j s = (Inr Applied, s1))"
    using run r1 upsert_node_Inr(4) [of _ j s r' s1] by (auto split: option.splits)
  with facts show ?thesis by (intro that)
qed

lemma domain_commands_Inr:
  "apply_create_reality_domain x d s = (Inr r, s') \<Longrightarrow> \<exists>ds. replace_domains x ds s = (Inr r, s')"
  "apply_patch_reality_domain x k nm dis s = (Inr r, s') \<Longrightarrow> \<exists>ds. replace_domains x ds s = (Inr r, s')"
  "apply_delete_reality_domain x k s = (Inr r, s') \<Longrightarrow> \<exists>ds. replace_domains x ds s = (Inr r, s')"
  "apply_reorder_reality_domains x ks s = (Inr r, s') \<Longrightarrow> \<exists>ds. replace_domains x ds s = (Inr r, s')"
  by (auto simp: apply_create_reality_domain_def apply_patch_reality_domain_def apply_delete_reality_domain_def
      apply_reorder_reality_domains_def Let_def try_in_Inr_iff split: if_splits option.splits)

lemma delete_endpoint_Inr:
  assumes "apply_delete_endpoint k s = (Inr r, s')"
  shows "ensure_endpoint_mutation_is_allowed s (bt_get (st_endpoints s) k) None = Inr ()"
    "r = EndpointDeleted (bt_contains_key (st_endpoints s) k)"
    "s' = sync_memberships (s\<lparr>st_endpoints := bt_remove k (st_endpoints s),
       st_endpoint_probe_history := bt_remove k (st_endpoint_probe_history s)\<rparr>)"
  using assms by (auto simp: apply_delete_endpoint_def Let_def try_in_Inr_iff)

lemma replace_user_access_Inr:
  assumes "apply_replace_user_access u ids s = (Inr r, s')"
  shows "\<exists>ms kinds. s' = sync_memberships (s\<lparr>st_node_user_endpoint_memberships := ms, st_user_auto_assign_endpoint_kinds := kinds\<rparr>)"
  using assms by (auto simp: apply_replace_user_access_def Let_def split: if_splits sum.splits option.splits)

lemma ensure_membership_Inr:
  assumes "apply_ensure_membership u k s = (Inr r, s')"
  shows "\<exists>ms. s' = sync_memberships (s\<lparr>st_node_user_endpoint_memberships := ms\<rparr>)"
  using assms by (auto simp: apply_ensure_membership_def split: if_splits option.splits)

lemma mesh_Inr:
  "apply_set_reverse_mesh_epoch ep s = (Inr r, s') \<Longrightarrow>
     st_reverse_mesh_epoch s \<le> ep \<and> s' = s\<lparr>st_reverse_mesh_epoch := ep\<rparr>"
  "apply_delete_reverse_mesh_assignment t ex s = (Inr r, s') \<Longrightarrow>
     s' = s\<lparr>st_reverse_mesh_assignments := bt_remove t (st_reverse_mesh_assignments s)\<rparr>"
  by (auto simp: mesh_handler_defs Let_def split: if_splits)

lemma guard_Inr: "(if c then (Inl e, s) else t) = (Inr r, s') \<longleftrightarrow> \<not> c \<and> t = (Inr r, s')"
  by auto

lemma upsert_assignment_Inr:
  assumes "apply_upsert_reverse_mesh_assignment a ex s = (Inr r, s')"
  shows "assignment_is_valid a" "ra_credential_epoch a = st_reverse_mesh_epoch s"
    "bt_contains_key (st_nodes s) (ra_target_node_id a)"
    "n \<in> set (rendezvous_ids a) \<Longrightarrow> bt_contains_key (st_nodes s) n"
    "bt_get_or 0 (st_reverse_mesh_generation_counters s) (ra_target_node_id a) \<le> ra_generation a"
    "bt_get_or 0 (st_reverse_mesh_generation_counters s) (ra_target_node_id a) = ra_generation a \<Longrightarrow>
       \<exists>c. bt_get (st_reverse_mesh_assignments s) (ra_target_node_id a) = Some c \<and> ra_generation c = ra_generation a"
    "ex = None \<or> map_option ra_generation (bt_get (st_reverse_mesh_assignments s) (ra_target_node_id a)) = ex"
    "s' = s\<lparr>st_reverse_mesh_assignments := bt_insert (ra_target_node_id a) a (st_reverse_mesh_assignments s),
       st_reverse_mesh_generation_counters :=
         bt_insert (ra_target_node_id a) (ra_generation a) (st_reverse_mesh_generation_counters s)\<rparr>"
proof -
  let ?floor = "bt_get_or 0 (st_reverse_mesh_generation_counters s) (ra_target_node_id a)"
  let ?cur = "bt_get (st_reverse_mesh_assignments s) (ra_target_node_id a)"
  note run = assms [unfolded apply_upsert_reverse_mesh_assignment_def Let_def guard_Inr]
  note valid = run [THEN conjunct1]
    and nodes = run [THEN conjunct2, THEN conjunct1]
    and epoch = run [THEN conjunct2, THEN conjunct2, THEN conjunct1]
    and cas = run [THEN conjunct2, THEN conjunct2, THEN conjunct2, THEN conjunct1]
    and gen = run [THEN conjunct2, THEN conjunct2, THEN conjunct2, THEN conjunct2, THEN conjunct1]
    and new = run [THEN conjunct2, THEN conjunct2, THEN conjunct2, THEN conjunct2, THEN conjunct2]
  from valid show "assignment_is_valid a" by simp
  from epoch show "ra_credential_epoch a = st_reverse_mesh_epoch s" by simp
  from nodes show "bt_contains_key (st_nodes s) (ra_target_node_id a)" by simp
  from nodes show "n \<in> set (rendezvous_ids a) \<Longrightarrow> bt_contains_key (st_nodes s) n"
    by (auto simp: rendezvous_ids_def split: option.splits)
  from gen show floor: "?floor \<le> ra_generation a" by (simp add: not_less)
  from gen show "?floor = ra_generation a \<Longrightarrow> \<exists>c. ?cur = Some c \<and> ra_generation c = ra_generation a"
    by (cases ?cur) simp_all
  from cas show "ex = None \<or> map_option ra_generation ?cur = ex" by (cases ex) simp_all
  from new floor show "s' = s\<lparr>st_reverse_mesh_assignments := bt_insert (ra_target_node_id a) a (st_reverse_mesh_assignments s),
       st_reverse_mesh_generation_counters :=
         bt_insert (ra_target_node_id a) (ra_generation a) (st_reverse_mesh_generation_counters s)\<rparr>"
    by (cases "bt_get (st_reverse_mesh_generation_counters s) (ra_target_node_id a)")
      (simp_all add: bt_get_or_def max_def)
qed

lemma append_sample_sel:
  "append_sample h n p s = s\<lparr>st_endpoint_probe_history := st_endpoint_probe_history (append_sample h n p s)\<rparr>"
  by (simp add: append_sample_def Let_def)

lemma append_samples_frame:
  "\<exists>hist. fold (append_sample h n) ps s = s\<lparr>st_endpoint_probe_history := hist\<rparr>"
proof (induction ps arbitrary: s)
  case Nil
  show ?case by (auto intro!: exI [of _ "st_endpoint_probe_history s"])
next
  case (Cons p ps)
  obtain hist where hist: "append_sample h n p s = s\<lparr>st_endpoint_probe_history := hist\<rparr>"
    using append_sample_sel by metis
  from Cons.IH [of "s\<lparr>st_endpoint_probe_history := hist\<rparr>"] show ?case by (simp add: hist)
qed

lemma append_probes_Inr:
  assumes "apply_append_endpoint_probe_samples h n ps s = (Inr r, s')"
  shows "\<exists>parts hist. s' = s\<lparr>st_endpoint_probe_participants_by_hour := parts, st_endpoint_probe_history := hist\<rparr>"
proof -
  let ?s1 = "s\<lparr>st_endpoint_probe_participants_by_hour :=
      prune_endpoint_probe_hour_map (bt_entry h bt_empty (bs_insert n) (st_endpoint_probe_participants_by_hour s))\<rparr>"
  from assms have "s' = fold (append_sample h n) ps ?s1"
    by (simp add: apply_append_endpoint_probe_samples_def Let_def)
  with append_samples_frame [of h n ps ?s1] show ?thesis by metis
qed

section \<open>The step relation\<close>

text \<open>
  The accepted changes of the state, as a relation. Every rule is one kind of change; a command may be
  several of them in a row (a membership operation may begin together with the upsert of a node).
\<close>

inductive step :: "ext \<Rightarrow> state \<Rightarrow> state \<Rightarrow> bool" for x :: ext where
  join: "\<lbrakk>validate_session s j = Inr (); is_ok (validate_node_quota_reset (n_quota_reset n));
      is_ok (validate_node_quota_config n)\<rbrakk> \<Longrightarrow>
    step x s (sync_memberships (commit_session j (s\<lparr>st_nodes := bt_insert (n_node_id n) n (st_nodes s)\<rparr>)))"
| session: "validate_session s j = Inr () \<Longrightarrow> step x s (commit_session j s)"
| leave: "\<lbrakk>validate_session s j = Inr (); bt_contains_key (st_nodes s) n\<rbrakk> \<Longrightarrow>
    step x s (sync_memberships (without_node n j s))"
| op_begin: "\<lbrakk>mo_phase op = Prepared; mo_terminal_at op = None;
      \<not> bt_contains_key (st_membership_operations s) (mo_operation_id op);
      active_membership_operation s = None; validate_remove_node_endpoint_snapshot s op = Inr ()\<rbrakk> \<Longrightarrow>
    step x s (s\<lparr>st_membership_operations := bt_insert (mo_operation_id op) op (st_membership_operations s)\<rparr>)"
| op_move: "\<lbrakk>bt_get (st_membership_operations s) (mo_operation_id op) = Some cur;
      op_validate_successor (x_rfc3339 x) cur op = Inr ()\<rbrakk> \<Longrightarrow>
    step x s (s\<lparr>st_membership_operations := bt_insert (mo_operation_id op) op (st_membership_operations s)\<rparr>)"
| op_prune: "step x s (s\<lparr>st_membership_operations :=
      bt_retain (\<lambda>_ op. outlives_prune x t op) (st_membership_operations s)\<rparr>)"
| put_endpoint: "\<lbrakk>ensure_endpoint_mutation_is_allowed s (bt_get (st_endpoints s) (ep_endpoint_id e)) (Some e) = Inr ();
      ep_port e \<noteq> 0; vless_serde x \<Longrightarrow> follows_domains x (st_reality_domains s) e\<rbrakk> \<Longrightarrow>
    step x s (sync_memberships (s\<lparr>st_endpoints := bt_insert (ep_endpoint_id e) e (st_endpoints s)\<rparr>))"
| drop_endpoint: "ensure_endpoint_mutation_is_allowed s (bt_get (st_endpoints s) k) None = Inr () \<Longrightarrow>
    step x s (sync_memberships (s\<lparr>st_endpoints := bt_remove k (st_endpoints s),
      st_endpoint_probe_history := bt_remove k (st_endpoint_probe_history s)\<rparr>))"
| domains: "\<lbrakk>replace_domains x ds s = (Inr r, s'); domains_ok s \<Longrightarrow> domains_ok s'\<rbrakk> \<Longrightarrow> step x s s'"
| put_user: "is_ok (validate_user_quota_reset (u_quota_reset u)) \<Longrightarrow>
    step x s (s\<lparr>st_users := bt_insert (u_user_id u) u (st_users s)\<rparr>)"
| edit_user: "\<lbrakk>bt_get (st_users s) k = Some u; u_user_id u' = u_user_id u; u_quota_reset u' = u_quota_reset u\<rbrakk> \<Longrightarrow>
    step x s (s\<lparr>st_users := bt_insert k u' (st_users s)\<rparr>)"
| drop_user: "step x s (snd (apply_delete_user k s))"
| set_quota: "\<lbrakk>bt_contains_key (st_users s) k; bt_contains_key (st_nodes s) n\<rbrakk> \<Longrightarrow>
    step x s (s\<lparr>st_user_node_quotas := bt_entry k bt_empty (bt_insert n q) (st_user_node_quotas s)\<rparr>)"
| set_weight: "\<lbrakk>bt_contains_key (st_users s) k; bt_contains_key (st_nodes s) n\<rbrakk> \<Longrightarrow>
    step x s (s\<lparr>st_user_node_weights := bt_entry k bt_empty (bt_insert n w) (st_user_node_weights s),
      st_node_weight_policies := bt_insert n False (st_node_weight_policies s)\<rparr>)"
| set_global_weight: "bt_contains_key (st_users s) k \<Longrightarrow>
    step x s (s\<lparr>st_user_global_weights := bt_insert k w (st_user_global_weights s)\<rparr>)"
| set_policy: "bt_contains_key (st_nodes s) n \<Longrightarrow>
    step x s (s\<lparr>st_node_weight_policies := bt_insert n b (st_node_weight_policies s)\<rparr>)"
| set_profile: "bt_contains_key (st_users s) k \<Longrightarrow>
    step x s (s\<lparr>st_mihomo_resource_revision := st_mihomo_resource_revision s + 1,
      st_user_mihomo_profiles := bt_insert k p (st_user_mihomo_profiles s)\<rparr>)"
| set_mode: "step x s (s\<lparr>st_mihomo_delivery_mode := mode\<rparr>)"
| set_targets: "step x s (s\<lparr>st_mihomo_resource_allow_private_targets := allow\<rparr>)"
| egress: "bt_contains_key (st_nodes s) n \<Longrightarrow>
    step x s (s\<lparr>st_node_egress_probes := bt_insert n p (st_node_egress_probes s)\<rparr>)"
| probes: "step x s (snd (apply_append_endpoint_probe_samples h n ps s))"
| replace_access: "apply_replace_user_access k ids s = (Inr r, s') \<Longrightarrow> step x s s'"
| ensure_access: "apply_ensure_membership k e s = (Inr r, s') \<Longrightarrow> step x s s'"
| members: "\<lbrakk>membership_ok m; \<forall>member \<in> set m. bt_contains_key (st_nodes s) (rm_node_id member)\<rbrakk> \<Longrightarrow>
    step x s (s\<lparr>st_repository_membership := Some m\<rparr>)"
| member_runtime: "step x s (s\<lparr>st_repository_membership := snd (apply_member_runtime_update p (st_repository_membership s))\<rparr>)"
| mesh_epoch: "st_reverse_mesh_epoch s \<le> ep \<Longrightarrow> step x s (s\<lparr>st_reverse_mesh_epoch := ep\<rparr>)"
| mesh_assign: "apply_upsert_reverse_mesh_assignment a ex s = (Inr r, s') \<Longrightarrow> step x s s'"
| mesh_drop: "step x s (s\<lparr>st_reverse_mesh_assignments := bt_remove t (st_reverse_mesh_assignments s)\<rparr>)"

text \<open>
  What the log is expected to carry: a membership operation begins without an end time, a repository
  membership was built by its constructor, and a new domain has a new id. None of it is checked by the
  handlers; the callers draw a domain id at random.
\<close>

definition well_formed :: "command \<Rightarrow> state \<Rightarrow> bool" where
  "well_formed c s =
     (case c of
        BeginMembershipOperation op _ _ \<Rightarrow> mo_terminal_at op = None
      | ReplaceRepositoryMembership m \<Rightarrow> membership_ok m
      | CreateRealityDomain d \<Rightarrow> rd_domain_id d \<notin> set (map rd_domain_id (st_reality_domains s))
      | _ \<Rightarrow> True)"

lemma find_None_all: "find P xs = None \<longleftrightarrow> (\<forall>x \<in> set xs. \<not> P x)"
  by (auto simp: find_None_iff)

lemma snapshot_cong:
  "st_endpoints s1 = st_endpoints s \<Longrightarrow>
    validate_remove_node_endpoint_snapshot s1 op = validate_remove_node_endpoint_snapshot s op"
  unfolding validate_remove_node_endpoint_snapshot_def endpoints_on_def by simp

lemma step_begin:
  assumes "apply_begin_membership_operation op n j s = (Inr r, s')" "mo_terminal_at op = None"
  shows "(step x)\<^sup>*\<^sup>* s s'"
  using assms(1)
proof (rule begin_operation_Inr)
  fix s1
  assume op: "mo_phase op = Prepared" "\<not> bt_contains_key (st_membership_operations s) (mo_operation_id op)"
    "active_membership_operation s = None" "validate_remove_node_endpoint_snapshot s op = Inr ()"
    and s1: "n = None \<and> s1 = s \<or> (\<exists>node. n = Some node \<and> apply_upsert_node node j s = (Inr Applied, s1))"
    and s': "s' = s1\<lparr>st_membership_operations := bt_insert (mo_operation_id op) op (st_membership_operations s1)\<rparr>"
  have "(step x)\<^sup>*\<^sup>* s s1 \<and> st_membership_operations s1 = st_membership_operations s \<and> st_endpoints s1 = st_endpoints s"
    using s1
  proof (elim disjE exE conjE)
    fix node assume "apply_upsert_node node j s = (Inr Applied, s1)"
    note up = upsert_node_Inr [OF this]
    have "step x s s1" unfolding up(5) by (rule step.join [OF up(1-3)])
    moreover have "st_membership_operations s1 = st_membership_operations s" "st_endpoints s1 = st_endpoints s"
      by (simp_all add: up(5))
    ultimately show ?thesis by blast
  qed simp
  moreover from this have "step x s1 s'"
    unfolding s' using op assms(2) snapshot_cong [of s1 s op]
    by (intro step.op_begin) (simp_all add: active_membership_operation_def)
  ultimately show ?thesis by (meson rtranclp.rtrancl_into_rtrancl)
qed

lemma step_put_endpoint:
  assumes "apply_upsert_endpoint x e ex s = (Inr r, s')"
  shows "step x s s'"
  using assms
proof (rule upsert_endpoint_Inr)
  fix e'
  assume allowed: "ensure_endpoint_mutation_is_allowed s (bt_get (st_endpoints s) (ep_endpoint_id e)) (Some e) = Inr ()"
    and port: "ep_port e \<noteq> 0" and w: "e' = e\<lparr>ep_meta := ep_meta e'\<rparr>"
    and vless: "ep_kind e = VlessRealityVisionTcp \<Longrightarrow> upsert_vless_meta x (st_reality_domains s) e = Inr e'"
    and s': "s' = sync_memberships (s\<lparr>st_endpoints := bt_insert (ep_endpoint_id e) e' (st_endpoints s)\<rparr>)"
  have sel: "ep_endpoint_id e' = ep_endpoint_id e" "ep_node_id e' = ep_node_id e" "ep_port e' = ep_port e" "ep_kind e' = ep_kind e"
    by (subst w, simp)+
  have "step x s (sync_memberships (s\<lparr>st_endpoints := bt_insert (ep_endpoint_id e') e' (st_endpoints s)\<rparr>))"
  proof (rule step.put_endpoint)
    show "ensure_endpoint_mutation_is_allowed s (bt_get (st_endpoints s) (ep_endpoint_id e')) (Some e') = Inr ()"
      using allowed unfolding ensure_endpoint_mutation_is_allowed_def option.case sel .
    show "ep_port e' \<noteq> 0" by (simp add: sel port)
    show "follows_domains x (st_reality_domains s) e'" if "vless_serde x"
      using upsert_vless_meta_Inr(2) [OF vless that] sel(4) by (cases "ep_kind e = VlessRealityVisionTcp") (auto simp: follows_domains_def)
  qed
  then show ?thesis by (simp add: s' sel)
qed

text \<open>Every accepted command is a run of the step relation.\<close>

lemma apply_command_steps:
  assumes "apply_command x c s = (Inr r, s')" "well_formed c s"
  shows "(step x)\<^sup>*\<^sup>* s s'"
proof (cases c)
  case (UpsertNode n j)
  with assms upsert_node_Inr [of n j s r s'] show ?thesis by (auto intro: step.join)
next
  case (DeleteNode n d ids j)
  with assms have "apply_delete_node n d ids j s = (Inr r, s')" by simp
  from delete_node_Inr [OF this] show ?thesis by (auto intro: step.session step.leave)
next
  case (BeginMembershipOperation op n j)
  with assms show ?thesis by (auto intro: step_begin simp: well_formed_def)
next
  case (TransitionMembershipOperation op)
  with assms show ?thesis
    by (auto simp: apply_transition_membership_operation_def try_in_Inr_iff intro: step.op_move split: option.splits)
next
  case (PruneMembershipOperations t)
  with assms show ?thesis
    by (auto simp: apply_prune_membership_operations_def intro: step.op_prune split: option.splits)
next
  case (UpsertEndpoint e ex)
  with assms show ?thesis by (auto intro: step_put_endpoint)
next
  case (DeleteEndpoint k)
  with assms delete_endpoint_Inr [of k s r s'] show ?thesis by (auto intro: step.drop_endpoint)
next
  case (CompatNoop nt)
  with assms show ?thesis by (auto simp: apply_compat_noop_def intro: step.egress split: option.splits prod.splits if_splits)
next
  case (CreateRealityDomain d)
  with assms have run: "apply_create_reality_domain x d s = (Inr r, s')"
    and fresh: "rd_domain_id d \<notin> set (map rd_domain_id (st_reality_domains s))" by (simp_all add: well_formed_def)
  from domain_commands_Inr(1) [OF run] obtain ds where "replace_domains x ds s = (Inr r, s')" ..
  then show ?thesis by (intro r_into_rtranclp step.domains) (auto intro: create_domain_ok [OF _ fresh run])
next
  case (PatchRealityDomain k nm dis)
  with assms have run: "apply_patch_reality_domain x k nm dis s = (Inr r, s')" by simp
  from domain_commands_Inr(2) [OF run] obtain ds where "replace_domains x ds s = (Inr r, s')" ..
  then show ?thesis by (intro r_into_rtranclp step.domains) (auto intro: patch_domain_ok [OF _ run])
next
  case (DeleteRealityDomain k)
  with assms have run: "apply_delete_reality_domain x k s = (Inr r, s')" by simp
  from domain_commands_Inr(3) [OF run] obtain ds where "replace_domains x ds s = (Inr r, s')" ..
  then show ?thesis by (intro r_into_rtranclp step.domains) (auto intro: delete_domain_ok [OF _ run])
next
  case (ReorderRealityDomains ks)
  with assms have run: "apply_reorder_reality_domains x ks s = (Inr r, s')" by simp
  from domain_commands_Inr(4) [OF run] obtain ds where "replace_domains x ds s = (Inr r, s')" ..
  then show ?thesis by (intro r_into_rtranclp step.domains) (auto intro: reorder_domain_ok [OF _ run])
next
  case (AppendEndpointProbeSamples h n ps)
  with assms have "apply_append_endpoint_probe_samples h n ps s = (Inr r, s')" by simp
  then have "s' = snd (apply_append_endpoint_probe_samples h n ps s)" by simp
  then show ?thesis by (auto intro: step.probes)
next
  case (DeleteUser k)
  with assms have "apply_delete_user k s = (Inr r, s')" by simp
  then have "s' = snd (apply_delete_user k s)" by simp
  then show ?thesis by (auto intro: step.drop_user)
next
  case (UpsertUser u)
  with assms have "is_ok (validate_user_quota_reset (u_quota_reset u))"
    "s' = s\<lparr>st_users := bt_insert (u_user_id u) u (st_users s)\<rparr>"
    by (auto simp: apply_upsert_user_def try_in_Inr_iff is_ok_iff)
  then show ?thesis by (auto intro: step.put_user)
next
  case (ResetUserSubscriptionToken k t)
  with assms show ?thesis
    by (auto simp: apply_reset_user_subscription_token_def intro!: r_into_rtranclp step.edit_user split: option.splits)
next
  case (BumpUserCredentialEpoch k)
  with assms show ?thesis
    by (auto simp: apply_bump_user_credential_epoch_def Let_def intro!: r_into_rtranclp step.edit_user split: option.splits)
next
  case (ReplaceRepositoryMembership m)
  with assms show ?thesis
    by (auto simp: apply_replace_repository_membership_def apply_repository_membership_def try_in_Inr_iff
        well_formed_def find_None_all intro: step.members split: option.splits)
next
  case (UpdateRepositoryMemberRuntime p)
  with assms have "s' = s\<lparr>st_repository_membership := snd (apply_member_runtime_update p (st_repository_membership s))\<rparr>"
    by (auto simp: apply_update_repository_member_runtime_def try_in_Inr_iff Let_def split: prod.splits)
  then show ?thesis by (auto intro: step.member_runtime)
next
  case (ReplaceUserAccess k ids)
  with assms show ?thesis by (auto intro: step.replace_access)
next
  case (EnsureMembership k e)
  with assms show ?thesis by (auto intro: step.ensure_access)
next
  case (UpsertReverseMeshAssignment a ex)
  with assms show ?thesis by (auto intro: step.mesh_assign)
next
  case (SetReverseMeshEpoch ep)
  with assms mesh_Inr(1) [of ep s r s'] show ?thesis by (auto intro: step.mesh_epoch)
next
  case (DeleteReverseMeshAssignment t ex)
  with assms mesh_Inr(2) [of t ex s r s'] show ?thesis by (auto intro: step.mesh_drop)
qed (use assms in \<open>auto simp: user_handler_defs Let_def try_in_Inr_iff is_ok_iff
    intro: step.set_quota step.set_weight
    step.set_global_weight step.set_policy step.set_profile step.set_mode step.set_targets
    split: if_splits option.splits\<close>)

lemma steps_preserve:
  assumes "\<And>s s'. step x s s' \<Longrightarrow> P s \<Longrightarrow> P s'" "(step x)\<^sup>*\<^sup>* s s'" "P s"
  shows "P s'"
  using assms(2,3) by (induction rule: rtranclp_induct) (auto intro: assms(1))

section \<open>Entries are stored under their own id\<close>

definition keyed :: "('v \<Rightarrow> 'k) \<Rightarrow> ('k::linorder, 'v) btree_map \<Rightarrow> bool" where
  "keyed f m = (\<forall>k v. bt_get m k = Some v \<longrightarrow> f v = k)"

lemma keyed_empty [simp]: "keyed f bt_empty"
  by (simp add: keyed_def)

lemma keyed_insert [simp]: "keyed f m \<Longrightarrow> f v = k \<Longrightarrow> keyed f (bt_insert k v m)"
  by (auto simp: keyed_def)

lemma keyed_remove [simp]: "keyed f m \<Longrightarrow> keyed f (bt_remove k m)"
  by (auto simp: keyed_def split: if_splits)

lemma keyed_retain [simp]: "keyed f m \<Longrightarrow> keyed f (bt_retain P m)"
  by (auto simp: keyed_def bt_get_retain split: option.splits if_splits)

lemma keyedD: "keyed f m \<Longrightarrow> bt_get m k = Some v \<Longrightarrow> f v = k"
  by (simp add: keyed_def)

lemma endpoints_keyed_iff: "endpoints_keyed s \<longleftrightarrow> keyed ep_endpoint_id (st_endpoints s)"
  by (simp add: endpoints_keyed_def keyed_def)

definition keys_ok :: "state \<Rightarrow> bool" where
  "keys_ok s =
     (keyed n_node_id (st_nodes s) \<and> keyed ep_endpoint_id (st_endpoints s) \<and> keyed u_user_id (st_users s) \<and>
      keyed js_node_id (st_join_sessions s) \<and> keyed mo_operation_id (st_membership_operations s) \<and>
      keyed ra_target_node_id (st_reverse_mesh_assignments s))"

lemma commit_sessions:
  "st_join_sessions (commit_session j s) =
     (case j of None \<Rightarrow> st_join_sessions s | Some j \<Rightarrow> bt_insert (js_node_id j) j (st_join_sessions s))"
  by (simp add: commit_session_def split: option.split)

lemma without_sel [simp]:
  "st_nodes (without_node n j s) = bt_remove n (st_nodes s)"
  "st_users (without_node n j s) = st_users s"
  "st_endpoints (without_node n j s) = bt_retain (\<lambda>k _. k \<notin> ep_endpoint_id ` set (endpoints_on n s)) (st_endpoints s)"
  "st_join_sessions (without_node n j s) = st_join_sessions (commit_session j s)"
  "st_membership_operations (without_node n j s) = st_membership_operations s"
  "st_user_global_weights (without_node n j s) = st_user_global_weights s"
  "st_node_user_endpoint_memberships (without_node n j s) = st_node_user_endpoint_memberships s"
  "st_user_auto_assign_endpoint_kinds (without_node n j s) = st_user_auto_assign_endpoint_kinds s"
  "st_user_mihomo_profiles (without_node n j s) = st_user_mihomo_profiles s"
  "st_repository_membership (without_node n j s) = st_repository_membership s"
  "st_reverse_mesh_epoch (without_node n j s) = st_reverse_mesh_epoch s"
  "st_reverse_mesh_generation_counters (without_node n j s) = st_reverse_mesh_generation_counters s"
  "st_reality_domains (without_node n j s) =
     map (\<lambda>d. d\<lparr>rd_disabled_node_ids := bs_remove n (rd_disabled_node_ids d)\<rparr>) (st_reality_domains s)"
  "st_user_node_quotas (without_node n j s) = forget_inner n (st_user_node_quotas s)"
  "st_user_node_weights (without_node n j s) = forget_inner n (st_user_node_weights s)"
  "st_node_weight_policies (without_node n j s) = bt_remove n (st_node_weight_policies s)"
  "st_endpoint_probe_history (without_node n j s) = forget_in_history n
     (bt_retain (\<lambda>k _. k \<notin> ep_endpoint_id ` set (endpoints_on n s)) (st_endpoint_probe_history s))"
  "st_endpoint_probe_participants_by_hour (without_node n j s) =
     bt_retain (\<lambda>_ ps. \<not> bt_is_empty ps)
       (bt_map_values (\<lambda>_. bs_remove n) (st_endpoint_probe_participants_by_hour s))"
  "st_node_egress_probes (without_node n j s) = bt_remove n (st_node_egress_probes s)"
  "st_reverse_mesh_assignments (without_node n j s) =
     bt_retain (\<lambda>t a. t \<noteq> n \<and> ra_target_node_id a \<noteq> n \<and> \<not> contains_rendezvous a n) (st_reverse_mesh_assignments s)"
  by (simp_all add: without_node_def commit_sessions split: option.split)

lemma delete_user_sel:
  "snd (apply_delete_user k s) = sync_memberships (s\<lparr>st_mihomo_resource_revision := st_mihomo_resource_revision s + 1,
     st_users := bt_remove k (st_users s), st_user_node_quotas := bt_remove k (st_user_node_quotas s),
     st_user_node_weights := bt_remove k (st_user_node_weights s),
     st_user_global_weights := bt_remove k (st_user_global_weights s),
     st_user_mihomo_profiles := bt_remove k (st_user_mihomo_profiles s)\<rparr>)"
  by (simp add: apply_delete_user_def Let_def)

text \<open>
  The steps whose new state is given through a handler, written out: the fields other than the ones
  they change are those of the old state.
\<close>

lemma domains_sel:
  assumes "replace_domains x ds s = (Inr r, s')"
  obtains eps where "s' = s\<lparr>st_reality_domains := ds, st_endpoints := eps\<rparr>" "same_identity (st_endpoints s) eps"
  using replace_domains_Inr(2) [OF assms] replace_domains_same [OF assms] by (rule that)

lemma probes_sel:
  obtains parts hist where "snd (apply_append_endpoint_probe_samples h n ps s) =
    s\<lparr>st_endpoint_probe_participants_by_hour := parts, st_endpoint_probe_history := hist\<rparr>"
proof -
  have "apply_append_endpoint_probe_samples h n ps s =
      (Inr Applied, snd (apply_append_endpoint_probe_samples h n ps s))"
    by (simp add: apply_append_endpoint_probe_samples_def Let_def)
  from append_probes_Inr [OF this] show ?thesis using that by blast
qed

lemma keyed_same: "same_identity m m' \<Longrightarrow> keyed ep_endpoint_id m \<Longrightarrow> keyed ep_endpoint_id m'"
  unfolding keyed_def by (metis same_identityD(1))

lemma step_keys: "step x s s' \<Longrightarrow> keys_ok s \<Longrightarrow> keys_ok s'"
proof (induction rule: step.induct)
  case (domains ds s r s')
  from domains(1) show ?case
  proof (rule domains_sel)
    fix eps assume "s' = s\<lparr>st_reality_domains := ds, st_endpoints := eps\<rparr>" "same_identity (st_endpoints s) eps"
    with domains(3) show ?thesis by (auto simp: keys_ok_def intro: keyed_same)
  qed
next
  case (edit_user s k u u')
  then show ?case by (auto simp: keys_ok_def dest: keyedD intro!: keyed_insert)
next
  case (probes s h n ps)
  show ?case by (rule probes_sel [of h n ps s]) (use probes in \<open>simp add: keys_ok_def\<close>)
next
  case (replace_access k ids s r s')
  with replace_user_access_Inr [OF this(1)] show ?case by (auto simp: keys_ok_def)
next
  case (ensure_access k e s r s')
  with ensure_membership_Inr [OF this(1)] show ?case by (auto simp: keys_ok_def)
next
  case (mesh_assign a ex s r s')
  with upsert_assignment_Inr(8) [OF this(1)] show ?case by (simp add: keys_ok_def)
qed (auto simp: keys_ok_def commit_sessions delete_user_sel split: option.splits)

section \<open>References\<close>

text \<open>
  Settings of users exist for users only, settings of nodes for nodes only, and nothing is kept for an
  empty inner map; probe history exists for endpoints only; a reverse-mesh assignment is valid and names
  nodes that exist.
\<close>

definition keys_sub :: "('k::linorder, 'v) btree_map \<Rightarrow> ('k, 'w) btree_map \<Rightarrow> bool" where
  "keys_sub m m' = (\<forall>k. bt_contains_key m k \<longrightarrow> bt_contains_key m' k)"

definition inner_ok :: "('o::linorder, ('k::linorder, 'v) btree_map) btree_map \<Rightarrow> ('k, 'w) btree_map \<Rightarrow> bool" where
  "inner_ok m m' = (\<forall>o' inner. bt_get m o' = Some inner \<longrightarrow> \<not> bt_is_empty inner \<and> keys_sub inner m')"

definition assignments_ok :: "state \<Rightarrow> bool" where
  "assignments_ok s =
     (\<forall>t a. bt_get (st_reverse_mesh_assignments s) t = Some a \<longrightarrow>
        assignment_is_valid a \<and> bt_contains_key (st_nodes s) (ra_target_node_id a) \<and>
        (\<forall>n \<in> set (rendezvous_ids a). bt_contains_key (st_nodes s) n))"

definition refs_ok :: "state \<Rightarrow> bool" where
  "refs_ok s =
     (keys_sub (st_user_node_quotas s) (st_users s) \<and> keys_sub (st_user_node_weights s) (st_users s) \<and>
      keys_sub (st_user_global_weights s) (st_users s) \<and> keys_sub (st_user_mihomo_profiles s) (st_users s) \<and>
      inner_ok (st_user_node_quotas s) (st_nodes s) \<and> inner_ok (st_user_node_weights s) (st_nodes s) \<and>
      keys_sub (st_node_weight_policies s) (st_nodes s) \<and> keys_sub (st_node_egress_probes s) (st_nodes s) \<and>
      keys_sub (st_endpoint_probe_history s) (st_endpoints s) \<and> assignments_ok s)"

lemma keys_sub_simps [simp]:
  "keys_sub bt_empty m'" "keys_sub m m"
  by (simp_all add: keys_sub_def)

lemma keys_sub_intros:
  "keys_sub m m' \<Longrightarrow> keys_sub m (bt_insert k v m')"
  "keys_sub m m' \<Longrightarrow> bt_contains_key m' k \<Longrightarrow> keys_sub (bt_insert k w m) m'"
  "keys_sub m m' \<Longrightarrow> bt_contains_key m' k \<Longrightarrow> keys_sub (bt_entry k d f m) m'"
  "keys_sub m m' \<Longrightarrow> keys_sub (bt_remove k m) (bt_remove k m')"
  "keys_sub m m' \<Longrightarrow> keys_sub (bt_retain P m) m'"
  "keys_sub m m' \<Longrightarrow> keys_sub (bt_map_values g m) m'"
  by (auto simp: keys_sub_def dest: bt_contains_retainD)

lemma keys_sub_retain_both:
  "keys_sub m m' \<Longrightarrow> keys_sub (bt_retain (\<lambda>k _. k \<notin> A) m) (bt_retain (\<lambda>k _. k \<notin> A) m')"
  by (auto simp: keys_sub_def bt_contains_iff bt_get_retain split: option.splits if_splits)

lemma inner_ok_intros:
  "inner_ok m m' \<Longrightarrow> inner_ok m (bt_insert k v m')"
  "inner_ok m m' \<Longrightarrow> inner_ok (bt_remove o' m) m'"
  "inner_ok m m' \<Longrightarrow> bt_contains_key m' k \<Longrightarrow> inner_ok (bt_entry o' bt_empty (bt_insert k w) m) m'"
  "inner_ok m m' \<Longrightarrow> inner_ok (forget_inner k m) (bt_remove k m')"
  subgoal by (auto simp: inner_ok_def intro: keys_sub_intros)
  subgoal by (auto simp: inner_ok_def split: if_splits)
  subgoal
    by (auto simp: inner_ok_def bt_get_or_def bt_is_empty_iff intro!: keys_sub_intros split: if_splits option.splits)
  subgoal
    by (auto simp: inner_ok_def forget_inner_def bt_get_retain bt_get_map_values intro!: keys_sub_intros
        split: if_splits option.splits)
  done

lemma keys_sub_forget:
  "keys_sub m m' \<Longrightarrow> keys_sub (forget_inner k m) m'"
  "keys_sub h m' \<Longrightarrow> keys_sub (forget_in_history n h) m'"
  by (simp_all add: forget_inner_def forget_in_history_def keys_sub_intros)

lemma keys_sub_same: "same_identity m' m'' \<Longrightarrow> keys_sub m m' \<Longrightarrow> keys_sub m m''"
  unfolding keys_sub_def by (simp add: same_identityD(3))

lemma append_samples_keys:
  "keys_sub (st_endpoint_probe_history s) (st_endpoints s) \<Longrightarrow>
    keys_sub (st_endpoint_probe_history (fold (append_sample h n) ps s)) (st_endpoints s)"
proof (induction ps arbitrary: s)
  case (Cons p ps)
  have eps: "st_endpoints (append_sample h n p s) = st_endpoints s" by (simp add: append_sample_def Let_def)
  have "keys_sub (st_endpoint_probe_history (append_sample h n p s)) (st_endpoints s)"
    using Cons.prems by (auto simp: append_sample_def Let_def intro: keys_sub_intros)
  with Cons.IH [of "append_sample h n p s"] show ?case by (simp add: eps)
qed simp

lemma assignments_grow:
  "assignments_ok s \<Longrightarrow> st_reverse_mesh_assignments s' = st_reverse_mesh_assignments s \<Longrightarrow>
    keys_sub (st_nodes s) (st_nodes s') \<Longrightarrow> assignments_ok s'"
  unfolding assignments_ok_def keys_sub_def by metis

lemma refs_cong:
  "\<lbrakk>st_user_node_quotas s' = st_user_node_quotas s; st_user_node_weights s' = st_user_node_weights s;
    st_user_global_weights s' = st_user_global_weights s; st_user_mihomo_profiles s' = st_user_mihomo_profiles s;
    st_users s' = st_users s; st_nodes s' = st_nodes s; st_node_weight_policies s' = st_node_weight_policies s;
    st_node_egress_probes s' = st_node_egress_probes s; st_endpoints s' = st_endpoints s;
    st_endpoint_probe_history s' = st_endpoint_probe_history s;
    st_reverse_mesh_assignments s' = st_reverse_mesh_assignments s; refs_ok s\<rbrakk> \<Longrightarrow> refs_ok s'"
  by (simp add: refs_ok_def assignments_ok_def)

lemma assignments_leave:
  assumes "assignments_ok s"
  shows "assignments_ok (sync_memberships (without_node n j s))"
  unfolding assignments_ok_def
proof (intro allI impI)
  fix t a
  assume "bt_get (st_reverse_mesh_assignments (sync_memberships (without_node n j s))) t = Some a"
  then have a: "bt_get (st_reverse_mesh_assignments s) t = Some a" "ra_target_node_id a \<noteq> n" "n \<notin> set (rendezvous_ids a)"
    by (auto simp: bt_get_retain contains_rendezvous_def list_ex_iff split: option.splits if_splits)
  from assms [unfolded assignments_ok_def, rule_format, OF a(1)] a(2,3)
  show "assignment_is_valid a \<and> bt_contains_key (st_nodes (sync_memberships (without_node n j s))) (ra_target_node_id a) \<and>
      (\<forall>m \<in> set (rendezvous_ids a). bt_contains_key (st_nodes (sync_memberships (without_node n j s))) m)"
    by auto
qed

lemma step_refs: "step x s s' \<Longrightarrow> refs_ok s \<Longrightarrow> refs_ok s'"
proof (induction rule: step.induct)
  case (join s j n)
  have "assignments_ok s" using join by (simp add: refs_ok_def)
  then have "assignments_ok (sync_memberships (commit_session j (s\<lparr>st_nodes := bt_insert (n_node_id n) n (st_nodes s)\<rparr>)))"
    by (rule assignments_grow) (simp_all add: keys_sub_intros)
  with join show ?case by (auto simp: refs_ok_def intro!: keys_sub_intros(1) inner_ok_intros(1))
next
  case (leave s j n)
  then show ?case
    by (auto simp: refs_ok_def intro!: keys_sub_forget keys_sub_intros(4) inner_ok_intros(4) keys_sub_retain_both
        assignments_leave)
next
  case (put_endpoint s e)
  then show ?case by (auto simp: refs_ok_def assignments_ok_def intro: keys_sub_intros)
next
  case (drop_endpoint s k)
  then show ?case by (auto simp: refs_ok_def assignments_ok_def intro: keys_sub_intros)
next
  case (domains ds s r s')
  from domains(1) show ?case
  proof (rule domains_sel)
    fix eps assume "s' = s\<lparr>st_reality_domains := ds, st_endpoints := eps\<rparr>" "same_identity (st_endpoints s) eps"
    with domains(3) show ?thesis by (auto simp: refs_ok_def assignments_ok_def intro: keys_sub_same)
  qed
next
  case (put_user u s)
  then show ?case by (auto simp: refs_ok_def assignments_ok_def intro: keys_sub_intros)
next
  case (edit_user s k u u')
  then show ?case by (auto simp: refs_ok_def assignments_ok_def intro: keys_sub_intros)
next
  case (drop_user s k)
  then show ?case
    by (auto simp: delete_user_sel refs_ok_def assignments_ok_def intro: keys_sub_intros(4) inner_ok_intros(2))
next
  case (probes s h n ps)
  let ?s1 = "s\<lparr>st_endpoint_probe_participants_by_hour :=
      prune_endpoint_probe_hour_map (bt_entry h bt_empty (bs_insert n) (st_endpoint_probe_participants_by_hour s))\<rparr>"
  have run: "snd (apply_append_endpoint_probe_samples h n ps s) = fold (append_sample h n) ps ?s1"
    by (simp add: apply_append_endpoint_probe_samples_def Let_def)
  have hist: "keys_sub (st_endpoint_probe_history (fold (append_sample h n) ps ?s1)) (st_endpoints s)"
    using append_samples_keys [of ?s1 h n ps] probes by (simp add: refs_ok_def)
  show ?case
    by (rule probes_sel [of h n ps s])
      (use probes hist run in \<open>simp add: refs_ok_def assignments_ok_def\<close>)
next
  case (replace_access k ids s r s')
  with replace_user_access_Inr [OF this(1)] show ?case by (auto intro: refs_cong)
next
  case (ensure_access k e s r s')
  with ensure_membership_Inr [OF this(1)] show ?case by (auto intro: refs_cong)
next
  case (mesh_assign a ex s r s')
  note up = upsert_assignment_Inr [OF this(1)]
  have "assignments_ok s'"
    using mesh_assign(2) up(1,3,4) by (auto simp: up(8) refs_ok_def assignments_ok_def)
  with mesh_assign(2) show ?case by (simp add: refs_ok_def up(8))
next
  case (mesh_drop s t)
  then show ?case by (auto simp: refs_ok_def assignments_ok_def split: if_splits)
qed (auto simp: refs_ok_def assignments_ok_def intro: keys_sub_intros inner_ok_intros)

section \<open>Access\<close>

text \<open>The access index is in order: \<open>access_ok\<close>, for endpoints that are stored under their ids.\<close>

lemma access_cong:
  "\<lbrakk>st_users s' = st_users s; st_endpoints s' = st_endpoints s;
    st_user_auto_assign_endpoint_kinds s' = st_user_auto_assign_endpoint_kinds s;
    st_node_user_endpoint_memberships s' = st_node_user_endpoint_memberships s\<rbrakk> \<Longrightarrow> access_ok s' = access_ok s"
  by (simp add: access_ok_defs)

lemma keys_ok_endpoints: "keys_ok s \<Longrightarrow> endpoints_keyed s"
  by (simp add: keys_ok_def endpoints_keyed_iff)

lemma access_put_user:
  "access_ok s \<Longrightarrow> access_ok (s\<lparr>st_users := bt_insert k u (st_users s)\<rparr>)"
  by (auto simp: access_ok_defs)

lemma step_access: "step x s s' \<Longrightarrow> keys_ok s \<Longrightarrow> access_ok s \<Longrightarrow> access_ok s'"
proof (induction rule: step.induct)
  case (domains ds s r s')
  from domains(1) show ?case
  proof (rule domains_sel)
    fix eps assume "s' = s\<lparr>st_reality_domains := ds, st_endpoints := eps\<rparr>" "same_identity (st_endpoints s) eps"
    with access_ok_same [of "s\<lparr>st_reality_domains := ds\<rparr>" eps] domains(4) access_cong [of "s\<lparr>st_reality_domains := ds\<rparr>" s]
    show ?thesis by simp
  qed
next
  case (replace_access k ids s r s')
  from replace_user_access_ok(7) [OF replace_access(3) keys_ok_endpoints [OF replace_access(2)] replace_access(1)]
  show ?case .
next
  case (ensure_access k e s r s')
  from ensure_access(1) obtain ep where "bt_contains_key (st_users s) k" "bt_get (st_endpoints s) e = Some ep"
    by (auto simp: apply_ensure_membership_def split: if_splits option.splits)
  from ensure_membership_access [OF ensure_access(3) keys_ok_endpoints [OF ensure_access(2)] this] ensure_access(1)
  show ?case by auto
next
  case (probes s h n ps)
  show ?case by (rule probes_sel [of h n ps s]) (use probes in \<open>simp add: access_ok_defs\<close>)
next
  case (mesh_assign a ex s r s')
  with upsert_assignment_Inr(8) [OF this(1)] show ?case by (simp add: access_ok_defs)
next
  case (join s j n)
  then show ?case by (intro sync_access_ok) (simp add: keys_ok_def endpoints_keyed_iff)
next
  case (leave s j n)
  then show ?case by (intro sync_access_ok) (simp add: keys_ok_def endpoints_keyed_iff)
next
  case (put_endpoint s e)
  then show ?case by (intro sync_access_ok) (simp add: keys_ok_def endpoints_keyed_iff)
next
  case (drop_endpoint s k)
  then show ?case by (intro sync_access_ok) (simp add: keys_ok_def endpoints_keyed_iff)
next
  case (drop_user s k)
  then show ?case unfolding delete_user_sel by (intro sync_access_ok) (simp add: keys_ok_def endpoints_keyed_iff)
next
  case (put_user u s)
  then show ?case by (rule_tac access_put_user)
next
  case (edit_user s k u u')
  then show ?case by (rule_tac access_put_user)
next
  case (session s j)
  then show ?case using access_cong [of "commit_session j s" s] by simp
qed (simp_all add: access_ok_defs)

section \<open>Server names\<close>

lemma follow_cong:
  "st_endpoints s' = st_endpoints s \<Longrightarrow> st_reality_domains s' = st_reality_domains s \<Longrightarrow>
    endpoints_follow x s \<Longrightarrow> endpoints_follow x s'"
  by (simp add: endpoints_follow_def)

lemma derive_forget:
  assumes "n' \<noteq> n"
  shows "derive_global_reality_server_names
      (map (\<lambda>d. d\<lparr>rd_disabled_node_ids := bs_remove n (rd_disabled_node_ids d)\<rparr>) ds) n' =
    derive_global_reality_server_names ds n'"
proof -
  have "map rd_server_name (filter (\<lambda>d. n' \<notin> bs_set (rd_disabled_node_ids d))
      (map (\<lambda>d. d\<lparr>rd_disabled_node_ids := bs_remove n (rd_disabled_node_ids d)\<rparr>) ds)) =
    map rd_server_name (filter (\<lambda>d. n' \<notin> bs_set (rd_disabled_node_ids d)) ds)"
    using assms by (induction ds) auto
  then show ?thesis by (simp only: derive_global_eq)
qed

lemma follows_forget:
  "follows_domains x ds e \<Longrightarrow> ep_node_id e \<noteq> n \<Longrightarrow>
    follows_domains x (map (\<lambda>d. d\<lparr>rd_disabled_node_ids := bs_remove n (rd_disabled_node_ids d)\<rparr>) ds) e"
  by (simp add: follows_domains_def globalized_def derive_forget)

text \<open>No endpoint of a deleted node is left.\<close>

lemma without_node_endpoints:
  assumes "keyed ep_endpoint_id (st_endpoints s)" "bt_get (st_endpoints (without_node n j s)) k = Some e"
  shows "bt_get (st_endpoints s) k = Some e" "ep_node_id e \<noteq> n"
proof -
  from assms(2) have e: "bt_get (st_endpoints s) k = Some e" "k \<notin> ep_endpoint_id ` set (endpoints_on n s)"
    by (auto simp: bt_get_retain split: option.splits if_splits)
  moreover from keyedD [OF assms(1) e(1)] have "ep_endpoint_id e = k" .
  ultimately show "bt_get (st_endpoints s) k = Some e" "ep_node_id e \<noteq> n"
    by (auto simp: endpoints_on_def bt_values_iff)
qed

lemma step_follow:
  assumes "step x s s'" "vless_serde x" "keys_ok s" "endpoints_follow x s"
  shows "endpoints_follow x s'"
  using assms(1,3,4)
proof (induction rule: step.induct)
  case (leave s j n)
  then have keyed: "keyed ep_endpoint_id (st_endpoints s)" by (simp add: keys_ok_def)
  show ?case
    unfolding endpoints_follow_def
  proof (intro allI impI)
    fix k e assume "bt_get (st_endpoints (sync_memberships (without_node n j s))) k = Some e"
    then have "bt_get (st_endpoints (without_node n j s)) k = Some e" by simp
    from without_node_endpoints [OF keyed this] leave
    show "follows_domains x (st_reality_domains (sync_memberships (without_node n j s))) e"
      by (simp add: endpoints_follow_def follows_forget)
  qed
next
  case (put_endpoint s e)
  then show ?case using assms(2) by (simp add: endpoints_follow_def)
next
  case (drop_endpoint s k)
  then show ?case by (simp add: endpoints_follow_def)
next
  case (domains ds s r s')
  show ?case by (rule replace_domains_follow [OF assms(2) domains(1)])
next
  case (drop_user s k)
  then show ?case by (simp add: delete_user_sel endpoints_follow_def)
next
  case (probes s h n ps)
  show ?case by (rule probes_sel [of h n ps s]) (use probes in \<open>simp add: endpoints_follow_def\<close>)
next
  case (replace_access k ids s r s')
  with replace_user_access_Inr [OF this(1)] show ?case by (auto intro: follow_cong)
next
  case (ensure_access k e s r s')
  with ensure_membership_Inr [OF this(1)] show ?case by (auto intro: follow_cong)
next
  case (mesh_assign a ex s r s')
  with upsert_assignment_Inr(8) [OF this(1)] show ?case by (simp add: endpoints_follow_def)
qed (simp_all add: endpoints_follow_def)

section \<open>Membership operations\<close>

text \<open>
  At most one operation is active; an operation is recorded with its end exactly when it has ended; and
  while the removal of a node is active, the endpoints of the node are those of the snapshot the removal
  was started with, or gone.
\<close>

definition snapshot_kept :: "state \<Rightarrow> membership_operation \<Rightarrow> bool" where
  "snapshot_kept s op =
     (mo_kind op = RemoveNode \<longrightarrow>
       (\<exists>n. remove_node_target op = Some n \<and>
         (endpoints_on n s = [] \<or>
          ep_endpoint_id ` set (endpoints_on n s) = set (mo_expected_endpoint_ids op) \<and>
          ep_tag ` set (endpoints_on n s) = set (mo_expected_endpoint_tags op) \<and> mo_delete_endpoints op)))"

definition operations_ok :: "ext \<Rightarrow> state \<Rightarrow> bool" where
  "operations_ok x s =
     ((\<forall>k k' op op'. bt_get (st_membership_operations s) k = Some op \<longrightarrow> bt_get (st_membership_operations s) k' = Some op' \<longrightarrow>
         is_active op \<longrightarrow> is_active op' \<longrightarrow> k = k') \<and>
      (\<forall>k op. bt_get (st_membership_operations s) k = Some op \<longrightarrow>
         (is_active op \<longleftrightarrow> mo_terminal_at op = None) \<and> (is_active op \<longrightarrow> snapshot_kept s op) \<and>
         terminal_recorded (x_rfc3339 x) op))"

lemma active_None:
  "active_membership_operation s = None \<longleftrightarrow>
     (\<forall>k op. bt_get (st_membership_operations s) k = Some op \<longrightarrow> \<not> is_active op)"
  by (auto simp: active_membership_operation_def find_None_all bt_values_iff)

lemma active_Some:
  assumes "operations_ok x s" "bt_get (st_membership_operations s) k = Some op" "is_active op"
  shows "active_membership_operation s = Some op"
proof (cases "active_membership_operation s")
  case None
  with assms show ?thesis by (simp add: active_None)
next
  case (Some op')
  then have "op' \<in> set (bt_values (st_membership_operations s))" "is_active op'"
    by (auto simp: active_membership_operation_def find_Some_iff)
  then obtain k' where "bt_get (st_membership_operations s) k' = Some op'" by (auto simp: bt_values_iff)
  moreover from this assms \<open>is_active op'\<close> have "k' = k" unfolding operations_ok_def by blast
  ultimately show ?thesis using assms(2) Some by simp
qed

lemma remove_target_expect:
  "expect_remove_node_target op = Inr n \<longleftrightarrow> remove_node_target op = Some n"
  by (auto simp: expect_remove_node_target_def split: option.splits)

lemma snapshot_begin:
  "validate_remove_node_endpoint_snapshot s op = Inr () \<Longrightarrow> snapshot_kept s op"
  by (auto simp: validate_remove_node_endpoint_snapshot_def snapshot_kept_def and_then_Inr_iff Let_def bs_eq_iff
      remove_target_expect split: if_splits)

lemma mutation_allowed:
  assumes "ensure_endpoint_mutation_is_allowed s cur nxt = Inr ()" "operations_ok x s"
    "bt_get (st_membership_operations s) k = Some op" "is_active op" "mo_kind op = RemoveNode" "remove_node_target op = Some n"
  shows "\<forall>e. cur = Some e \<longrightarrow> ep_node_id e \<noteq> n" "\<forall>e. nxt = Some e \<longrightarrow> ep_node_id e \<noteq> n"
  using assms(1,5,6) active_Some [OF assms(2,3,4)]
  by (auto simp: ensure_endpoint_mutation_is_allowed_def expect_remove_node_target_def split: if_splits)

lemma endpoints_on_same:
  assumes "same_identity (st_endpoints s) (st_endpoints s')"
  shows "ep_endpoint_id ` set (endpoints_on n s') = ep_endpoint_id ` set (endpoints_on n s)"
    "ep_tag ` set (endpoints_on n s') = ep_tag ` set (endpoints_on n s)"
    "endpoints_on n s' = [] \<longleftrightarrow> endpoints_on n s = []"
proof -
  have sub: "f ` set (endpoints_on n s2) \<subseteq> f ` set (endpoints_on n s1)"
    if "\<And>k e. bt_get (st_endpoints s2) k = Some e \<Longrightarrow>
        \<exists>e'. bt_get (st_endpoints s1) k = Some e' \<and> ep_node_id e' = ep_node_id e \<and> f e' = f e"
    for f :: "endpoint \<Rightarrow> string" and s1 s2
    using that by (fastforce simp: endpoints_on_def bt_values_iff image_iff)
  show ids: "ep_endpoint_id ` set (endpoints_on n s') = ep_endpoint_id ` set (endpoints_on n s)"
    by (intro equalityI sub) (metis same_identityD(1,2) [OF assms])+
  show "ep_tag ` set (endpoints_on n s') = ep_tag ` set (endpoints_on n s)"
    by (intro equalityI sub) (metis same_identityD(1,2) [OF assms])+
  from ids show "endpoints_on n s' = [] \<longleftrightarrow> endpoints_on n s = []" by auto
qed

lemma endpoints_on_cong: "st_endpoints s' = st_endpoints s \<Longrightarrow> endpoints_on n s' = endpoints_on n s"
  by (simp add: endpoints_on_def)

lemma set_endpoints_on: "e \<in> set (endpoints_on n s) \<longleftrightarrow> ep_node_id e = n \<and> (\<exists>k. bt_get (st_endpoints s) k = Some e)"
  by (auto simp: endpoints_on_def bt_values_iff)

lemma snapshot_same:
  assumes "same_identity (st_endpoints s) (st_endpoints s')" "snapshot_kept s op"
  shows "snapshot_kept s' op"
  using assms(2) unfolding snapshot_kept_def endpoints_on_same [OF assms(1)] .

lemma snapshot_cong_state: "st_endpoints s' = st_endpoints s \<Longrightarrow> snapshot_kept s' op = snapshot_kept s op"
  by (simp add: snapshot_kept_def endpoints_on_def)

lemma snapshot_set:
  assumes "snapshot_kept s op"
    and "\<And>n. mo_kind op = RemoveNode \<Longrightarrow> remove_node_target op = Some n \<Longrightarrow>
      set (endpoints_on n s') = set (endpoints_on n s) \<or> endpoints_on n s' = []"
  shows "snapshot_kept s' op"
  unfolding snapshot_kept_def
proof
  assume kind: "mo_kind op = RemoveNode"
  from assms(1) [unfolded snapshot_kept_def, THEN mp, OF kind] obtain n where n: "remove_node_target op = Some n"
    and old: "endpoints_on n s = [] \<or>
      ep_endpoint_id ` set (endpoints_on n s) = set (mo_expected_endpoint_ids op) \<and>
      ep_tag ` set (endpoints_on n s) = set (mo_expected_endpoint_tags op) \<and> mo_delete_endpoints op"
    by (elim exE conjE) (rule that)
  from assms(2) [OF kind n] show "\<exists>n. remove_node_target op = Some n \<and>
      (endpoints_on n s' = [] \<or>
       ep_endpoint_id ` set (endpoints_on n s') = set (mo_expected_endpoint_ids op) \<and>
       ep_tag ` set (endpoints_on n s') = set (mo_expected_endpoint_tags op) \<and> mo_delete_endpoints op)"
  proof
    assume eq: "set (endpoints_on n s') = set (endpoints_on n s)"
    then have "endpoints_on n s' = [] \<longleftrightarrow> endpoints_on n s = []" by (metis set_empty)
    with old n eq show ?thesis by (intro exI [of _ n]) simp
  qed (use n in simp)
qed

lemma operations_frame:
  assumes "operations_ok x s" "st_membership_operations s' = st_membership_operations s"
    "\<And>k op. bt_get (st_membership_operations s) k = Some op \<Longrightarrow> is_active op \<Longrightarrow> snapshot_kept s op \<Longrightarrow> snapshot_kept s' op"
  shows "operations_ok x s'"
  using assms(1,3) unfolding operations_ok_def assms(2) by blast

lemma operations_endpoints:
  assumes "operations_ok x s" "st_membership_operations s' = st_membership_operations s" "st_endpoints s' = st_endpoints s"
  shows "operations_ok x s'"
  using assms(1,2) by (rule operations_frame) (rule snapshot_cong_state [OF assms(3), THEN iffD2])

text \<open>What a guarded endpoint change leaves of the endpoints of the node that is being removed.\<close>

lemma snapshot_put:
  assumes ok: "operations_ok x s" and keys: "keys_ok s"
    and allowed: "ensure_endpoint_mutation_is_allowed s (bt_get (st_endpoints s) (ep_endpoint_id e)) (Some e) = Inr ()"
    and op: "bt_get (st_membership_operations s) k = Some op" "is_active op" "snapshot_kept s op"
    and s': "st_endpoints s' = bt_insert (ep_endpoint_id e) e (st_endpoints s)"
  shows "snapshot_kept s' op"
  using op(3)
proof (rule snapshot_set)
  fix n assume n: "mo_kind op = RemoveNode" "remove_node_target op = Some n"
  note away = mutation_allowed [OF allowed ok op(1,2) n]
  have "set (endpoints_on n s') = set (endpoints_on n s)"
  proof (intro set_eqI iffI)
    fix e' assume "e' \<in> set (endpoints_on n s')"
    with away(2) show "e' \<in> set (endpoints_on n s)"
      by (auto simp: set_endpoints_on s' split: if_splits)
  next
    fix e' assume "e' \<in> set (endpoints_on n s)"
    then obtain k' where k': "bt_get (st_endpoints s) k' = Some e'" "ep_node_id e' = n" by (auto simp: set_endpoints_on)
    with away(1) have "k' \<noteq> ep_endpoint_id e" by auto
    with k' show "e' \<in> set (endpoints_on n s')" by (auto simp: set_endpoints_on s' intro!: exI [of _ k'])
  qed
  then show "set (endpoints_on n s') = set (endpoints_on n s) \<or> endpoints_on n s' = []" ..
qed

lemma snapshot_drop:
  assumes ok: "operations_ok x s"
    and allowed: "ensure_endpoint_mutation_is_allowed s (bt_get (st_endpoints s) key) None = Inr ()"
    and op: "bt_get (st_membership_operations s) k = Some op" "is_active op" "snapshot_kept s op"
    and s': "st_endpoints s' = bt_remove key (st_endpoints s)"
  shows "snapshot_kept s' op"
  using op(3)
proof (rule snapshot_set)
  fix n assume n: "mo_kind op = RemoveNode" "remove_node_target op = Some n"
  note away = mutation_allowed [OF allowed ok op(1,2) n]
  have "set (endpoints_on n s') = set (endpoints_on n s)"
  proof (intro set_eqI iffI)
    fix e' assume "e' \<in> set (endpoints_on n s')"
    then show "e' \<in> set (endpoints_on n s)" by (auto simp: set_endpoints_on s' split: if_splits)
  next
    fix e' assume "e' \<in> set (endpoints_on n s)"
    then obtain k' where k': "bt_get (st_endpoints s) k' = Some e'" "ep_node_id e' = n" by (auto simp: set_endpoints_on)
    with away(1) have "k' \<noteq> key" by auto
    with k' show "e' \<in> set (endpoints_on n s')" by (auto simp: set_endpoints_on s' intro!: exI [of _ k'])
  qed
  then show "set (endpoints_on n s') = set (endpoints_on n s) \<or> endpoints_on n s' = []" ..
qed

lemma endpoints_on_without:
  assumes keyed: "keyed ep_endpoint_id (st_endpoints s)"
  shows "e \<in> set (endpoints_on n (without_node m j s)) \<longleftrightarrow> e \<in> set (endpoints_on n s) \<and> n \<noteq> m"
proof
  assume "e \<in> set (endpoints_on n (without_node m j s))"
  then obtain k where k: "bt_get (st_endpoints (without_node m j s)) k = Some e" "ep_node_id e = n"
    unfolding set_endpoints_on by blast
  from without_node_endpoints [OF keyed k(1)] k(2) show "e \<in> set (endpoints_on n s) \<and> n \<noteq> m"
    unfolding set_endpoints_on by blast
next
  assume e: "e \<in> set (endpoints_on n s) \<and> n \<noteq> m"
  then obtain k where k: "bt_get (st_endpoints s) k = Some e" "ep_node_id e = n" unfolding set_endpoints_on by blast
  have "k \<notin> ep_endpoint_id ` set (endpoints_on m s)"
  proof
    assume "k \<in> ep_endpoint_id ` set (endpoints_on m s)"
    then obtain e' k' where e': "bt_get (st_endpoints s) k' = Some e'" "ep_node_id e' = m" "ep_endpoint_id e' = k"
      by (auto simp: set_endpoints_on)
    from keyedD [OF keyed e'(1)] e'(3) have "k' = k" by simp
    with e' k e show False by simp
  qed
  with k(1) have "bt_get (st_endpoints (without_node m j s)) k = Some e" by (simp add: bt_get_retain)
  with k(2) show "e \<in> set (endpoints_on n (without_node m j s))" unfolding set_endpoints_on by blast
qed

lemma snapshot_leave:
  assumes "keys_ok s" "snapshot_kept s op"
  shows "snapshot_kept (sync_memberships (without_node m j s)) op"
  using assms(2)
proof (rule snapshot_set)
  fix n
  from assms(1) have keyed: "keyed ep_endpoint_id (st_endpoints s)" by (simp add: keys_ok_def)
  have "endpoints_on n (sync_memberships (without_node m j s)) = endpoints_on n (without_node m j s)"
    by (simp add: endpoints_on_def)
  moreover have "set (endpoints_on n (without_node m j s)) = (if n = m then {} else set (endpoints_on n s))"
    by (rule set_eqI) (simp add: endpoints_on_without [OF keyed])
  ultimately show "set (endpoints_on n (sync_memberships (without_node m j s))) = set (endpoints_on n s) \<or>
      endpoints_on n (sync_memberships (without_node m j s)) = []"
    by (simp split: if_splits)
qed

lemma operations_begin:
  assumes ok: "operations_ok x s" and op: "mo_phase op = Prepared" "mo_terminal_at op = None"
    and fresh: "\<not> bt_contains_key (st_membership_operations s) (mo_operation_id op)"
    and none: "active_membership_operation s = None" and snap: "validate_remove_node_endpoint_snapshot s op = Inr ()"
  shows "operations_ok x (s\<lparr>st_membership_operations := bt_insert (mo_operation_id op) op (st_membership_operations s)\<rparr>)"
    (is "operations_ok x ?s'")
proof -
  have eps: "snapshot_kept ?s' o' = snapshot_kept s o'" for o' by (rule snapshot_cong_state) simp
  have active: "is_active op" by (simp add: is_active_def is_terminal_def op)
  have others: "\<not> is_active o'" if "bt_get (st_membership_operations s) k = Some o'" for k o'
    using none that by (simp add: active_None)
  have "terminal_recorded (x_rfc3339 x) op" by (simp add: terminal_recorded_def is_terminal_def op)
  with ok others active op(2) snapshot_begin [OF snap] show ?thesis
    unfolding operations_ok_def eps by (auto split: if_splits)
qed

lemma operations_move:
  assumes ok: "operations_ok x s" and cur: "bt_get (st_membership_operations s) (mo_operation_id op) = Some cur"
    and succ: "op_validate_successor (x_rfc3339 x) cur op = Inr ()"
  shows "operations_ok x (s\<lparr>st_membership_operations := bt_insert (mo_operation_id op) op (st_membership_operations s)\<rparr>)"
    (is "operations_ok x ?s'")
proof -
  have eps: "snapshot_kept ?s' o' = snapshot_kept s o'" for o' by (rule snapshot_cong_state) simp
  have same: "mo_kind op = mo_kind cur" "remove_node_target op = remove_node_target cur"
    "mo_expected_endpoint_ids op = mo_expected_endpoint_ids cur" "mo_expected_endpoint_tags op = mo_expected_endpoint_tags cur"
    "mo_delete_endpoints op = mo_delete_endpoints cur"
    using succ by (auto simp: op_validate_successor_def remove_node_target_def split: if_splits)
  have rec: "terminal_recorded (x_rfc3339 x) op" by (rule op_successor_recorded [OF succ])
  have ended: "is_active op \<longleftrightarrow> mo_terminal_at op = None"
    using succ by (auto simp: op_validate_successor_def is_active_def split: if_splits)
  have active: "is_active op \<Longrightarrow> is_active cur" using op_successor_active [OF succ] by simp
  have snap: "snapshot_kept s cur \<Longrightarrow> snapshot_kept s op" unfolding snapshot_kept_def same .
  show ?thesis
    unfolding operations_ok_def eps
    using ok [unfolded operations_ok_def] cur rec ended active snap by (auto split: if_splits)
qed

lemma operations_sub:
  assumes ok: "operations_ok x s" and eps: "st_endpoints s' = st_endpoints s"
    and sub: "\<And>k op. bt_get (st_membership_operations s') k = Some op \<Longrightarrow> bt_get (st_membership_operations s) k = Some op"
  shows "operations_ok x s'"
  unfolding operations_ok_def snapshot_cong_state [OF eps]
proof (intro conjI allI impI)
  fix k k' op op'
  assume "bt_get (st_membership_operations s') k = Some op" "bt_get (st_membership_operations s') k' = Some op'"
    and act: "is_active op" "is_active op'"
  note got = this(1,2) [THEN sub]
  from ok [unfolded operations_ok_def, THEN conjunct1, rule_format, OF got act] show "k = k'" .
next
  fix k op assume "bt_get (st_membership_operations s') k = Some op"
  note facts = ok [unfolded operations_ok_def, THEN conjunct2, rule_format, OF this [THEN sub]]
  from facts show "is_active op \<longleftrightarrow> mo_terminal_at op = None" by (elim conjE)
  from facts show "terminal_recorded (x_rfc3339 x) op" by (elim conjE)
  from facts show "snapshot_kept s op" if "is_active op" using that by blast
qed

lemma step_operations:
  assumes "step x s s'" "keys_ok s" "operations_ok x s"
  shows "operations_ok x s'"
  using assms
proof (induction rule: step.induct)
  case (join s j n)
  then show ?case by (rule_tac operations_endpoints) simp_all
next
  case (session s j)
  then show ?case by (rule_tac operations_endpoints) simp_all
next
  case (leave s j n)
  show ?case using leave(4) by (rule operations_frame) (simp_all add: snapshot_leave [OF leave(3)])
next
  case (op_begin op s)
  then show ?case by (rule_tac operations_begin)
next
  case (op_move s op cur)
  then show ?case by (rule_tac operations_move)
next
  case (op_prune s t)
  from op_prune show ?case
    by (rule_tac operations_sub) (auto simp: bt_get_retain split: option.splits if_splits)
next
  case (put_endpoint s e)
  show ?case using put_endpoint(5)
    by (rule operations_frame) (simp, rule snapshot_put [OF put_endpoint(5,4,1)], simp_all)
next
  case (drop_endpoint s k)
  show ?case using drop_endpoint(3)
    by (rule operations_frame) (simp, rule snapshot_drop [OF drop_endpoint(3,1)], simp_all)
next
  case (domains ds s r s')
  from domains(1) show ?case
  proof (rule domains_sel)
    fix eps assume "s' = s\<lparr>st_reality_domains := ds, st_endpoints := eps\<rparr>" "same_identity (st_endpoints s) eps"
    note s' = this
    show ?thesis using domains(4)
      by (rule operations_frame) (simp_all add: s'(1) snapshot_same [where s = s] s'(2))
  qed
next
  case (drop_user s k)
  then show ?case unfolding delete_user_sel by (rule_tac operations_endpoints) simp_all
next
  case (probes s h n ps)
  show ?case by (rule probes_sel [of h n ps s]) (use probes(2) in \<open>rule operations_endpoints, simp_all\<close>)
next
  case (replace_access k ids s r s')
  with replace_user_access_Inr [OF this(1)] show ?case by (auto intro: operations_endpoints)
next
  case (ensure_access k e s r s')
  with ensure_membership_Inr [OF this(1)] show ?case by (auto intro: operations_endpoints)
next
  case (mesh_assign a ex s r s')
  show ?case using mesh_assign(3) by (rule operations_endpoints) (simp_all add: upsert_assignment_Inr(8) [OF mesh_assign(1)])
qed (rule operations_endpoints, assumption, simp, simp)+

section \<open>Domains\<close>

lemma domains_frame:
  assumes "domains_ok s" "st_reality_domains s' = st_reality_domains s"
    "\<And>n. bt_contains_key (st_nodes s) n \<Longrightarrow> bt_contains_key (st_nodes s') n"
  shows "domains_ok s'"
  using assms unfolding domains_ok_def by simp

lemma domains_leave:
  assumes "domains_ok s"
  shows "domains_ok (sync_memberships (without_node n j s))"
  using assms by (simp add: domains_ok_def comp_def)

lemma step_domains: "step x s s' \<Longrightarrow> domains_ok s \<Longrightarrow> domains_ok s'"
proof (induction rule: step.induct)
  case (leave s j n)
  then show ?case by (intro domains_leave)
next
  case (drop_user s k)
  then show ?case unfolding delete_user_sel by (rule_tac domains_frame) simp_all
next
  case (probes s h n ps)
  show ?case by (rule probes_sel [of h n ps s]) (use probes in \<open>rule domains_frame, simp_all\<close>)
next
  case (replace_access k ids s r s')
  with replace_user_access_Inr [OF this(1)] show ?case by (auto intro: domains_frame)
next
  case (ensure_access k e s r s')
  with ensure_membership_Inr [OF this(1)] show ?case by (auto intro: domains_frame)
next
  case (mesh_assign a ex s r s')
  show ?case using mesh_assign(2) by (rule domains_frame) (simp_all add: upsert_assignment_Inr(8) [OF mesh_assign(1)])
qed (simp | rule domains_frame, assumption, simp, simp)+

end
