(* ===== verification/Xp_Probe_History.thy ===== *)
theory Xp_Probe_History
  imports Xp_Invariants
begin

text \<open>
  The bounded probe history of an endpoint. The pruning loop of \<^verbatim>\<open>state.rs\<close> takes the oldest
  hour away until at most 24 are left; here it is compared with a reference that keeps the hours with fewer
  than 24 later ones, and the command that appends samples is described by that reference.
\<close>

section \<open>The latest entries of an ordered map\<close>

definition later :: "('k::linorder, 'v) btree_map \<Rightarrow> 'k \<Rightarrow> nat" where
  "later m k = length (filter (\<lambda>k'. k < k') (bt_keys m))"

definition latest :: "nat \<Rightarrow> ('k::linorder, 'v) btree_map \<Rightarrow> ('k, 'v) btree_map" where
  "latest n m = bt_retain (\<lambda>k _. later m k < n) m"

lemma filter_later:
  assumes "sorted_wrt (<) (map fst xs)"
  shows "filter (\<lambda>(k, v). length (filter (\<lambda>k'. k < k') (map fst xs)) < n) xs = drop (length xs - n) (xs :: ('k::linorder \<times> 'v) list)"
  using assms
proof (induction xs)
  case Nil
  show ?case by simp
next
  case (Cons kv xs)
  obtain k v where kv: "kv = (k, v)" by (cases kv)
  from Cons.prems have above: "\<forall>k' \<in> set (map fst xs). k < k'" by (simp add: kv)
  then have first: "filter (\<lambda>k'. k < k') (map fst (kv # xs)) = map fst xs" by (simp add: kv filter_id_conv)
  have rest: "filter (\<lambda>k'. j < k') (map fst (kv # xs)) = filter (\<lambda>k'. j < k') (map fst xs)"
    if "j \<in> set (map fst xs)" for j using above that by (auto simp: kv)
  have "filter (\<lambda>(j, w). length (filter (\<lambda>k'. j < k') (map fst (kv # xs))) < n) xs =
      filter (\<lambda>(j, w). length (filter (\<lambda>k'. j < k') (map fst xs)) < n) xs"
    by (rule filter_cong) (use rest in force)+
  moreover have "length (filter (\<lambda>k'. k < k') (map fst (kv # xs))) = length xs" unfolding first by simp
  ultimately have "filter (\<lambda>(j, w). length (filter (\<lambda>k'. j < k') (map fst (kv # xs))) < n) (kv # xs) =
      (if length xs < n then kv # drop (length xs - n) xs else drop (length xs - n) xs)"
    using Cons.IH Cons.prems by (simp add: kv)
  also have "\<dots> = drop (length (kv # xs) - n) (kv # xs)" by (auto simp: Suc_diff_le)
  finally show ?case .
qed

lemma latest_entries: "bt_entries (latest n m) = drop (bt_len m - n) (bt_entries m)"
  using filter_later [OF bt_entries_sorted [of m], of n]
  by (simp add: latest_def bt_retain.rep_eq later_def bt_keys_def bt_len_def)

lemma bt_len_latest: "bt_len (latest n m) = min n (bt_len m)"
  unfolding bt_len_def latest_entries by (simp add: bt_len_def)

lemma later_card: "later m k = card {k'. bt_contains_key m k' \<and> k < k'}"
proof -
  have "later m k = card (set (filter (\<lambda>k'. k < k') (bt_keys m)))"
    unfolding later_def by (rule distinct_card [symmetric]) (simp add: bt_keys_distinct)
  also have "set (filter (\<lambda>k'. k < k') (bt_keys m)) = {k'. bt_contains_key m k' \<and> k < k'}" by auto
  finally show ?thesis .
qed

lemma bt_len_card: "bt_len m = card {k. bt_contains_key m k}"
proof -
  have "bt_len m = length (bt_keys m)" by (simp add: bt_len_def bt_keys_def)
  also have "\<dots> = card (set (bt_keys m))" by (simp add: bt_keys_distinct distinct_card)
  also have "set (bt_keys m) = {k. bt_contains_key m k}" by auto
  finally show ?thesis .
qed

lemma finite_keys: "finite {k'. bt_contains_key m k' \<and> P k'}"
  by (rule finite_subset [of _ "set (bt_keys m)"]) auto

lemma later_cong: "(\<And>k. bt_contains_key m k = bt_contains_key m' k) \<Longrightarrow> later m k = later m' k"
  by (simp add: later_card)

lemma get_latest: "bt_get (latest n m) k = (if later m k < n then bt_get m k else None)"
  by (simp add: latest_def bt_get_retain split: option.split)

lemma contains_latest: "bt_contains_key (latest n m) k \<longleftrightarrow> bt_contains_key m k \<and> later m k < n"
  by (simp add: bt_contains_key_def get_latest)

lemma later_mono: "k \<le> k' \<Longrightarrow> later m k' \<le> later m k"
  unfolding later_card by (rule card_mono) (auto simp: finite_keys)

lemma later_above: "\<lbrakk>later m k < n; k < k'\<rbrakk> \<Longrightarrow> later m k' < n"
  by (meson later_mono le_less_trans less_imp_le)

lemma later_latest:
  assumes "later m k < n"
  shows "later (latest n m) k = later m k"
proof -
  have "{k'. bt_contains_key (latest n m) k' \<and> k < k'} = {k'. bt_contains_key m k' \<and> k < k'}"
    using later_above [OF assms] by (auto simp: contains_latest)
  then show ?thesis by (simp add: later_card)
qed

lemma later_reinsert:
  assumes "bt_contains_key m h" "later m k < n"
  shows "later (bt_insert h v (latest n m)) k = later m k"
proof -
  have "{k'. bt_contains_key (bt_insert h v (latest n m)) k' \<and> k < k'} = {k'. bt_contains_key m k' \<and> k < k'}"
    using assms(1) later_above [OF assms(2)] by (auto simp: contains_latest)
  then show ?thesis by (simp add: later_card)
qed

lemma later_reinsert_old:
  assumes "bt_contains_key m h" "\<not> later m h < n"
  shows "\<not> later (bt_insert h v (latest n m)) h < n"
proof -
  have up: "h < k" if "bt_contains_key (latest n m) k" for k
    using that assms(2) later_mono [of k h m] by (force simp: contains_latest)
  have "{k. bt_contains_key (bt_insert h v (latest n m)) k \<and> h < k} = {k. bt_contains_key (latest n m) k}"
    using up by auto
  then have "later (bt_insert h v (latest n m)) h = bt_len (latest n m)" by (simp add: later_card bt_len_card)
  moreover have "later m h \<le> bt_len m"
    unfolding later_card bt_len_card by (rule card_mono) (use finite_keys [of m "\<lambda>_. True"] in auto)
  ultimately show ?thesis using assms(2) by (simp add: bt_len_latest)
qed

text \<open>Inserting once more at an hour that was inserted before: what was pruned in between does not matter.\<close>

lemma latest_reinsert:
  "latest n (bt_insert h v (latest n (bt_insert h w m))) = latest n (bt_insert h v m)"
proof (rule bt_eqI)
  fix k
  let ?m = "bt_insert h w m" and ?m' = "bt_insert h v (latest n (bt_insert h w m))"
  have same: "later (bt_insert h v m) j = later ?m j" for j by (rule later_cong) simp
  show "bt_get (latest n ?m') k = bt_get (latest n (bt_insert h v m)) k"
  proof (cases "later ?m k < n")
    case True
    then show ?thesis using later_reinsert [of ?m h k n v] by (simp add: get_latest same)
  next
    case False
    then have "bt_get (latest n ?m') k = None"
      using later_reinsert_old [of ?m h n v] by (cases "k = h") (simp_all add: get_latest)
    with False show ?thesis by (simp add: get_latest same)
  qed
qed

lemma latest_dropped:
  assumes "\<not> later (bt_insert h u m) h < n"
  shows "latest n (bt_insert h v m) = latest n (bt_insert h w m)"
proof (rule bt_eqI)
  fix k
  have same: "later (bt_insert h x m) j = later (bt_insert h u m) j" for x j by (rule later_cong) simp
  show "bt_get (latest n (bt_insert h v m)) k = bt_get (latest n (bt_insert h w m)) k"
    unfolding get_latest same [of v] same [of w] using assms by simp
qed

section \<open>The pruning loop\<close>

lemma bt_entries_remove_first:
  assumes "bt_keys m = k # ks"
  shows "bt_entries (bt_remove k m) = tl (bt_entries m)"
proof -
  from assms obtain v es where es: "bt_entries m = (k, v) # es" by (cases "bt_entries m") (auto simp: bt_keys_def)
  with bt_entries_sorted [of m] have "\<forall>(k', _) \<in> set es. k < k'" by auto
  then have "filter (\<lambda>(k', _). k' \<noteq> k) es = es" by (force simp: filter_id_conv)
  with es show ?thesis by (simp add: bt_remove_def bt_retain.rep_eq)
qed

lemma prune_entries:
  "bt_entries (prune_endpoint_probe_hour_map m) = drop (bt_len m - ENDPOINT_PROBE_HOUR_BUCKET_LIMIT) (bt_entries m)"
proof (induction m rule: prune_endpoint_probe_hour_map.induct)
  case (1 m)
  show ?case
  proof (cases "bt_len m > ENDPOINT_PROBE_HOUR_BUCKET_LIMIT")
    case long: True
    then obtain k ks where keys: "bt_keys m = k # ks" by (cases "bt_keys m") (auto simp: bt_len_def bt_keys_def)
    note rm = bt_entries_remove_first [OF keys]
    have "bt_entries (prune_endpoint_probe_hour_map m) =
        drop (bt_len (bt_remove k m) - ENDPOINT_PROBE_HOUR_BUCKET_LIMIT) (bt_entries (bt_remove k m))"
      using 1 [OF long keys] long keys by (simp add: prune_endpoint_probe_hour_map.simps [of m])
    also have "\<dots> = drop (Suc (bt_len m - 1 - ENDPOINT_PROBE_HOUR_BUCKET_LIMIT)) (bt_entries m)"
      by (simp add: rm bt_len_def drop_Suc)
    also have "Suc (bt_len m - 1 - ENDPOINT_PROBE_HOUR_BUCKET_LIMIT) = bt_len m - ENDPOINT_PROBE_HOUR_BUCKET_LIMIT"
      using long by simp
    finally show ?thesis .
  next
    case False
    then show ?thesis by (simp add: prune_endpoint_probe_hour_map.simps [of m])
  qed
qed

lemma prune_latest: "prune_endpoint_probe_hour_map m = latest ENDPOINT_PROBE_HOUR_BUCKET_LIMIT m"
  by (simp add: bt_entries_inject [symmetric] prune_entries latest_entries)

section \<open>Appending samples\<close>

text \<open>The sample of a batch that counts for an endpoint: its last one.\<close>

definition last_sample :: "string \<Rightarrow> probe_append_sample list \<Rightarrow> probe_append_sample option" where
  "last_sample e ps = find (\<lambda>p. pas_endpoint_id p = e) (rev ps)"

lemma last_sample_snoc:
  "last_sample e (ps @ [p]) = (if pas_endpoint_id p = e then Some p else last_sample e ps)"
  by (simp add: last_sample_def)

definition history_after :: "string \<Rightarrow> string \<Rightarrow> probe_append_sample option \<Rightarrow> probe_history option \<Rightarrow> probe_history option" where
  "history_after h n sample old =
     (case sample of
        None \<Rightarrow> old
      | Some p \<Rightarrow>
          (let hours = (case old of None \<Rightarrow> bt_empty | Some hours \<Rightarrow> hours)
           in Some (latest 24 (bt_insert h (bt_insert n (node_sample p) (bt_get_or bt_empty hours h)) hours))))"

lemma append_sample_history:
  "bt_get (st_endpoint_probe_history (append_sample h n p s)) e =
     (if pas_endpoint_id p = e \<and> bt_contains_key (st_endpoints s) e
      then history_after h n (Some p) (bt_get (st_endpoint_probe_history s) e)
      else bt_get (st_endpoint_probe_history s) e)"
  by (simp add: append_sample_def history_after_def Let_def prune_latest ENDPOINT_PROBE_HOUR_BUCKET_LIMIT_def bt_get_or_def)

lemma append_sample_endpoints: "st_endpoints (append_sample h n p s) = st_endpoints s"
  by (simp add: append_sample_def Let_def)

lemma append_sample_participants:
  "st_endpoint_probe_participants_by_hour (append_sample h n p s) = st_endpoint_probe_participants_by_hour s"
  by (simp add: append_sample_def Let_def)

lemma append_samples_maps:
  "st_endpoints (fold (append_sample h n) ps s) = st_endpoints s"
  "st_endpoint_probe_participants_by_hour (fold (append_sample h n) ps s) = st_endpoint_probe_participants_by_hour s"
  by (induction ps arbitrary: s) (simp_all add: append_sample_endpoints append_sample_participants)

lemma history_after_twice: "history_after h n (Some p) (history_after h n (Some q) old) = history_after h n (Some p) old"
proof -
  let ?hours = "case old of None \<Rightarrow> bt_empty | Some hours \<Rightarrow> hours"
  let ?bucket = "bt_get_or bt_empty ?hours h"
  let ?new = "bt_insert h (bt_insert n (node_sample q) ?bucket) ?hours"
  show ?thesis
  proof (cases "later ?new h < 24")
    case True
    then have "bt_get_or bt_empty (latest 24 ?new) h = bt_insert n (node_sample q) ?bucket"
      by (simp add: bt_get_or_def get_latest)
    then show ?thesis by (simp add: history_after_def Let_def latest_reinsert bt.put_put_same)
  next
    case False
    then show ?thesis
      using latest_dropped [OF False] by (simp add: history_after_def Let_def latest_reinsert)
  qed
qed

lemma append_samples_history:
  "bt_get (st_endpoint_probe_history (fold (append_sample h n) ps s)) e =
     (if bt_contains_key (st_endpoints s) e
      then history_after h n (last_sample e ps) (bt_get (st_endpoint_probe_history s) e)
      else bt_get (st_endpoint_probe_history s) e)"
proof (induction ps rule: rev_induct)
  case Nil
  show ?case by (simp add: last_sample_def history_after_def)
next
  case (snoc p ps)
  have none: "history_after h n None old = old" for old by (simp add: history_after_def)
  show ?case
    by (cases "last_sample e ps")
      (simp_all add: append_sample_history append_samples_maps snoc last_sample_snoc history_after_twice none)
qed

text \<open>
  C8: A batch of probe samples counts by the last sample of each endpoint: the history of an endpoint that
  exists gets that sample at the hour and the probing node, keeps every other entry, and then keeps only the
  hours with fewer than 24 later ones; an endpoint without a sample and the entry of an endpoint that does
  not exist stay as they were. The participants of the hour get the probing node and are cut the same way.
  The loop that removes the oldest hour until 24 are left ends on every map and keeps these hours.
\<close>

theorem append_probe_samples_exact:
  "(let (r, s') = apply_append_endpoint_probe_samples h n ps s
    in r = Inr Applied \<and>
       (\<forall>e. bt_get (st_endpoint_probe_history s') e =
          (if bt_contains_key (st_endpoints s) e
           then history_after h n (last_sample e ps) (bt_get (st_endpoint_probe_history s) e)
           else bt_get (st_endpoint_probe_history s) e)) \<and>
       st_endpoint_probe_participants_by_hour s' =
         latest 24 (bt_entry h bt_empty (bs_insert n) (st_endpoint_probe_participants_by_hour s))) \<and>
   prune_endpoint_probe_hour_map m = latest 24 m \<and> bt_len (prune_endpoint_probe_hour_map m) = min 24 (bt_len m)"
  by (simp add: apply_append_endpoint_probe_samples_def Let_def append_samples_maps append_samples_history prune_latest
      ENDPOINT_PROBE_HOUR_BUCKET_LIMIT_def bt_len_latest)

end
