(* ===== verification/Xp_Machine.thy ===== *)
theory Xp_Machine
  imports Xp_Probe_History
begin

text \<open>
  The store as a replicated state machine: the invariants of \<^verbatim>\<open>Xp_Invariants\<close> together with the
  bounds of the probe history, the generation counters of the reverse mesh and the repository membership,
  what no command ever takes back, and the properties that follow along a whole log.
\<close>

section \<open>Probe history bounds\<close>

definition hours_ok :: "probe_history \<Rightarrow> bool" where
  "hours_ok hours =
     (\<not> bt_is_empty hours \<and> bt_len hours \<le> 24 \<and> (\<forall>h b. bt_get hours h = Some b \<longrightarrow> \<not> bt_is_empty b))"

definition probes_ok :: "state \<Rightarrow> bool" where
  "probes_ok s =
     ((\<forall>e hours. bt_get (st_endpoint_probe_history s) e = Some hours \<longrightarrow> hours_ok hours) \<and>
      bt_len (st_endpoint_probe_participants_by_hour s) \<le> 24)"

lemma bt_len_map_values: "bt_len (bt_map_values f m) = bt_len m"
  by (simp add: bt_len_def bt_map_values.rep_eq)

lemma hours_ok_after:
  assumes "case old of None \<Rightarrow> True | Some hours \<Rightarrow> hours_ok hours" "history_after h n sample old = Some hours"
  shows "hours_ok hours"
proof (cases sample)
  case None
  with assms show ?thesis by (simp add: history_after_def)
next
  case (Some p)
  let ?old = "case old of None \<Rightarrow> bt_empty | Some hours \<Rightarrow> hours"
  let ?new = "bt_insert h (bt_insert n (node_sample p) (bt_get_or bt_empty ?old h)) ?old"
  from Some assms(2) have hours: "hours = latest 24 ?new" by (simp add: history_after_def Let_def)
  have "bt_contains_key ?new h" by simp
  then have "\<not> bt_is_empty ?new" by (auto simp: bt_is_empty_iff bt_contains_key_def)
  then have "bt_len ?new \<noteq> 0" by (simp add: bt_len_0_iff)
  then have "bt_len hours \<noteq> 0" "bt_len hours \<le> 24" by (simp_all add: hours bt_len_latest)
  moreover have "\<not> bt_is_empty b" if "bt_get hours k = Some b" for k b
  proof (cases "k = h")
    case True
    with that have "b = bt_insert n (node_sample p) (bt_get_or bt_empty ?old h)"
      by (simp add: hours get_latest split: if_splits)
    then show ?thesis by (auto simp: bt_is_empty_iff)
  next
    case False
    with that have "bt_get ?old k = Some b" by (simp add: hours get_latest split: if_splits)
    with assms(1) show ?thesis by (auto simp: hours_ok_def split: option.splits)
  qed
  ultimately show ?thesis by (simp add: hours_ok_def bt_len_0_iff)
qed

lemma hours_ok_forget:
  assumes "bt_get (forget_in_history n m) e = Some hours" "\<And>hours. bt_get m e = Some hours \<Longrightarrow> hours_ok hours"
  shows "hours_ok hours"
proof -
  from assms(1) obtain old where old: "bt_get m e = Some old" "hours = forget_inner n old" "\<not> bt_is_empty hours"
    by (auto simp: forget_in_history_def bt_get_retain bt_get_map_values split: option.splits if_splits)
  have "bt_len hours \<le> bt_len old"
    unfolding old(2) forget_inner_def by (rule order_trans [OF bt_len_retain_le]) (simp add: bt_len_map_values)
  moreover from assms(2) [OF old(1)] have "bt_len old \<le> 24" by (simp add: hours_ok_def)
  moreover have "\<not> bt_is_empty b" if "bt_get hours k = Some b" for k b
    using that by (auto simp: old(2) forget_inner_def bt_get_retain split: option.splits if_splits)
  ultimately show ?thesis using old(3) by (simp add: hours_ok_def)
qed

lemma probes_frame:
  assumes "probes_ok s" "st_endpoint_probe_history s' = st_endpoint_probe_history s"
    "st_endpoint_probe_participants_by_hour s' = st_endpoint_probe_participants_by_hour s"
  shows "probes_ok s'"
  using assms by (simp add: probes_ok_def)

lemma append_state:
  "bt_get (st_endpoint_probe_history (snd (apply_append_endpoint_probe_samples h n ps s))) e =
     (if bt_contains_key (st_endpoints s) e
      then history_after h n (last_sample e ps) (bt_get (st_endpoint_probe_history s) e)
      else bt_get (st_endpoint_probe_history s) e)"
  "bt_len (st_endpoint_probe_participants_by_hour (snd (apply_append_endpoint_probe_samples h n ps s))) \<le> 24"
  by (simp_all add: apply_append_endpoint_probe_samples_def Let_def append_samples_history append_samples_maps prune_latest
      ENDPOINT_PROBE_HOUR_BUCKET_LIMIT_def bt_len_latest)

lemma probes_append:
  assumes "probes_ok s"
  shows "probes_ok (snd (apply_append_endpoint_probe_samples h n ps s))"
proof -
  have "hours_ok hours"
    if "bt_get (st_endpoint_probe_history (snd (apply_append_endpoint_probe_samples h n ps s))) e = Some hours" for e hours
  proof (cases "bt_contains_key (st_endpoints s) e")
    case True
    with that have after: "history_after h n (last_sample e ps) (bt_get (st_endpoint_probe_history s) e) = Some hours"
      by (simp add: append_state)
    have "case bt_get (st_endpoint_probe_history s) e of None \<Rightarrow> True | Some hours \<Rightarrow> hours_ok hours"
      using assms by (simp add: probes_ok_def split: option.split)
    then show ?thesis by (rule hours_ok_after [OF _ after])
  next
    case False
    with that assms show ?thesis by (simp add: append_state probes_ok_def)
  qed
  then show ?thesis by (simp add: probes_ok_def append_state)
qed

lemma probes_leave:
  assumes "probes_ok s"
  shows "probes_ok (sync_memberships (without_node n j s))"
proof -
  have "hours_ok hours" if "bt_get (st_endpoint_probe_history (without_node n j s)) e = Some hours" for e hours
    by (rule hours_ok_forget [OF that [unfolded without_sel]])
      (use assms in \<open>auto simp: probes_ok_def bt_get_retain split: option.splits if_splits\<close>)
  moreover have "bt_len (st_endpoint_probe_participants_by_hour (without_node n j s)) \<le> 24"
    unfolding without_sel
    by (rule order_trans [OF bt_len_retain_le]) (use assms in \<open>simp add: probes_ok_def bt_len_map_values\<close>)
  ultimately show ?thesis by (simp add: probes_ok_def del: without_sel)
qed

lemma step_probes: "step x s s' \<Longrightarrow> probes_ok s \<Longrightarrow> probes_ok s'"
proof (induction rule: step.induct)
  case (leave s j n)
  then show ?case by (intro probes_leave)
next
  case (drop_endpoint s k)
  then show ?case by (auto simp: probes_ok_def split: if_splits)
next
  case (domains ds s r s')
  from domains(1) show ?case by (rule domains_sel) (use domains(3) in \<open>simp add: probes_ok_def\<close>)
next
  case (drop_user s k)
  then show ?case unfolding delete_user_sel by (rule_tac probes_frame) simp_all
next
  case (probes s h n ps)
  then show ?case by (intro probes_append)
next
  case (replace_access k ids s r s')
  with replace_user_access_Inr [OF this(1)] show ?case by (auto intro: probes_frame)
next
  case (ensure_access k e s r s')
  with ensure_membership_Inr [OF this(1)] show ?case by (auto intro: probes_frame)
next
  case (mesh_assign a ex s r s')
  show ?case using mesh_assign(2) by (rule probes_frame) (simp_all add: upsert_assignment_Inr(8) [OF mesh_assign(1)])
qed (rule probes_frame, assumption, simp, simp)+

section \<open>Reverse-mesh generations\<close>

text \<open>
  The generation of a stored assignment is the durable counter of its target, and its credential epoch is
  not ahead of the epoch of the mesh.
\<close>

definition mesh_ok :: "state \<Rightarrow> bool" where
  "mesh_ok s =
     (\<forall>t a. bt_get (st_reverse_mesh_assignments s) t = Some a \<longrightarrow>
        bt_get (st_reverse_mesh_generation_counters s) t = Some (ra_generation a) \<and>
        ra_credential_epoch a \<le> st_reverse_mesh_epoch s)"

lemma mesh_frame:
  assumes "mesh_ok s" "st_reverse_mesh_generation_counters s' = st_reverse_mesh_generation_counters s"
    "st_reverse_mesh_epoch s \<le> st_reverse_mesh_epoch s'"
    "\<And>t a. bt_get (st_reverse_mesh_assignments s') t = Some a \<Longrightarrow> bt_get (st_reverse_mesh_assignments s) t = Some a"
  shows "mesh_ok s'"
  using assms(1,3,4) unfolding mesh_ok_def assms(2) by (meson order_trans)

lemma step_mesh: "step x s s' \<Longrightarrow> mesh_ok s \<Longrightarrow> mesh_ok s'"
proof (induction rule: step.induct)
  case (leave s j n)
  from leave(3) show ?case by (rule mesh_frame) (auto simp: bt_get_retain split: option.splits if_splits)
next
  case (domains ds s r s')
  from domains(1) show ?case by (rule domains_sel) (use domains(3) in \<open>simp add: mesh_ok_def\<close>)
next
  case (drop_user s k)
  then show ?case unfolding delete_user_sel by (rule_tac mesh_frame) simp_all
next
  case (probes s h n ps)
  show ?case by (rule probes_sel [of h n ps s]) (use probes in \<open>rule mesh_frame, simp_all\<close>)
next
  case (replace_access k ids s r s')
  with replace_user_access_Inr [OF this(1)] show ?case by (auto intro: mesh_frame)
next
  case (ensure_access k e s r s')
  with ensure_membership_Inr [OF this(1)] show ?case by (auto intro: mesh_frame)
next
  case (mesh_assign a ex s r s')
  with upsert_assignment_Inr(2,8) [OF this(1)] show ?case by (simp add: mesh_ok_def)
next
  case (mesh_drop s t)
  from mesh_drop show ?case by (rule mesh_frame) (auto split: if_splits)
qed (rule mesh_frame, assumption, simp, simp, simp)+

section \<open>The repository membership\<close>

definition repository_ok :: "state \<Rightarrow> bool" where
  "repository_ok s = (case st_repository_membership s of None \<Rightarrow> True | Some m \<Rightarrow> membership_ok m)"

lemma repository_frame:
  "\<lbrakk>repository_ok s; st_repository_membership s' = st_repository_membership s\<rbrakk> \<Longrightarrow> repository_ok s'"
  by (simp add: repository_ok_def)

lemma runtime_update_ok:
  "(case m of None \<Rightarrow> True | Some ms \<Rightarrow> membership_ok ms) \<Longrightarrow>
    (case snd (apply_member_runtime_update p m) of None \<Rightarrow> True | Some ms \<Rightarrow> membership_ok ms)"
  using member_runtime_update_ok [of "the m" p]
  by (auto simp: apply_member_runtime_update_def split: option.splits sum.splits prod.splits)

lemma step_repository: "step x s s' \<Longrightarrow> repository_ok s \<Longrightarrow> repository_ok s'"
proof (induction rule: step.induct)
  case (domains ds s r s')
  from domains(1) show ?case by (rule domains_sel) (use domains(3) in \<open>simp add: repository_ok_def\<close>)
next
  case (drop_user s k)
  then show ?case unfolding delete_user_sel by (rule_tac repository_frame) simp_all
next
  case (probes s h n ps)
  show ?case by (rule probes_sel [of h n ps s]) (use probes in \<open>rule repository_frame, simp_all\<close>)
next
  case (replace_access k ids s r s')
  with replace_user_access_Inr [OF this(1)] show ?case by (auto intro: repository_frame)
next
  case (ensure_access k e s r s')
  with ensure_membership_Inr [OF this(1)] show ?case by (auto intro: repository_frame)
next
  case (members m s)
  then show ?case by (simp add: repository_ok_def)
next
  case (member_runtime s p)
  then show ?case using runtime_update_ok [of "st_repository_membership s" p] by (simp add: repository_ok_def)
next
  case (mesh_assign a ex s r s')
  show ?case using mesh_assign(2) by (rule repository_frame) (simp add: upsert_assignment_Inr(8) [OF mesh_assign(1)])
qed (rule repository_frame, assumption, simp)+

section \<open>Validated values\<close>

text \<open>Every stored node, endpoint and user passed the validation of its command.\<close>

definition values_ok :: "state \<Rightarrow> bool" where
  "values_ok s =
     ((\<forall>k n. bt_get (st_nodes s) k = Some n \<longrightarrow>
         is_ok (validate_node_quota_reset (n_quota_reset n)) \<and> is_ok (validate_node_quota_config n)) \<and>
      (\<forall>k e. bt_get (st_endpoints s) k = Some e \<longrightarrow> ep_port e \<noteq> 0) \<and>
      (\<forall>k u. bt_get (st_users s) k = Some u \<longrightarrow> is_ok (validate_user_quota_reset (u_quota_reset u))))"

lemma values_frame:
  assumes "values_ok s"
    "\<And>k n. bt_get (st_nodes s') k = Some n \<Longrightarrow> bt_get (st_nodes s) k = Some n"
    "\<And>k e. bt_get (st_endpoints s') k = Some e \<Longrightarrow> bt_get (st_endpoints s) k = Some e"
    "\<And>k u. bt_get (st_users s') k = Some u \<Longrightarrow> bt_get (st_users s) k = Some u"
  shows "values_ok s'"
  using assms unfolding values_ok_def by meson

lemma step_values: "step x s s' \<Longrightarrow> values_ok s \<Longrightarrow> values_ok s'"
proof (induction rule: step.induct)
  case (join s j n)
  then show ?case by (simp add: values_ok_def)
next
  case (leave s j n)
  from leave(3) show ?case by (rule values_frame) (auto simp: bt_get_retain split: option.splits if_splits)
next
  case (put_endpoint s e)
  then show ?case by (simp add: values_ok_def)
next
  case (drop_endpoint s k)
  from drop_endpoint(2) show ?case by (rule values_frame) (auto split: if_splits)
next
  case (domains ds s r s')
  from domains(1) show ?case
  proof (rule domains_sel)
    fix eps assume s': "s' = s\<lparr>st_reality_domains := ds, st_endpoints := eps\<rparr>" "same_identity (st_endpoints s) eps"
    have "ep_port e \<noteq> 0" if e: "bt_get eps k = Some e" for k e
    proof -
      from same_identityD(1) [OF s'(2) e] obtain e0 where "bt_get (st_endpoints s) k = Some e0" "ep_port e0 = ep_port e" by auto
      with domains(3) show ?thesis by (metis values_ok_def)
    qed
    with domains(3) show ?thesis by (simp add: values_ok_def s'(1))
  qed
next
  case (put_user u s)
  then show ?case by (simp add: values_ok_def)
next
  case (edit_user s k u u')
  then have "is_ok (validate_user_quota_reset (u_quota_reset u'))" by (simp add: values_ok_def)
  with edit_user(4) show ?case by (simp add: values_ok_def)
next
  case (drop_user s k)
  then show ?case unfolding delete_user_sel by (rule_tac values_frame) (auto split: if_splits)
next
  case (probes s h n ps)
  show ?case by (rule probes_sel [of h n ps s]) (use probes in \<open>rule values_frame, simp_all\<close>)
next
  case (replace_access k ids s r s')
  with replace_user_access_Inr [OF this(1)] show ?case by (auto intro: values_frame)
next
  case (ensure_access k e s r s')
  with ensure_membership_Inr [OF this(1)] show ?case by (auto intro: values_frame)
next
  case (mesh_assign a ex s r s')
  show ?case using mesh_assign(2) by (rule values_frame) (simp_all add: upsert_assignment_Inr(8) [OF mesh_assign(1)])
qed (rule values_frame, assumption, simp_all)+

section \<open>What no command takes back\<close>

definition durable_le :: "state \<Rightarrow> state \<Rightarrow> bool" where
  "durable_le s s' =
     ((\<forall>k j. bt_get (st_join_sessions s) k = Some j \<longrightarrow>
         (\<exists>j'. bt_get (st_join_sessions s') k = Some j' \<and> session_le j j')) \<and>
      st_reverse_mesh_epoch s \<le> st_reverse_mesh_epoch s' \<and>
      (\<forall>t. bt_get_or 0 (st_reverse_mesh_generation_counters s) t \<le> bt_get_or 0 (st_reverse_mesh_generation_counters s') t))"

lemma durable_refl [simp]: "durable_le s s"
  by (auto simp: durable_le_def)

lemma durable_trans: "durable_le s t \<Longrightarrow> durable_le t u \<Longrightarrow> durable_le s u"
  unfolding durable_le_def by (meson order_trans session_le_trans)

lemma durable_frame:
  assumes "st_join_sessions s' = st_join_sessions s" "st_reverse_mesh_epoch s \<le> st_reverse_mesh_epoch s'"
    "st_reverse_mesh_generation_counters s' = st_reverse_mesh_generation_counters s"
  shows "durable_le s s'"
  using assms by (auto simp: durable_le_def)

lemma durable_session:
  assumes "validate_session s j = Inr ()" "st_join_sessions s' = st_join_sessions (commit_session j s)"
    "st_reverse_mesh_epoch s' = st_reverse_mesh_epoch s"
    "st_reverse_mesh_generation_counters s' = st_reverse_mesh_generation_counters s"
  shows "durable_le s s'"
  using assms
  by (auto simp: durable_le_def validate_session_def commit_sessions map_err_Inr_iff intro: successor_le split: option.splits)

lemma step_durable: "step x s s' \<Longrightarrow> durable_le s s'"
proof (induction rule: step.induct)
  case (join s j n)
  then show ?case by (intro durable_session [of s j]) (simp_all add: commit_sessions split: option.split)
next
  case (session s j)
  then show ?case by (intro durable_session [of s j]) simp_all
next
  case (leave s j n)
  then show ?case by (intro durable_session [of s j]) simp_all
next
  case (domains ds s r s')
  from domains(1) show ?case by (rule domains_sel) (rule durable_frame, simp_all)
next
  case (drop_user s k)
  then show ?case unfolding delete_user_sel by (rule_tac durable_frame) simp_all
next
  case (probes s h n ps)
  show ?case by (rule probes_sel [of h n ps s]) (simp add: durable_frame)
next
  case (replace_access k ids s r s')
  with replace_user_access_Inr [OF this(1)] show ?case by (auto intro: durable_frame)
next
  case (ensure_access k e s r s')
  with ensure_membership_Inr [OF this(1)] show ?case by (auto intro: durable_frame)
next
  case (mesh_assign a ex s r s')
  note up = upsert_assignment_Inr(5,8) [OF this]
  have "bt_get_or 0 (st_reverse_mesh_generation_counters s) t \<le> bt_get_or 0 (st_reverse_mesh_generation_counters s') t" for t
    using up(1) by (simp add: up(2) bt_get_or_def split: option.splits)
  then show ?case by (auto simp: durable_le_def up(2))
qed (rule durable_frame, simp_all)+

section \<open>The store along a log\<close>

definition state_ok :: "ext \<Rightarrow> state \<Rightarrow> bool" where
  "state_ok x s =
     (keys_ok s \<and> values_ok s \<and> refs_ok s \<and> access_ok s \<and> domains_ok s \<and> operations_ok x s \<and>
      probes_ok s \<and> mesh_ok s \<and> repository_ok s \<and> (vless_serde x \<longrightarrow> endpoints_follow x s))"

lemma step_state_ok: "step x s s' \<Longrightarrow> state_ok x s \<Longrightarrow> state_ok x s'"
  unfolding state_ok_def
  by (elim conjE, intro conjI impI)
    (erule (1) step_keys step_values step_refs step_access step_domains step_operations step_probes step_mesh
      step_repository step_follow; simp?)+

lemma empty_state_ok: "state_ok x empty_state"
  by (simp add: state_ok_def empty_state_def keys_ok_def values_ok_def refs_ok_def assignments_ok_def keys_sub_def
      inner_ok_def access_ok_defs domains_ok_def operations_ok_def probes_ok_def mesh_ok_def repository_ok_def
      endpoints_follow_def bt_len_def bt_empty.rep_eq)

lemma apply_command_ok:
  assumes "well_formed c s" "state_ok x s"
  shows "state_ok x (snd (apply_command x c s)) \<and> durable_le s (snd (apply_command x c s))"
proof (cases "apply_command x c s")
  case (Pair r s')
  show ?thesis
  proof (cases r)
    case (Inl e)
    with Pair apply_command_atomic [of x c s e s'] assms show ?thesis by simp
  next
    case (Inr a)
    with Pair have "(step x)\<^sup>*\<^sup>* s s'" using apply_command_steps assms(1) by simp
    then have "state_ok x s' \<and> durable_le s s'"
      by (induction rule: rtranclp_induct) (auto intro: assms(2) step_state_ok durable_trans step_durable)
    with Pair show ?thesis by simp
  qed
qed

interpretation xp: monotone_machine "apply_command x" well_formed "state_ok x" durable_le for x
  by unfold_locales (auto simp: apply_command_ok intro: durable_trans)

section \<open>No command panics\<close>

definition is_panic :: "store_error \<Rightarrow> bool" where
  "is_panic e = (case e of Panic _ \<Rightarrow> True | _ \<Rightarrow> False)"

lemma is_panic_simps [simp]:
  "is_panic (Panic m)" "\<not> is_panic (Domain d)" "\<not> is_panic (SerdeJson j)" "\<not> is_panic (Migration m)"
  "\<not> is_panic (InvalidJoinSession m)" "\<not> is_panic (InvalidMembershipOperation m)"
  by (simp_all add: is_panic_def)

lemma map_err_panic: "map_err f r = Inl e \<Longrightarrow> (\<And>a. \<not> is_panic (f a)) \<Longrightarrow> \<not> is_panic e"
  by (cases r) auto

lemma check_each_panic: "check_each f xs = Inl e \<Longrightarrow> (\<And>a e. f a = Inl e \<Longrightarrow> \<not> is_panic e) \<Longrightarrow> \<not> is_panic e"
  by (induction xs) (auto split: sum.splits)

lemma serialize_panic:
  "\<lbrakk>vless_serde x; serialize_vless_meta_preserving_smux x m had = Inl e\<rbrakk> \<Longrightarrow> \<not> is_panic e"
  using serialize_Inl [of x m had e] by (auto simp: vless_serde_def)

lemma global_updates_panic:
  "\<lbrakk>vless_serde x; global_updates_loop x ds xs out = Inl e\<rbrakk> \<Longrightarrow> \<not> is_panic e"
proof (induction xs arbitrary: out)
  case (Cons kv xs)
  obtain k ep where kv: "kv = (k, ep)" by (cases kv)
  show ?case
  proof (cases "global_vless_meta_update x ds k ep")
    case (Inl e')
    with Cons.prems have "e' = e" by (simp add: kv)
    with global_update_Inl(2) [OF Inl] Cons.prems(1) show ?thesis by (auto dest: serialize_panic)
  next
    case (Inr u)
    with Cons.prems have "global_updates_loop x ds xs (case u of None \<Rightarrow> out | Some v \<Rightarrow> bt_insert k v out) = Inl e" by (simp add: kv)
    then show ?thesis by (rule Cons.IH [OF Cons.prems(1)])
  qed
qed simp

lemma replace_domains_panic: "\<lbrakk>vless_serde x; replace_domains x ds s = (Inl e, s')\<rbrakk> \<Longrightarrow> \<not> is_panic e"
  by (auto simp: replace_domains_def build_global_vless_meta_updates_def Let_def try_in_Inl_iff dest: global_updates_panic)

lemma and_then_Inl_iff: "and_then r f = Inl e \<longleftrightarrow> r = Inl e \<or> (\<exists>a. r = Inr a \<and> f a = Inl e)"
  by (cases r) auto

lemma map_err_Inl_iff: "map_err f r = Inl e \<longleftrightarrow> (\<exists>a. r = Inl a \<and> e = f a)"
  by (cases r) auto

lemma check_nodes_panic: "check_nodes_exist s ids = Inl e \<Longrightarrow> \<not> is_panic e"
  by (auto simp: check_nodes_exist_def dest!: check_each_Inl split: if_splits)

lemma check_names_panic: "check_server_names names = Inl e \<Longrightarrow> \<not> is_panic e"
  by (auto simp: check_server_names_def map_err_Inl_iff dest!: check_each_Inl)

lemma upsert_parts_panic:
  "upsert_server_names ds ep m = Inl e \<Longrightarrow> \<not> is_panic e"
  "upsert_dest m = Inl e \<Longrightarrow> \<not> is_panic e"
  "upsert_canary x m = Inl e \<Longrightarrow> \<not> is_panic e"
  "upsert_authorities m = Inl e \<Longrightarrow> \<not> is_panic e"
  by (cases "rc_server_names_source (vm_reality m)")
    (auto simp: upsert_server_names_def upsert_dest_def upsert_canary_def upsert_authorities_def Let_def and_then_Inl_iff
      map_err_Inl_iff dest: check_names_panic split: option.splits if_splits)

lemma upsert_meta_panic:
  assumes "vless_serde x" "upsert_vless_meta x ds ep = Inl e"
  shows "\<not> is_panic e"
  using assms(2) unfolding upsert_vless_meta_def Let_def and_then_Inl_iff map_err_Inl_iff
  by (elim disjE exE conjE) (simp_all add: upsert_parts_panic serialize_panic [OF assms(1)])

lemma mutation_panic: "ensure_endpoint_mutation_is_allowed s cur nxt = Inl e \<Longrightarrow> \<not> is_panic e"
  by (auto simp: ensure_endpoint_mutation_is_allowed_def expect_remove_node_target_def Let_def and_then_Inl_iff split: option.splits if_splits sum.splits)

lemma session_panic: "validate_session s j = Inl e \<Longrightarrow> \<not> is_panic e"
  by (auto simp: validate_session_def map_err_Inl_iff split: option.splits)

lemma snapshot_panic: "validate_remove_node_endpoint_snapshot s op = Inl e \<Longrightarrow> \<not> is_panic e"
  by (auto simp: validate_remove_node_endpoint_snapshot_def expect_remove_node_target_def Let_def and_then_Inl_iff map_err_Inl_iff split: option.splits if_splits)

lemma node_panic:
  "apply_upsert_node n j s = (Inl e, s') \<Longrightarrow> \<not> is_panic e"
  "apply_delete_node k d ids j s = (Inl e, s') \<Longrightarrow> \<not> is_panic e"
  by (auto simp: apply_upsert_node_def apply_delete_node_def Let_def try_in_Inl_iff map_err_Inl_iff
      dest: session_panic split: if_splits)

lemma operation_panic:
  "apply_begin_membership_operation op n j s = (Inl e, s') \<Longrightarrow> \<not> is_panic e"
  "apply_transition_membership_operation x op s = (Inl e, s') \<Longrightarrow> \<not> is_panic e"
  "apply_prune_membership_operations x t s = (Inl e, s') \<Longrightarrow> \<not> is_panic e"
  by (auto simp: apply_begin_membership_operation_def apply_transition_membership_operation_def
      apply_prune_membership_operations_def Let_def try_in_Inl_iff map_err_Inl_iff
      dest: snapshot_panic node_panic split: if_splits option.splits prod.splits sum.splits)

lemma domain_panic:
  assumes "vless_serde x"
  shows "apply_create_reality_domain x d s = (Inl e, s') \<Longrightarrow> \<not> is_panic e"
    "apply_patch_reality_domain x k nm dis s = (Inl e, s') \<Longrightarrow> \<not> is_panic e"
    "apply_delete_reality_domain x k s = (Inl e, s') \<Longrightarrow> \<not> is_panic e"
    "apply_reorder_reality_domains x ks s = (Inl e, s') \<Longrightarrow> \<not> is_panic e"
  by (auto simp: apply_create_reality_domain_def apply_patch_reality_domain_def apply_delete_reality_domain_def
      apply_reorder_reality_domains_def patch_name_def patch_disabled_def Let_def try_in_Inl_iff map_err_Inl_iff and_then_Inl_iff
      dest: replace_domains_panic [OF assms] check_nodes_panic split: if_splits option.splits)

lemma endpoint_panic:
  "vless_serde x \<Longrightarrow> apply_upsert_endpoint x ep ex s = (Inl e, s') \<Longrightarrow> \<not> is_panic e"
  "apply_delete_endpoint k s = (Inl e, s') \<Longrightarrow> \<not> is_panic e"
  by (auto simp: apply_upsert_endpoint_def apply_delete_endpoint_def Let_def try_in_Inl_iff map_err_Inl_iff
      dest: upsert_meta_panic mutation_panic split: if_splits)

lemma insert_access_total:
  "\<forall>id \<in> set ids. bt_contains_key (st_endpoints s) id \<Longrightarrow> insert_access s u ids ms \<noteq> None"
  by (induction ids arbitrary: ms) (auto simp: bt_contains_iff)

lemma access_panic:
  "apply_replace_user_access u ids s = (Inl e, s') \<Longrightarrow> \<not> is_panic e"
  "apply_ensure_membership u k s = (Inl e, s') \<Longrightarrow> \<not> is_panic e"
proof -
  assume run: "apply_replace_user_access u ids s = (Inl e, s')"
  show "\<not> is_panic e"
  proof (cases "check_endpoints_exist s (bs_list (bs_of_list ids))")
    case (Inl err)
    then have "\<not> is_panic err" by (auto simp: check_endpoints_exist_def dest!: check_each_Inl split: if_splits)
    with run Inl show ?thesis by (auto simp: apply_replace_user_access_def Let_def split: if_splits)
  next
    case (Inr v)
    then have "\<forall>k \<in> set (bs_list (bs_of_list ids)). bt_contains_key (st_endpoints s) k"
      unfolding check_endpoints_exist_def by (auto simp: check_each_ok_iff split: if_splits)
    from insert_access_total [OF this, of u "bs_retain (\<lambda>m. m_user_id m \<noteq> u) (st_node_user_endpoint_memberships s)"] run Inr
    show ?thesis
      by (auto simp: apply_replace_user_access_def Let_def split: if_splits option.splits)
  qed
next
  show "apply_ensure_membership u k s = (Inl e, s') \<Longrightarrow> \<not> is_panic e"
    by (auto simp: apply_ensure_membership_def split: if_splits option.splits)
qed

lemma apply_command_panic: "vless_serde x \<Longrightarrow> apply_command x c s = (Inl e, s') \<Longrightarrow> \<not> is_panic e"
  by (cases c)
    (auto dest: node_panic operation_panic domain_panic endpoint_panic access_panic simp: probe_atomic
      user_handler_defs mesh_handler_defs apply_replace_repository_membership_def apply_update_repository_member_runtime_def
      Let_def try_in_Inl_iff map_err_Inl_iff split: if_splits option.splits prod.splits)

section \<open>A deleted node\<close>

definition inner_mentions :: "string \<Rightarrow> ('k::linorder, (string, 'v) btree_map) btree_map \<Rightarrow> bool" where
  "inner_mentions n m = (\<exists>k inner. bt_get m k = Some inner \<and> bt_contains_key inner n)"

lemma inner_mentions_forget [simp]: "\<not> inner_mentions n (forget_inner n m)"
  by (auto simp: inner_mentions_def forget_inner_def bt_get_retain bt_get_map_values split: option.splits if_splits)

text \<open>Everything of the state that can name a node, apart from the repository membership and the join sessions.\<close>

definition mentions_node :: "string \<Rightarrow> state \<Rightarrow> bool" where
  "mentions_node n s =
     (bt_contains_key (st_nodes s) n \<or>
      (\<exists>k e. bt_get (st_endpoints s) k = Some e \<and> ep_node_id e = n) \<or>
      (\<exists>m \<in> bs_set (st_node_user_endpoint_memberships s). m_node_id m = n) \<or>
      (\<exists>d \<in> set (st_reality_domains s). n \<in> bs_set (rd_disabled_node_ids d)) \<or>
      inner_mentions n (st_user_node_quotas s) \<or> inner_mentions n (st_user_node_weights s) \<or>
      bt_contains_key (st_node_weight_policies s) n \<or>
      (\<exists>e hours. bt_get (st_endpoint_probe_history s) e = Some hours \<and> inner_mentions n hours) \<or>
      inner_mentions n (st_endpoint_probe_participants_by_hour s) \<or>
      bt_contains_key (st_node_egress_probes s) n \<or>
      (\<exists>t a. bt_get (st_reverse_mesh_assignments s) t = Some a \<and>
         (t = n \<or> ra_target_node_id a = n \<or> contains_rendezvous a n)))"

lemma forget_history_mentions:
  "bt_get (forget_in_history n m) e = Some hours \<Longrightarrow> \<not> inner_mentions n hours"
  by (auto simp: forget_in_history_def bt_get_retain bt_get_map_values split: option.splits if_splits)

lemma forget_participants_mentions:
  "\<not> inner_mentions n (bt_retain (\<lambda>_ ps. \<not> bt_is_empty ps) (bt_map_values (\<lambda>_. bs_remove n) m))"
  by (auto simp: inner_mentions_def bt_get_retain bt_get_map_values bs_remove_def split: option.splits if_splits)

lemma without_node_forgotten:
  assumes "keys_ok s"
  shows "\<not> mentions_node n (sync_memberships (without_node n j s))"
proof -
  let ?t = "without_node n j s" and ?s' = "sync_memberships (without_node n j s)"
  from assms have keyed: "keyed ep_endpoint_id (st_endpoints s)" by (simp add: keys_ok_def)
  have eps: "ep_node_id e \<noteq> n" if "bt_get (st_endpoints ?s') k = Some e" for k e
    using that without_node_endpoints(2) [OF keyed, of n j k e] by (simp del: without_sel)
  have "access_ok ?s'"
    by (rule sync_access_ok) (use keyed in \<open>simp add: endpoints_keyed_iff\<close>)
  then have sound: "index_sound ?s'" by (simp only: access_ok_def)
  have index: "m_node_id m \<noteq> n" if "m \<in> bs_set (st_node_user_endpoint_memberships ?s')" for m
    using index_soundD [OF sound that] eps by metis
  have mesh: "t \<noteq> n \<and> ra_target_node_id a \<noteq> n \<and> \<not> contains_rendezvous a n"
    if "bt_get (st_reverse_mesh_assignments ?s') t = Some a" for t a
    using that by (auto simp: bt_get_retain split: option.splits if_splits)
  have hours: "\<not> inner_mentions n hours" if "bt_get (st_endpoint_probe_history ?s') e = Some hours" for e hours
    using that by (simp add: forget_history_mentions)
  have inner: "\<not> inner_mentions n (st_user_node_quotas ?s')" "\<not> inner_mentions n (st_user_node_weights ?s')"
    "\<not> inner_mentions n (st_endpoint_probe_participants_by_hour ?s')"
    using forget_participants_mentions [of n "st_endpoint_probe_participants_by_hour s"] by simp_all
  have keys: "\<not> bt_contains_key (st_nodes ?s') n" "\<not> bt_contains_key (st_node_weight_policies ?s') n"
    "\<not> bt_contains_key (st_node_egress_probes ?s') n"
    "\<forall>d \<in> set (st_reality_domains ?s'). n \<notin> bs_set (rd_disabled_node_ids d)" by simp_all
  show ?thesis
    unfolding mentions_node_def using eps index mesh hours inner keys by blast
qed

section \<open>An active operation can be finished\<close>

text \<open>The next phase on the way to completion, and the number of phases that are left.\<close>

fun next_phase :: "membership_operation_phase \<Rightarrow> membership_operation_phase" where
  "next_phase Prepared = MembershipRemoved"
| "next_phase LearnerRegistered = VoterPromoted"
| "next_phase VoterPromoted = Completed"
| "next_phase MembershipRemoved = Completed"
| "next_phase p = p"

definition advanced :: "string \<Rightarrow> string \<Rightarrow> membership_operation \<Rightarrow> membership_operation" where
  "advanced now evidence op =
     op\<lparr>mo_phase := next_phase (mo_phase op),
        mo_terminal_at := (if next_phase (mo_phase op) = Completed then Some now else None),
        mo_evidence := Some evidence\<rparr>"

lemma advanced_successor:
  assumes "is_active op" "parse now \<noteq> None" "trim evidence \<noteq> []"
  shows "op_validate_successor parse op (advanced now evidence op) = Inr ()"
  using assms by (cases "mo_phase op") (simp_all add: is_active_def is_terminal_def op_validate_successor_def advanced_def)

lemma advance_command:
  assumes "bt_get (st_membership_operations s) (mo_operation_id op) = Some op" "is_active op"
    "x_rfc3339 x now \<noteq> None" "trim evidence \<noteq> []"
  shows "apply_command x (TransitionMembershipOperation (advanced now evidence op)) s =
    (Inr (MembershipOperationResult (advanced now evidence op)),
     s\<lparr>st_membership_operations :=
       bt_insert (mo_operation_id op) (advanced now evidence op) (st_membership_operations s)\<rparr>)"
proof -
  have [simp]: "mo_operation_id (advanced now evidence op) = mo_operation_id op" by (simp add: advanced_def)
  show ?thesis
    using assms(1) advanced_successor [where parse = "x_rfc3339 x", OF assms(2-4)] by (simp add: apply_transition_membership_operation_def)
qed

lemma completed_twice:
  assumes "is_active op"
  shows "mo_phase (advanced t e op) = Completed \<or>
    is_active (advanced t e op) \<and> mo_phase (advanced t e (advanced t e op)) = Completed"
  using assms by (cases "mo_phase op") (simp_all add: is_active_def is_terminal_def advanced_def)

section \<open>Sample states\<close>

definition sample_node :: "string \<Rightarrow> node" where
  "sample_node k = \<lparr>n_node_id = k, n_node_name = k, n_access_host = ''h'', n_api_base_url = ''https://h'',
     n_quota_limit_bytes = 0, n_quota_reset = NqrUnlimited None\<rparr>"

definition sample_operation :: membership_operation where
  "sample_operation = \<lparr>mo_operation_id = ''op1'', mo_kind = RemoveNode, mo_raft_node_id = 1, mo_node_id = Some ''n1'',
     mo_expected_membership = ''[1]'', mo_phase = Prepared, mo_legacy = False, mo_delete_endpoints = False,
     mo_expected_endpoint_ids = [], mo_expected_endpoint_tags = [], mo_created_at = ''t'', mo_next_retry_at = None,
     mo_terminal_at = None, mo_evidence = None\<rparr>"

definition sample_removal :: state where
  "sample_removal = empty_state\<lparr>st_membership_operations := bt_insert ''op1'' sample_operation bt_empty\<rparr>"

lemma sample_begin:
  "apply_command x (BeginMembershipOperation sample_operation None None) empty_state =
     (Inr (MembershipOperationResult sample_operation), sample_removal)"
proof -
  have trims: "trim ''op1'' \<noteq> []" "trim ''[1]'' \<noteq> []" "trim ''t'' \<noteq> []" "trim ''n1'' \<noteq> []" by code_simp+
  have "endpoints_on n empty_state = []" for n by (simp add: endpoints_on_def empty_state_def bt_values_def bt_empty.rep_eq)
  then have "validate_remove_node_endpoint_snapshot empty_state sample_operation = Inr ()"
    using trims by (simp add: validate_remove_node_endpoint_snapshot_def expect_remove_node_target_def remove_node_target_def
      sample_operation_def Let_def)
  moreover have "active_membership_operation empty_state = None"
    by (simp add: active_membership_operation_def empty_state_def bt_values_def bt_empty.rep_eq)
  ultimately show ?thesis
    using trims by (simp add: apply_begin_membership_operation_def sample_removal_def) (simp add: sample_operation_def empty_state_def)
qed

lemma sample_removal_ok: "state_ok x sample_removal"
  using apply_command_ok [of "BeginMembershipOperation sample_operation None None" empty_state x] empty_state_ok [of x]
  by (simp only: sample_begin) (simp add: well_formed_def sample_operation_def)

end
