(* ===== verification/Xp_Local_Store.thy ===== *)
theory Xp_Local_Store
  imports Xp_Tcp_Usage Xp_Machine Xp_Quota_Policy
begin

text \<open>
  The store of one replica, \<^verbatim>\<open>JsonSnapshotStore\<close> of \<^verbatim>\<open>state.rs\<close>: the replicated desired state
  and three local records (quota usage, inbound addresses, connection counts) in memory, and the snapshots of the
  four in the history storage. A write may fail; which writes do is a list of outcomes in the state, one per write,
  after which every write succeeds. As in the source a failed write leaves the memory changed.
\<close>

section \<open>Data\<close>

definition USAGE_SCHEMA_VERSION :: u32 where
  "USAGE_SCHEMA_VERSION = 2"

record user_node_pacing =
  up_bank_bytes :: u64
  up_last_total_used_bytes :: u64
  up_last_base_quota_bytes :: u64
  up_last_priority_tier :: user_priority_tier

record node_pacing =
  np_cycle_start_at :: string
  np_cycle_end_at :: string
  np_last_day_index :: int

record membership_usage =
  mu_cycle_start_at :: string
  mu_cycle_end_at :: string
  mu_used_bytes :: u64
  mu_last_uplink_total :: u64
  mu_last_downlink_total :: u64
  mu_last_seen_at :: string
  mu_quota_banned :: bool
  mu_quota_banned_at :: "string option"

record usage =
  us_schema_version :: u32
  us_memberships :: "(string, membership_usage) btree_map"
  us_user_node_pacing :: "(string, (string, user_node_pacing) btree_map) btree_map"
  us_node_pacing :: "(string, node_pacing) btree_map"
  us_user_credential_epochs_applied :: "(string, u32) btree_map"
  us_endpoint_users_applied :: "(string, string btree_set) btree_map"

definition empty_usage :: usage where
  "empty_usage = \<lparr>us_schema_version = USAGE_SCHEMA_VERSION, us_memberships = bt_empty, us_user_node_pacing = bt_empty,
     us_node_pacing = bt_empty, us_user_credential_epochs_applied = bt_empty, us_endpoint_users_applied = bt_empty\<rparr>"

record usage_snapshot =
  sn_cycle_start_at :: string
  sn_cycle_end_at :: string
  sn_used_bytes :: u64

text \<open>The snapshots in the history storage; \<open>None\<close> where there is none yet.\<close>

record snapshots =
  sd_state :: "state option"
  sd_usage :: "usage option"
  sd_inbound_ip_usage :: "ip_usage option"
  sd_tcp_connection_usage :: "tcp_usage option"

record local_store =
  ls_state :: state
  ls_usage :: usage
  ls_inbound_ip_usage :: ip_usage
  ls_tcp_connection_usage :: tcp_usage
  ls_disk :: snapshots
  ls_writes :: "bool list"

type_synonym 'a store_op = "(local_store, store_error, 'a) handler"

definition then_do :: "('s, 'e, 'a) handler \<Rightarrow> ('a \<Rightarrow> ('s, 'e, 'b) handler) \<Rightarrow> ('s, 'e, 'b) handler" where
  "then_do h f s = (case h s of (Inl e, s') \<Rightarrow> (Inl e, s') | (Inr a, s') \<Rightarrow> f a s')"

section \<open>Saving\<close>

definition write_history_snapshot :: "string \<Rightarrow> (snapshots \<Rightarrow> snapshots) \<Rightarrow> unit store_op" where
  "write_history_snapshot key put s =
     (case ls_writes s of
        False # rest \<Rightarrow> (Inl (Migration (''write '' @ key @ '' history storage'')), s\<lparr>ls_writes := rest\<rparr>)
      | True # rest \<Rightarrow> (Inr (), s\<lparr>ls_disk := put (ls_disk s), ls_writes := rest\<rparr>)
      | [] \<Rightarrow> (Inr (), s\<lparr>ls_disk := put (ls_disk s)\<rparr>))"

definition save :: "unit store_op" where
  "save s = write_history_snapshot ''persistent_state'' (sd_state_update (\<lambda>_. Some (ls_state s))) s"

definition save_usage :: "unit store_op" where
  "save_usage s = write_history_snapshot ''traffic_usage'' (sd_usage_update (\<lambda>_. Some (ls_usage s))) s"

definition save_inbound_ip_usage :: "unit store_op" where
  "save_inbound_ip_usage s =
     write_history_snapshot ''inbound_ip_usage'' (sd_inbound_ip_usage_update (\<lambda>_. Some (ls_inbound_ip_usage s))) s"

definition save_tcp_connection_usage :: "unit store_op" where
  "save_tcp_connection_usage s =
     write_history_snapshot ''tcp_connection_usage''
       (sd_tcp_connection_usage_update (\<lambda>_. Some (ls_tcp_connection_usage s))) s"

text \<open>\<^verbatim>\<open>state_mut\<close> counts every access as a new resource revision, rejected commands included.\<close>

definition state_mut :: "local_store \<Rightarrow> local_store" where
  "state_mut s = s\<lparr>ls_state := (ls_state s)\<lparr>st_mihomo_resource_revision := st_mihomo_resource_revision (ls_state s) + 1\<rparr>\<rparr>"

section \<open>Inbound addresses and connection counts\<close>

definition change_inbound_ip_usage :: "(ip_usage \<Rightarrow> bool \<times> ip_usage) \<Rightarrow> unit store_op" where
  "change_inbound_ip_usage f s =
     (let (changed, u) = f (ls_inbound_ip_usage s);
          s = s\<lparr>ls_inbound_ip_usage := u\<rparr>
      in if changed then save_inbound_ip_usage s else (Inr (), s))"

definition change_tcp_connection_usage :: "(tcp_usage \<Rightarrow> bool \<times> tcp_usage) \<Rightarrow> unit store_op" where
  "change_tcp_connection_usage f s =
     (let (changed, u) = f (ls_tcp_connection_usage s);
          s = s\<lparr>ls_tcp_connection_usage := u\<rparr>
      in if changed then save_tcp_connection_usage s else (Inr (), s))"

definition clear_membership_inbound_ip_usage :: "string \<Rightarrow> unit store_op" where
  "clear_membership_inbound_ip_usage k = change_inbound_ip_usage (clear_membership k)"

definition record_inbound_ip_usage_samples ::
  "clock \<Rightarrow> int \<Rightarrow> bool \<Rightarrow> ip_sample list \<Rightarrow> (string \<Rightarrow> ip_geo) \<Rightarrow> bool \<Rightarrow> unit store_op" where
  "record_inbound_ip_usage_samples clk minute online_stats_unavailable samples lookup allow_geo_reuse =
     change_inbound_ip_usage (record_minute_samples clk minute online_stats_unavailable samples lookup allow_geo_reuse)"

definition allowed_membership_keys :: "state \<Rightarrow> string btree_set" where
  "allowed_membership_keys s =
     bs_of_list (map (\<lambda>m. membership_key (m_user_id m) (m_endpoint_id m)) (bs_list (st_node_user_endpoint_memberships s)))"

definition prune_inbound_ip_usage_memberships :: "unit store_op" where
  "prune_inbound_ip_usage_memberships s =
     change_inbound_ip_usage (normalize_ip_usage (allowed_membership_keys (ls_state s))) s"

definition clear_endpoint_tcp_connection_usage :: "string \<Rightarrow> unit store_op" where
  "clear_endpoint_tcp_connection_usage endpoint_id = change_tcp_connection_usage (clear_endpoint endpoint_id)"

definition clear_node_tcp_connection_usage :: "string \<Rightarrow> unit store_op" where
  "clear_node_tcp_connection_usage node_id = change_tcp_connection_usage (clear_node node_id)"

definition record_tcp_connection_usage_samples ::
  "clock \<Rightarrow> int \<Rightarrow> bool \<Rightarrow> tcp_warning option \<Rightarrow> tcp_sample list \<Rightarrow> unit store_op" where
  "record_tcp_connection_usage_samples clk minute linux_only warning samples =
     change_tcp_connection_usage (tcp_record_minute_samples clk minute linux_only warning samples)"

definition allowed_tcp_endpoints :: "state \<Rightarrow> (string, tcp_endpoint_view) btree_map" where
  "allowed_tcp_endpoints s =
     bt_of_list (map (\<lambda>e. (ep_endpoint_id e, \<lparr>tv_node_id = ep_node_id e, tv_endpoint_id = ep_endpoint_id e,
       tv_endpoint_tag = ep_tag e, tv_port = ep_port e\<rparr>)) (bt_values (st_endpoints s)))"

definition prune_tcp_connection_usage_endpoints :: "unit store_op" where
  "prune_tcp_connection_usage_endpoints s =
     change_tcp_connection_usage (tcp_normalize (allowed_tcp_endpoints (ls_state s))) s"

section \<open>Quota usage\<close>

definition update_usage :: "(usage \<Rightarrow> usage) \<Rightarrow> unit store_op" where
  "update_usage f s = save_usage (s\<lparr>ls_usage := f (ls_usage s)\<rparr>)"

definition on_memberships ::
  "((string, membership_usage) btree_map \<Rightarrow> (string, membership_usage) btree_map) \<Rightarrow> usage \<Rightarrow> usage" where
  "on_memberships f u = u\<lparr>us_memberships := f (us_memberships u)\<rparr>"

definition clear_membership_usage :: "string \<Rightarrow> unit store_op" where
  "clear_membership_usage k s =
     (if bt_contains_key (us_memberships (ls_usage s)) k then update_usage (on_memberships (bt_remove k)) s else (Inr (), s))"

definition set_quota_banned :: "string \<Rightarrow> string \<Rightarrow> unit store_op" where
  "set_quota_banned k banned_at =
     update_usage (on_memberships (bt_entry k
       \<lparr>mu_cycle_start_at = banned_at, mu_cycle_end_at = banned_at, mu_used_bytes = 0, mu_last_uplink_total = 0,
        mu_last_downlink_total = 0, mu_last_seen_at = banned_at, mu_quota_banned = False, mu_quota_banned_at = None\<rparr>
       (\<lambda>e. e\<lparr>mu_quota_banned := True, mu_quota_banned_at := Some banned_at\<rparr>)))"

definition clear_quota_banned :: "string \<Rightarrow> unit store_op" where
  "clear_quota_banned k s =
     (if bt_contains_key (us_memberships (ls_usage s)) k
      then update_usage (on_memberships (bt_modify k (\<lambda>e. e\<lparr>mu_quota_banned := False, mu_quota_banned_at := None\<rparr>))) s
      else (Inr (), s))"

definition set_user_credential_epoch_applied :: "string \<Rightarrow> u32 \<Rightarrow> unit store_op" where
  "set_user_credential_epoch_applied user_id epoch =
     update_usage (\<lambda>u. u\<lparr>us_user_credential_epochs_applied := bt_insert user_id epoch (us_user_credential_epochs_applied u)\<rparr>)"

definition set_node_pacing :: "string \<Rightarrow> node_pacing \<Rightarrow> unit store_op" where
  "set_node_pacing node_id pacing =
     update_usage (\<lambda>u. u\<lparr>us_node_pacing := bt_insert node_id pacing (us_node_pacing u)\<rparr>)"

definition clear_node_pacing :: "string \<Rightarrow> unit store_op" where
  "clear_node_pacing node_id s =
     (if bt_contains_key (us_node_pacing (ls_usage s)) node_id
      then update_usage (\<lambda>u. u\<lparr>us_node_pacing := bt_remove node_id (us_node_pacing u)\<rparr>) s else (Inr (), s))"

definition set_user_node_pacing :: "string \<Rightarrow> string \<Rightarrow> user_node_pacing \<Rightarrow> unit store_op" where
  "set_user_node_pacing user_id node_id pacing =
     update_usage (\<lambda>u. u\<lparr>us_user_node_pacing := bt_entry user_id bt_empty (bt_insert node_id pacing) (us_user_node_pacing u)\<rparr>)"

definition clear_user_node_pacing_for_node :: "string \<Rightarrow> unit store_op" where
  "clear_user_node_pacing_for_node node_id s =
     (let pacing = us_user_node_pacing (ls_usage s);
          changed = list_ex (\<lambda>nodes. bt_contains_key nodes node_id) (bt_values pacing);
          s = s\<lparr>ls_usage := (ls_usage s)\<lparr>us_user_node_pacing :=
                bt_retain (\<lambda>_ nodes. \<not> bt_is_empty nodes) (bt_map_values (\<lambda>_. bt_remove node_id) pacing)\<rparr>\<rparr>
      in if changed then save_usage s else (Inr (), s))"

text \<open>
  \<^verbatim>\<open>apply_membership_usage_sample\<close>: a new cycle starts at zero, a counter that went back only resets the
  base line, otherwise the difference is added.
\<close>

definition fresh_usage :: "string \<Rightarrow> string \<Rightarrow> u64 \<Rightarrow> u64 \<Rightarrow> string \<Rightarrow> membership_usage" where
  "fresh_usage cycle_start_at cycle_end_at uplink_total downlink_total seen_at =
     \<lparr>mu_cycle_start_at = cycle_start_at, mu_cycle_end_at = cycle_end_at, mu_used_bytes = sat_add uplink_total downlink_total,
      mu_last_uplink_total = uplink_total, mu_last_downlink_total = downlink_total, mu_last_seen_at = seen_at,
      mu_quota_banned = False, mu_quota_banned_at = None\<rparr>"

definition sampled_usage :: "string \<Rightarrow> string \<Rightarrow> u64 \<Rightarrow> u64 \<Rightarrow> string \<Rightarrow> membership_usage \<Rightarrow> membership_usage" where
  "sampled_usage cycle_start_at cycle_end_at uplink_total downlink_total seen_at e =
     (let rebased = e\<lparr>mu_last_uplink_total := uplink_total, mu_last_downlink_total := downlink_total, mu_last_seen_at := seen_at\<rparr>
      in if mu_cycle_start_at e \<noteq> cycle_start_at \<or> mu_cycle_end_at e \<noteq> cycle_end_at
         then rebased\<lparr>mu_cycle_start_at := cycle_start_at, mu_cycle_end_at := cycle_end_at, mu_used_bytes := 0\<rparr>
         else if uplink_total < mu_last_uplink_total e \<or> downlink_total < mu_last_downlink_total e
         then rebased
         else rebased\<lparr>mu_used_bytes := sat_add (mu_used_bytes e)
           (sat_add (uplink_total - mu_last_uplink_total e) (downlink_total - mu_last_downlink_total e))\<rparr>)"

definition apply_membership_usage_sample ::
  "string \<Rightarrow> string \<Rightarrow> string \<Rightarrow> u64 \<Rightarrow> u64 \<Rightarrow> string \<Rightarrow> usage_snapshot store_op" where
  "apply_membership_usage_sample k cycle_start_at cycle_end_at uplink_total downlink_total seen_at s =
     (let entry = bt_get_or (fresh_usage cycle_start_at cycle_end_at uplink_total downlink_total seen_at)
            (us_memberships (ls_usage s)) k;
          entry = sampled_usage cycle_start_at cycle_end_at uplink_total downlink_total seen_at entry
      in then_do (update_usage (on_memberships (bt_insert k entry)))
           (\<lambda>_ s. (Inr \<lparr>sn_cycle_start_at = cycle_start_at, sn_cycle_end_at = cycle_end_at,
              sn_used_bytes = mu_used_bytes entry\<rparr>, s)) s)"

section \<open>Weights\<close>

definition resolve_user_global_weight :: "string \<Rightarrow> state \<Rightarrow> u16" where
  "resolve_user_global_weight user_id s = bt_get_or DEFAULT_USER_NODE_WEIGHT (st_user_global_weights s) user_id"

definition is_node_weight_inherit_global :: "string \<Rightarrow> state \<Rightarrow> bool" where
  "is_node_weight_inherit_global node_id s = bt_get_or True (st_node_weight_policies s) node_id"

definition get_user_node_weight :: "string \<Rightarrow> string \<Rightarrow> state \<Rightarrow> u16 option" where
  "get_user_node_weight user_id node_id s =
     Option.bind (bt_get (st_user_node_weights s) user_id) (\<lambda>m. bt_get m node_id)"

definition resolve_user_node_weight :: "string \<Rightarrow> string \<Rightarrow> state \<Rightarrow> u16" where
  "resolve_user_node_weight user_id node_id s =
     (let global_weight = resolve_user_global_weight user_id s
      in if is_node_weight_inherit_global node_id s then global_weight
         else (case get_user_node_weight user_id node_id s of None \<Rightarrow> global_weight | Some w \<Rightarrow> w))"

section \<open>What a write keeps\<close>

lemma then_do_simps [simp]:
  "h s = (Inl e, s') \<Longrightarrow> then_do h f s = (Inl e, s')"
  "h s = (Inr a, s') \<Longrightarrow> then_do h f s = f a s'"
  by (simp_all add: then_do_def)

lemma then_do_Inr:
  "then_do h f s = (Inr b, s'') \<longleftrightarrow> (\<exists>a s'. h s = (Inr a, s') \<and> f a s' = (Inr b, s''))"
  by (auto simp: then_do_def split: prod.splits sum.splits)

lemma write_snapshot_keeps:
  "ls_state (snd (write_history_snapshot key put s)) = ls_state s"
  "ls_usage (snd (write_history_snapshot key put s)) = ls_usage s"
  "ls_inbound_ip_usage (snd (write_history_snapshot key put s)) = ls_inbound_ip_usage s"
  "ls_tcp_connection_usage (snd (write_history_snapshot key put s)) = ls_tcp_connection_usage s"
  by (simp_all add: write_history_snapshot_def split: list.split bool.split)

lemma write_snapshot_disk:
  "ls_disk (snd (write_history_snapshot key put s)) =
     (if is_ok (fst (write_history_snapshot key put s)) then put (ls_disk s) else ls_disk s)"
  by (simp add: write_history_snapshot_def split: list.split bool.split)

lemma save_usage_keeps [simp]:
  "ls_state (snd (save_usage s)) = ls_state s" "ls_usage (snd (save_usage s)) = ls_usage s"
  by (simp_all add: save_usage_def write_snapshot_keeps)

lemma update_usage_memory [simp]: "ls_usage (snd (update_usage f s)) = f (ls_usage s)"
  by (simp add: update_usage_def)

section \<open>Metering\<close>

text \<open>
  The bytes a sequence of counter readings accounts for: the increase of both counters from one reading to the next,
  where a reading below the previous one only gives a new base.
\<close>

fun metered :: "u64 \<times> u64 \<Rightarrow> (u64 \<times> u64) list \<Rightarrow> nat" where
  "metered _ [] = 0"
| "metered (u, d) ((u', d') # rest) =
     (if u' < u \<or> d' < d then 0 else (unat u' - unat u) + (unat d' - unat d)) + metered (u', d') rest"

definition apply_readings :: "string \<Rightarrow> string \<Rightarrow> string \<Rightarrow> string \<Rightarrow> (u64 \<times> u64) list \<Rightarrow> local_store \<Rightarrow> local_store" where
  "apply_readings k a b seen_at = fold (\<lambda>(u, d) s. snd (apply_membership_usage_sample k a b u d seen_at s))"

definition usage_in_cycle :: "string \<Rightarrow> string \<Rightarrow> string \<Rightarrow> local_store \<Rightarrow> membership_usage option" where
  "usage_in_cycle k a b s =
     (case bt_get (us_memberships (ls_usage s)) k of
        None \<Rightarrow> None
      | Some e \<Rightarrow> if mu_cycle_start_at e = a \<and> mu_cycle_end_at e = b then Some e else None)"

lemma usage_sample_memory:
  "us_memberships (ls_usage (snd (apply_membership_usage_sample k a b u d at s))) =
     bt_insert k (sampled_usage a b u d at (bt_get_or (fresh_usage a b u d at) (us_memberships (ls_usage s)) k))
       (us_memberships (ls_usage s))"
  by (simp add: apply_membership_usage_sample_def Let_def then_do_def on_memberships_def
      split: prod.split sum.split) (metis snd_conv update_usage_memory on_memberships_def usage.select_convs(2) usage.surjective usage.update_convs(2))

lemma cap_add: "min M (min M x + y) = min M (x + y)" "min M (x + min M y) = min M (x + y)" for M x y :: nat
  by simp_all

lemma sat_add_three: "unat (sat_add x (sat_add y z)) = min (2 ^ 64 - 1) (unat x + (unat y + unat z))" for x y z :: u64
  by (simp add: unat_sat_add)

lemma metered_Cons: "metered p ((u, d) # rs) = metered p [(u, d)] + metered (u, d) rs"
  by (cases p) simp

lemma sampled_same_cycle:
  assumes "mu_cycle_start_at e = a" "mu_cycle_end_at e = b" "e' = sampled_usage a b u d at e"
  shows "mu_cycle_start_at e' = a" "mu_cycle_end_at e' = b" "mu_last_uplink_total e' = u" "mu_last_downlink_total e' = d"
    "mu_quota_banned e' = mu_quota_banned e"
    "unat (mu_used_bytes e') = min (2 ^ 64 - 1)
       (unat (mu_used_bytes e) + metered (mu_last_uplink_total e, mu_last_downlink_total e) [(u, d)])"
proof -
  show "mu_cycle_start_at e' = a" "mu_cycle_end_at e' = b" "mu_last_uplink_total e' = u" "mu_last_downlink_total e' = d"
    "mu_quota_banned e' = mu_quota_banned e"
    using assms by (simp_all add: sampled_usage_def Let_def)
  have "unat (mu_used_bytes e) \<le> 2 ^ 64 - 1" using unat_less_pow [of "mu_used_bytes e"] by simp
  note le = this
  show "unat (mu_used_bytes e') = min (2 ^ 64 - 1)
       (unat (mu_used_bytes e) + metered (mu_last_uplink_total e, mu_last_downlink_total e) [(u, d)])"
  proof (cases "u < mu_last_uplink_total e \<or> d < mu_last_downlink_total e")
    case True
    with assms le show ?thesis by (simp add: sampled_usage_def Let_def)
  next
    case False
    then have "unat (u - mu_last_uplink_total e) = unat u - unat (mu_last_uplink_total e)"
      "unat (d - mu_last_downlink_total e) = unat d - unat (mu_last_downlink_total e)"
      by (simp_all add: unat_sub not_less)
    with False assms show ?thesis by (simp add: sampled_usage_def Let_def sat_add_three)
  qed
qed

lemma readings_Cons:
  "apply_readings k a b at ((u, d) # rs) s = apply_readings k a b at rs (snd (apply_membership_usage_sample k a b u d at s))"
  by (simp add: apply_readings_def)

lemma readings_same_cycle:
  assumes "bt_get (us_memberships (ls_usage s)) k = Some e" "mu_cycle_start_at e = a" "mu_cycle_end_at e = b"
  shows "\<exists>e'. bt_get (us_memberships (ls_usage (apply_readings k a b at rs s))) k = Some e' \<and>
    mu_cycle_start_at e' = a \<and> mu_cycle_end_at e' = b \<and> mu_quota_banned e' = mu_quota_banned e \<and>
    unat (mu_used_bytes e') = min (2 ^ 64 - 1)
      (unat (mu_used_bytes e) + metered (mu_last_uplink_total e, mu_last_downlink_total e) rs)"
  using assms
proof (induction rs arbitrary: s e)
  case Nil
  then show ?case using unat_less_pow [of "mu_used_bytes e"] by (simp add: apply_readings_def)
next
  case (Cons r rs)
  obtain u d where r: "r = (u, d)" by (cases r)
  let ?e = "sampled_usage a b u d at e" and ?s = "snd (apply_membership_usage_sample k a b u d at s)"
  note step = sampled_same_cycle [OF Cons.prems(2,3) refl, of u d at]
  have "bt_get (us_memberships (ls_usage ?s)) k = Some ?e" using Cons.prems(1) by (simp add: usage_sample_memory)
  from Cons.IH [OF this step(1,2)] show ?case
    unfolding r readings_Cons step(3-6) cap_add metered_Cons [of _ u d rs] add.assoc .
qed

lemma readings_others:
  "k' \<noteq> k \<Longrightarrow> bt_get (us_memberships (ls_usage (apply_readings k a b at rs s))) k' = bt_get (us_memberships (ls_usage s)) k'"
proof (induction rs arbitrary: s)
  case (Cons r rs)
  obtain u d where "r = (u, d)" by (cases r)
  with Cons show ?case by (simp add: readings_Cons usage_sample_memory)
qed (simp add: apply_readings_def)

text \<open>
  C35: Metering is exact. A sequence of counter readings of one membership in one cycle leaves the bytes used
  before in that cycle plus what the readings account for, capped at the greatest 64-bit number. A membership
  without a record starts with the totals of its first reading, a record of another cycle starts at zero. A
  counter reset loses nothing that was counted before. This holds in memory whether or not the writes
  succeed; other memberships are unchanged, and the ban of a record is.
\<close>
theorem usage_metering_exact:
  assumes "base = (case bt_get (us_memberships (ls_usage s)) k of
      None \<Rightarrow> unat u + unat d
    | Some e \<Rightarrow> if mu_cycle_start_at e = a \<and> mu_cycle_end_at e = b
        then unat (mu_used_bytes e) + metered (mu_last_uplink_total e, mu_last_downlink_total e) [(u, d)] else 0)"
    and "ms' = us_memberships (ls_usage (apply_readings k a b at ((u, d) # rs) s))"
  shows "(\<exists>e'. bt_get ms' k = Some e' \<and> mu_cycle_start_at e' = a \<and> mu_cycle_end_at e' = b \<and>
      unat (mu_used_bytes e') = min (2 ^ 64 - 1) (base + metered (u, d) rs) \<and>
      mu_quota_banned e' = (case bt_get (us_memberships (ls_usage s)) k of None \<Rightarrow> False | Some e \<Rightarrow> mu_quota_banned e)) \<and>
    (\<forall>k'. k' \<noteq> k \<longrightarrow> bt_get ms' k' = bt_get (us_memberships (ls_usage s)) k')"
proof
  let ?s = "snd (apply_membership_usage_sample k a b u d at s)"
  define e where "e = sampled_usage a b u d at (bt_get_or (fresh_usage a b u d at) (us_memberships (ls_usage s)) k)"
  have e: "mu_cycle_start_at e = a" "mu_cycle_end_at e = b" "mu_last_uplink_total e = u" "mu_last_downlink_total e = d"
      "mu_quota_banned e = (case bt_get (us_memberships (ls_usage s)) k of None \<Rightarrow> False | Some e \<Rightarrow> mu_quota_banned e)"
    by (auto simp: e_def sampled_usage_def Let_def fresh_usage_def bt_get_or_def split: option.split)
  have used: "unat (mu_used_bytes e) = min (2 ^ 64 - 1) base"
  proof (cases "bt_get (us_memberships (ls_usage s)) k")
    case None
    then show ?thesis by (simp add: e_def assms(1) sampled_usage_def fresh_usage_def Let_def unat_sat_add)
  next
    case (Some e0)
    then show ?thesis
      using sampled_same_cycle(6) [OF _ _ refl, of e0 a b u d at]
      by (cases "mu_cycle_start_at e0 = a \<and> mu_cycle_end_at e0 = b") (auto simp: e_def assms(1) sampled_usage_def Let_def)
  qed
  have "bt_get (us_memberships (ls_usage ?s)) k = Some e" by (simp add: usage_sample_memory e_def)
  from readings_same_cycle [OF this e(1,2), of at rs]
  show "\<exists>e'. bt_get ms' k = Some e' \<and> mu_cycle_start_at e' = a \<and> mu_cycle_end_at e' = b \<and>
      unat (mu_used_bytes e') = min (2 ^ 64 - 1) (base + metered (u, d) rs) \<and>
      mu_quota_banned e' = (case bt_get (us_memberships (ls_usage s)) k of None \<Rightarrow> False | Some e \<Rightarrow> mu_quota_banned e)"
    unfolding assms(2) readings_Cons used e(3-5) cap_add by blast
  show "\<forall>k'. k' \<noteq> k \<longrightarrow> bt_get ms' k' = bt_get (us_memberships (ls_usage s)) k'"
    by (simp add: assms(2) readings_others)
qed

definition empty_store :: local_store where
  "empty_store = \<lparr>ls_state = empty_state, ls_usage = empty_usage, ls_inbound_ip_usage = default_ip_usage,
     ls_tcp_connection_usage = default_tcp_usage, ls_disk = \<lparr>sd_state = None, sd_usage = None, sd_inbound_ip_usage = None,
     sd_tcp_connection_usage = None\<rparr>, ls_writes = []\<rparr>"

theorem usage_metering_exact_witness:
  "\<exists>e. bt_get (us_memberships (ls_usage (apply_readings ''m'' ''a'' ''b'' ''t'' [(10, 5), (12, 5), (1, 0), (4, 4)]
      (empty_store\<lparr>ls_writes := [False]\<rparr>)))) ''m'' = Some e \<and> unat (mu_used_bytes e) = 15 + 2 + 0 + 7"
  using usage_metering_exact [OF refl refl, where s = "empty_store\<lparr>ls_writes := [False]\<rparr>" and k = "''m''" and u = 10 and d = 5
      and a = "''a''" and b = "''b''" and at = "''t''" and rs = "[(12, 5), (1, 0), (4, 4)]"]
  by (auto simp: empty_store_def empty_usage_def)

end
