(* ===== verification/Xp_Store_Open.thy ===== *)
theory Xp_Store_Open
  imports Xp_Local_Store
begin

text \<open>
  Opening the store, \<^verbatim>\<open>JsonSnapshotStore::load_or_init\<close>: the migrations between the versions of the
  current state format (10 to 13), the repairs of a loaded state, and the loading of the local records against it.
  Versions 1 to 9 have other formats and are not modelled. Opening brings the parts the repairs are about into
  order whatever was stored, and opening again changes nothing.
\<close>

section \<open>Migrations\<close>

definition SCHEMA_VERSION_V10 :: u32 where
  "SCHEMA_VERSION_V10 = 10"

definition SCHEMA_VERSION_V11 :: u32 where
  "SCHEMA_VERSION_V11 = 11"

definition SCHEMA_VERSION_V12 :: u32 where
  "SCHEMA_VERSION_V12 = 12"

definition wrong_version :: "string \<Rightarrow> state \<Rightarrow> store_error" where
  "wrong_version v s = Migration (''expected '' @ v @ '' state during migration, got schema_version '' @ show_word (st_schema_version s))"

definition migrate_v10_to_v11 :: "state \<Rightarrow> store_error + state" where
  "migrate_v10_to_v11 s =
     (if st_schema_version s \<noteq> SCHEMA_VERSION_V10 then Inl (wrong_version ''v10'' s)
      else Inr (s\<lparr>st_schema_version := SCHEMA_VERSION_V11\<rparr>))"

definition migrate_v11_to_v12 :: "state \<Rightarrow> store_error + state" where
  "migrate_v11_to_v12 s =
     (if st_schema_version s \<noteq> SCHEMA_VERSION_V11 then Inl (wrong_version ''v11'' s)
      else
        let s = s\<lparr>st_node_user_endpoint_memberships := normalize_memberships s (st_node_user_endpoint_memberships s)\<rparr>;
            s = s\<lparr>st_user_auto_assign_endpoint_kinds := infer_user_auto_assign_kinds s\<rparr>;
            s = s\<lparr>st_schema_version := SCHEMA_VERSION_V12\<rparr>
        in Inr (sync_memberships s))"

definition migrate_v12_to_v13 :: "state \<Rightarrow> store_error + state" where
  "migrate_v12_to_v13 s =
     (if st_schema_version s \<noteq> SCHEMA_VERSION_V12 then Inl (wrong_version ''v12'' s)
      else Inr (s\<lparr>st_schema_version := SCHEMA_VERSION\<rparr>))"

text \<open>The state with the flag whether it was migrated.\<close>

definition migrate_state :: "state \<Rightarrow> store_error + state \<times> bool" where
  "migrate_state s =
     (if st_schema_version s = SCHEMA_VERSION then Inr (s, False)
      else if st_schema_version s = SCHEMA_VERSION_V12
      then and_then (migrate_v12_to_v13 s) (\<lambda>s. Inr (s, True))
      else if st_schema_version s = SCHEMA_VERSION_V11
      then and_then (migrate_v11_to_v12 s) (\<lambda>s. and_then (migrate_v12_to_v13 s) (\<lambda>s. Inr (s, True)))
      else if st_schema_version s = SCHEMA_VERSION_V10
      then and_then (migrate_v10_to_v11 s) (\<lambda>s.
        and_then (migrate_v11_to_v12 s) (\<lambda>s. and_then (migrate_v12_to_v13 s) (\<lambda>s. Inr (s, True))))
      else Inl (SchemaVersionMismatch SCHEMA_VERSION (st_schema_version s)))"

section \<open>A new store\<close>

definition default_seed_reality_domains :: "reality_domain list" where
  "default_seed_reality_domains =
     map (\<lambda>(id, name). \<lparr>rd_domain_id = id, rd_server_name = name, rd_disabled_node_ids = bt_empty\<rparr>)
       [(''seed_cdn_a_example_test'', ''cdn-a.example.test''), (''seed_cdn_b_example_test'', ''cdn-b.example.test''),
        (''seed_download_example_com'', ''download.example.com'')]"

definition initial_state :: "node \<Rightarrow> state" where
  "initial_state node =
     empty_state\<lparr>st_nodes := bt_insert (n_node_id node) node bt_empty, st_reality_domains := default_seed_reality_domains\<rparr>"

section \<open>Repairs\<close>

definition json_remove :: "string \<Rightarrow> json \<Rightarrow> json" where
  "json_remove k v = (case v of JObj kvs \<Rightarrow> JObj (filter (\<lambda>(k', _). k' \<noteq> k) kvs) | _ \<Rightarrow> v)"

definition has_public_domain :: "endpoint \<Rightarrow> bool" where
  "has_public_domain e = (ep_kind e = VlessRealityVisionTcp \<and> json_field ''public_domain'' (ep_meta e) \<noteq> None)"

definition without_public_domain :: "endpoint \<Rightarrow> endpoint" where
  "without_public_domain e =
     (if ep_kind e = VlessRealityVisionTcp then e\<lparr>ep_meta := json_remove ''public_domain'' (ep_meta e)\<rparr> else e)"

definition drop_public_domain :: "state \<Rightarrow> bool \<times> state" where
  "drop_public_domain s =
     (list_ex has_public_domain (bt_values (st_endpoints s)),
      s\<lparr>st_endpoints := bt_map_values (\<lambda>_. without_public_domain) (st_endpoints s)\<rparr>)"

definition normalize_user_global_weights :: "state \<Rightarrow> (string, u16) btree_map \<Rightarrow> (string, u16) btree_map" where
  "normalize_user_global_weights s = bt_retain (\<lambda>user_id _. bt_contains_key (st_users s) user_id)"

definition normalize_node_weight_policies :: "state \<Rightarrow> (string, bool) btree_map \<Rightarrow> (string, bool) btree_map" where
  "normalize_node_weight_policies s = bt_retain (\<lambda>node_id _. bt_contains_key (st_nodes s) node_id)"

text \<open>One repair that replaces a field and reports whether the state differs.\<close>

definition replaced :: "(state \<Rightarrow> state) \<Rightarrow> bool \<times> state \<Rightarrow> bool \<times> state" where
  "replaced f = (\<lambda>(changed, s). (changed \<or> f s \<noteq> s, f s))"

definition repair_state :: "state \<Rightarrow> bool \<times> state" where
  "repair_state s =
     (let (c1, s) = drop_public_domain s;
          (c2, s) = prune_deleted_nodes s
      in replaced (\<lambda>s. s\<lparr>st_node_user_endpoint_memberships := build_memberships s\<rparr>)
        (replaced (\<lambda>s. s\<lparr>st_node_user_endpoint_memberships := normalize_memberships s (st_node_user_endpoint_memberships s)\<rparr>)
        (replaced (\<lambda>s. s\<lparr>st_user_auto_assign_endpoint_kinds := normalize_auto_assign s (st_user_auto_assign_endpoint_kinds s)\<rparr>)
        (replaced (\<lambda>s. s\<lparr>st_node_weight_policies := normalize_node_weight_policies s (st_node_weight_policies s)\<rparr>)
        (replaced (\<lambda>s. s\<lparr>st_user_global_weights := normalize_user_global_weights s (st_user_global_weights s)\<rparr>)
          (c1 \<or> c2, s))))))"

section \<open>Opening\<close>

text \<open>The state that is read, whether it is new, and whether it was migrated or repaired.\<close>

definition read_state :: "node \<Rightarrow> snapshots \<Rightarrow> store_error + state \<times> bool \<times> bool" where
  "read_state boot d =
     and_then (case sd_state d of
         None \<Rightarrow> Inr (initial_state boot, True, False)
       | Some s \<Rightarrow> and_then (migrate_state s) (\<lambda>(s, migrated). Inr (s, False, migrated)))
       (\<lambda>(s, is_new, migrated).
          if st_schema_version s \<noteq> SCHEMA_VERSION
          then Inl (SchemaVersionMismatch SCHEMA_VERSION (st_schema_version s))
          else let (repaired, s) = repair_state s in Inr (s, is_new, migrated \<or> repaired))"

text \<open>
  The usage, and whether it was migrated. A usage of version 1 is keyed by grants, which a state of the current format
  has no mapping for, so it is discarded.
\<close>

definition USAGE_SCHEMA_VERSION_V1 :: u32 where
  "USAGE_SCHEMA_VERSION_V1 = 1"

definition read_usage :: "string btree_set \<Rightarrow> usage option \<Rightarrow> store_error + usage \<times> bool" where
  "read_usage allowed d =
     and_then (case d of
         None \<Rightarrow> Inr (empty_usage, False)
       | Some u \<Rightarrow>
           if us_schema_version u = USAGE_SCHEMA_VERSION then Inr (u, False)
           else if us_schema_version u = USAGE_SCHEMA_VERSION_V1 then Inr (empty_usage, True)
           else Inl (SchemaVersionMismatch USAGE_SCHEMA_VERSION (us_schema_version u)))
       (\<lambda>(u, migrated).
          let ms = bt_retain (\<lambda>k _. bs_contains allowed k) (us_memberships u)
          in Inr (u\<lparr>us_memberships := ms\<rparr>, migrated \<or> bt_len ms \<noteq> bt_len (us_memberships u)))"

definition save_if :: "bool \<Rightarrow> unit store_op \<Rightarrow> unit store_op" where
  "save_if c op s = (if c then op s else (Inr (), s))"

text \<open>
  The outer result is the error of reading; the inner one is the outcome of the writes at the end, with the store
  and the snapshots they leave.
\<close>

definition load_or_init :: "node \<Rightarrow> snapshots \<Rightarrow> bool list \<Rightarrow> store_error + (store_error + unit) \<times> local_store" where
  "load_or_init boot d writes =
     and_then (read_state boot d) (\<lambda>(state, is_new, migrated).
       let allowed = allowed_membership_keys state
       in and_then (read_usage allowed (sd_usage d)) (\<lambda>(usage, usage_migrated).
         let (ip_migrated, ip) = normalize_ip_usage allowed
               (case sd_inbound_ip_usage d of None \<Rightarrow> default_ip_usage | Some u \<Rightarrow> u);
             (tcp_migrated, tcp) = tcp_normalize (allowed_tcp_endpoints state)
               (case sd_tcp_connection_usage d of None \<Rightarrow> default_tcp_usage | Some u \<Rightarrow> u);
             store = \<lparr>ls_state = state, ls_usage = usage, ls_inbound_ip_usage = ip, ls_tcp_connection_usage = tcp,
               ls_disk = d, ls_writes = writes\<rparr>
         in Inr (then_do (save_if (is_new \<or> migrated \<or> usage_migrated) save)
              (\<lambda>_. then_do (save_if usage_migrated save_usage)
              (\<lambda>_. then_do (save_if ip_migrated save_inbound_ip_usage)
              (\<lambda>_. save_if tcp_migrated save_tcp_connection_usage))) store)))"

section \<open>Repairs are settled after one pass\<close>

lemma bt_retain_len: "bt_len (bt_retain P m) = bt_len m \<Longrightarrow> bt_retain P m = m"
  by (simp add: bt_len_def bt_retain.rep_eq bt_entries_inject [symmetric])
    (metis (no_types, lifting) filter_True length_filter_less order_less_irrefl)

lemma bt_map_values_id: "(\<And>k v. bt_get m k = Some v \<Longrightarrow> f k v = v) \<Longrightarrow> bt_map_values f m = m"
  by (rule bt_eqI) (auto simp: bt_get_map_values map_option_case split: option.split)

lemma list_ex_values: "list_ex P (bt_values m) \<longleftrightarrow> (\<exists>k v. bt_get m k = Some v \<and> P v)"
  unfolding list_ex_iff Bex_def bt_values_iff by blast

lemma list_ex_entries: "list_ex P (bt_entries m) \<longleftrightarrow> (\<exists>k v. bt_get m k = Some v \<and> P (k, v))"
  unfolding list_ex_iff Bex_def by (simp add: bt_entries_iff split_paired_Ex)

subsection \<open>Metadata\<close>

lemma without_public_domain_keeps [simp]:
  "ep_endpoint_id (without_public_domain e) = ep_endpoint_id e" "ep_node_id (without_public_domain e) = ep_node_id e"
  "ep_tag (without_public_domain e) = ep_tag e" "ep_kind (without_public_domain e) = ep_kind e"
  "ep_port (without_public_domain e) = ep_port e"
  by (simp_all add: without_public_domain_def)

lemma has_public_domain_without: "\<not> has_public_domain (without_public_domain e)"
  by (auto simp: has_public_domain_def without_public_domain_def json_remove_def json_field_def map_of_eq_None_iff split: json.splits)

lemma without_public_domain_id: "\<not> has_public_domain e \<Longrightarrow> without_public_domain e = e"
proof -
  have "filter (\<lambda>(k', _). k' \<noteq> k) kvs = kvs" if "map_of kvs k = None" for k and kvs :: "(string \<times> json) list"
    using that by (auto simp: map_of_eq_None_iff filter_id_conv) force
  then show "\<not> has_public_domain e \<Longrightarrow> without_public_domain e = e"
    by (cases "ep_meta e") (auto simp: has_public_domain_def without_public_domain_def json_remove_def json_field_def)
qed

lemma drop_public_domain_settled: "(\<forall>k e. bt_get (st_endpoints s) k = Some e \<longrightarrow> \<not> has_public_domain e) \<Longrightarrow> drop_public_domain s = (False, s)"
  by (auto simp: drop_public_domain_def list_ex_values without_public_domain_id bt_map_values_id)

lemma drop_public_domain_flag: "drop_public_domain s = (False, s') \<Longrightarrow> s' = s"
  using drop_public_domain_settled [of s] by (auto simp: drop_public_domain_def list_ex_values)

lemma drop_public_domain_none:
  "bt_get (st_endpoints (snd (drop_public_domain s))) k = Some e \<Longrightarrow> \<not> has_public_domain e"
  by (auto simp: drop_public_domain_def bt_get_map_values has_public_domain_without)

subsection \<open>Probe tracking\<close>

definition probes_known :: "state \<Rightarrow> bool" where
  "probes_known s =
     ((\<forall>e hours. bt_get (st_endpoint_probe_history s) e = Some hours \<longrightarrow> \<not> bt_is_empty hours \<and>
        (\<forall>h bucket. bt_get hours h = Some bucket \<longrightarrow> \<not> bt_is_empty bucket \<and>
           (\<forall>n v. bt_get bucket n = Some v \<longrightarrow> bt_contains_key (st_nodes s) n))) \<and>
      (\<forall>h ps. bt_get (st_endpoint_probe_participants_by_hour s) h = Some ps \<longrightarrow> \<not> bt_is_empty ps \<and>
         (\<forall>n v. bt_get ps n = Some v \<longrightarrow> bt_contains_key (st_nodes s) n)))"

lemma prune_settled:
  assumes "probes_known s"
  shows "prune_deleted_nodes s = (False, s)"
proof -
  let ?known = "bt_contains_key (st_nodes s)"
  let ?h = "st_endpoint_probe_history s" and ?p = "st_endpoint_probe_participants_by_hour s"
  have bucket: "bt_retain (\<lambda>n _. ?known n) bucket = bucket" if "bt_get ?h e = Some hours" "bt_get hours h = Some bucket" for e hours h bucket
    using assms that by (intro bt_retain_all) (auto simp: probes_known_def)
  have h1: "bt_map_values (\<lambda>_. bt_map_values (\<lambda>_. bt_retain (\<lambda>n _. ?known n))) ?h = ?h"
    by (intro bt_map_values_id) (auto intro: bt_map_values_id bucket)
  have hours: "bt_retain (\<lambda>_ bucket. \<not> bt_is_empty bucket) hours = hours" if "bt_get ?h e = Some hours" for e hours
    using assms that by (intro bt_retain_all) (auto simp: probes_known_def)
  have h2: "bt_map_values (\<lambda>_. bt_retain (\<lambda>_ bucket. \<not> bt_is_empty bucket)) ?h = ?h"
    by (intro bt_map_values_id) (rule hours)
  have h3: "bt_retain (\<lambda>_ hours. \<not> bt_is_empty hours) ?h = ?h"
    using assms by (intro bt_retain_all) (auto simp: probes_known_def)
  have ps: "bs_retain ?known ps = ps" if "bt_get ?p h = Some ps" for h ps
    using assms that unfolding bs_retain_def by (intro bt_retain_all) (auto simp: probes_known_def)
  have p1: "bt_map_values (\<lambda>_. bs_retain ?known) ?p = ?p"
    by (intro bt_map_values_id) (rule ps)
  have p2: "bt_retain (\<lambda>_ ps. \<not> bt_is_empty ps) ?p = ?p"
    using assms by (intro bt_retain_all) (auto simp: probes_known_def)
  show ?thesis
    unfolding prune_deleted_nodes_def Let_def h1 h2 h3 p1 p2
    by (auto simp: list_ex_entries bucket hours ps simp del: bs_is_empty_iff)
qed

lemma prune_known: "probes_known (snd (prune_deleted_nodes s))"
  unfolding probes_known_def bs_retain_def
  by (auto simp: prune_deleted_nodes_def Let_def bs_retain_def bt_get_retain bt_get_map_values split: option.splits if_splits)

lemma prune_flag:
  assumes "prune_deleted_nodes s = (False, s')"
  shows "s' = s"
proof -
  let ?known = "bt_contains_key (st_nodes s)"
  let ?h = "st_endpoint_probe_history s" and ?p = "st_endpoint_probe_participants_by_hour s"
  let ?h1 = "bt_map_values (\<lambda>_. bt_map_values (\<lambda>_. bt_retain (\<lambda>n _. ?known n))) ?h"
  let ?p1 = "bt_map_values (\<lambda>_. bs_retain ?known) ?p"
  note flags = assms [unfolded prune_deleted_nodes_def Let_def, simplified, unfolded list_ex_entries, simplified]
  have h1: "?h1 = ?h"
    using flags by (intro bt_map_values_id bt_retain_len) fastforce
  have h2: "bt_map_values (\<lambda>_. bt_retain (\<lambda>_ bucket. \<not> bt_is_empty bucket)) ?h = ?h"
    using flags unfolding h1 by (intro bt_map_values_id bt_retain_len) fastforce
  have h3: "bt_retain (\<lambda>_ hours. \<not> bt_is_empty hours) ?h = ?h"
    using flags unfolding h1 h2 by (intro bt_retain_len) simp
  have p1: "?p1 = ?p"
    using flags unfolding bs_retain_def by (intro bt_map_values_id bt_retain_len) fastforce
  have p2: "bt_retain (\<lambda>_ ps. \<not> bt_is_empty ps) ?p = ?p"
    using flags unfolding p1 by (intro bt_retain_len) simp
  show ?thesis using assms unfolding prune_deleted_nodes_def Let_def h1 h2 h3 p1 p2 by simp
qed

subsection \<open>The whole repair\<close>

definition settled :: "state \<Rightarrow> bool" where
  "settled s =
     ((\<forall>k e. bt_get (st_endpoints s) k = Some e \<longrightarrow> \<not> has_public_domain e) \<and> probes_known s \<and>
      keys_sub (st_user_global_weights s) (st_users s) \<and> keys_sub (st_node_weight_policies s) (st_nodes s) \<and> access_ok s)"

lemma normalize_keeps:
  assumes "index_sound s"
  shows "normalize_memberships s (st_node_user_endpoint_memberships s) = st_node_user_endpoint_memberships s"
proof (intro bs_eqI set_eqI iffI)
  note sound = assms [unfolded index_sound_def, rule_format]
  fix m
  assume "m \<in> bs_set (normalize_memberships s (st_node_user_endpoint_memberships s))"
  then obtain m' e where m: "m = Membership (m_user_id m') (ep_node_id e) (m_endpoint_id m')"
    and m': "m' \<in> bs_set (st_node_user_endpoint_memberships s)" and e: "bt_get (st_endpoints s) (m_endpoint_id m') = Some e"
    unfolding bs_set_normalize by blast
  from sound [OF m'] e have "m = m'" by (simp add: membership_eq_iff m)
  with m' show "m \<in> bs_set (st_node_user_endpoint_memberships s)" by simp
next
  note sound = assms [unfolded index_sound_def, rule_format]
  fix m
  assume m: "m \<in> bs_set (st_node_user_endpoint_memberships s)"
  from sound [OF m] obtain e where e: "bt_get (st_endpoints s) (m_endpoint_id m) = Some e" "m_node_id m = ep_node_id e"
    and u: "bt_contains_key (st_users s) (m_user_id m)" by blast
  then have "m = Membership (m_user_id m) (ep_node_id e) (m_endpoint_id m)" by (simp add: membership_eq_iff)
  with m e u show "m \<in> bs_set (normalize_memberships s (st_node_user_endpoint_memberships s))"
    unfolding bs_set_normalize by blast
qed

lemma build_normalized:
  "build_memberships (s\<lparr>st_node_user_endpoint_memberships := normalize_memberships s (st_node_user_endpoint_memberships s)\<rparr>) =
   build_memberships s"
proof -
  have "normalize_memberships (s\<lparr>st_node_user_endpoint_memberships := ms\<rparr>) ms' = normalize_memberships s ms'" for ms ms'
    by (intro bs_eqI) (simp add: bs_set_normalize)
  moreover have "bs_set (normalize_memberships s (normalize_memberships s ms)) = bs_set (normalize_memberships s ms)" for ms
  proof -
    let ?s = "s\<lparr>st_node_user_endpoint_memberships := normalize_memberships s ms\<rparr>"
    have "index_sound ?s" by (auto simp: index_sound_def bs_set_normalize)
    from normalize_keeps [OF this] show ?thesis by (simp add: calculation)
  qed
  ultimately show ?thesis by (intro bs_eqI) (simp add: bs_set_build)
qed

definition weights_kept :: "state \<Rightarrow> state" where
  "weights_kept s =
     s\<lparr>st_user_global_weights := normalize_user_global_weights s (st_user_global_weights s),
       st_node_weight_policies := normalize_node_weight_policies s (st_node_weight_policies s)\<rparr>"

lemma normalize_auto_weights:
  "normalize_auto_assign (s\<lparr>st_user_global_weights := a, st_node_weight_policies := b\<rparr>) = normalize_auto_assign s"
  by (simp add: fun_eq_iff normalize_auto_assign_def)

lemma repair_state_eq:
  "snd (repair_state s) = sync_memberships (weights_kept (snd (prune_deleted_nodes (snd (drop_public_domain s)))))"
proof -
  obtain c1 s1 where d: "drop_public_domain s = (c1, s1)" by (metis surj_pair)
  obtain c2 s2 where p: "prune_deleted_nodes s1 = (c2, s2)" by (metis surj_pair)
  let ?s5 = "(weights_kept s2)\<lparr>st_user_auto_assign_endpoint_kinds := normalize_auto_assign s2 (st_user_auto_assign_endpoint_kinds s2)\<rparr>"
  have "snd (repair_state s) = ?s5\<lparr>st_node_user_endpoint_memberships :=
      build_memberships (?s5\<lparr>st_node_user_endpoint_memberships := normalize_memberships ?s5 (st_node_user_endpoint_memberships ?s5)\<rparr>)\<rparr>"
    unfolding repair_state_def Let_def d p prod.case replaced_def weights_kept_def
    by (simp add: normalize_node_weight_policies_def normalize_user_global_weights_def normalize_auto_weights)
  also have "\<dots> = sync_memberships (weights_kept s2)"
    unfolding build_normalized by (simp add: sync_memberships_def Let_def weights_kept_def normalize_auto_weights)
  finally show ?thesis by (simp add: d p)
qed

lemma replaced_False: "replaced f p = (False, s') \<longleftrightarrow> p = (False, s') \<and> f s' = s'"
  by (cases p) (auto simp: replaced_def)

lemma repair_flag:
  assumes "repair_state s = (False, s')"
  shows "s' = s"
proof -
  obtain c1 s1 where d: "drop_public_domain s = (c1, s1)" by (metis surj_pair)
  obtain c2 s2 where p: "prune_deleted_nodes s1 = (c2, s2)" by (metis surj_pair)
  from assms have "(c1 \<or> c2, s2) = (False, s')"
    unfolding repair_state_def Let_def d p prod.case replaced_False by (elim conjE)
  then have c: "\<not> c1" "\<not> c2" and s': "s' = s2" by simp_all
  from c d p have "s1 = s" "s2 = s1" by (auto intro: drop_public_domain_flag prune_flag)
  with s' show ?thesis by simp
qed

lemma sync_parts:
  assumes "access_ok s"
  shows "normalize_auto_assign s (st_user_auto_assign_endpoint_kinds s) = st_user_auto_assign_endpoint_kinds s"
    "build_memberships s = st_node_user_endpoint_memberships s"
proof -
  note fixed = sync_id [OF assms]
  show auto_fixed: "normalize_auto_assign s (st_user_auto_assign_endpoint_kinds s) = st_user_auto_assign_endpoint_kinds s"
    using arg_cong [OF fixed, of st_user_auto_assign_endpoint_kinds] by (simp add: sync_memberships_def Let_def)
  show "build_memberships s = st_node_user_endpoint_memberships s"
    using arg_cong [OF fixed, of st_node_user_endpoint_memberships] by (simp add: sync_memberships_def Let_def auto_fixed)
qed

lemma repair_settled:
  assumes "settled s"
  shows "repair_state s = (False, s)"
proof -
  have parts: "drop_public_domain s = (False, s)" "prune_deleted_nodes s = (False, s)"
    using assms by (simp_all add: settled_def drop_public_domain_settled prune_settled)
  have weights: "normalize_user_global_weights s (st_user_global_weights s) = st_user_global_weights s"
    "normalize_node_weight_policies s (st_node_weight_policies s) = st_node_weight_policies s"
    using assms unfolding normalize_user_global_weights_def normalize_node_weight_policies_def
    by (auto simp: settled_def keys_sub_def bt_contains_iff intro!: bt_retain_all)
  from assms have acc: "access_ok s" by (simp add: settled_def)
  then have "index_sound s" by (simp add: access_ok_def)
  note fixed = weights sync_parts [OF acc] normalize_keeps [OF this]
  show ?thesis
    unfolding repair_state_def Let_def parts prod.case replaced_False by (simp add: fixed)
qed

lemma repair_establishes:
  assumes "endpoints_keyed s"
  shows "settled (snd (repair_state s))"
proof -
  let ?s1 = "snd (drop_public_domain s)"
  let ?s2 = "snd (prune_deleted_nodes ?s1)"
  let ?s4 = "weights_kept ?s2"
  have same: "st_endpoints ?s2 = st_endpoints ?s1" "st_nodes ?s2 = st_nodes ?s1" "st_users ?s2 = st_users ?s1"
    by (simp_all add: prune_deleted_nodes_def Let_def)
  have "endpoints_keyed ?s1" using assms by (auto simp: endpoints_keyed_def drop_public_domain_def bt_get_map_values)
  then have "endpoints_keyed ?s4" by (simp add: endpoints_keyed_def weights_kept_def same)
  then have acc: "access_ok (sync_memberships ?s4)" by (rule sync_access_ok)
  have keep: "st_endpoints (sync_memberships ?s4) = st_endpoints ?s1" "st_users (sync_memberships ?s4) = st_users ?s1"
    "st_nodes (sync_memberships ?s4) = st_nodes ?s1"
    "st_endpoint_probe_history (sync_memberships ?s4) = st_endpoint_probe_history ?s2"
    "st_endpoint_probe_participants_by_hour (sync_memberships ?s4) = st_endpoint_probe_participants_by_hour ?s2"
    "st_user_global_weights (sync_memberships ?s4) = bt_retain (\<lambda>k _. bt_contains_key (st_users ?s1) k) (st_user_global_weights ?s2)"
    "st_node_weight_policies (sync_memberships ?s4) = bt_retain (\<lambda>k _. bt_contains_key (st_nodes ?s1) k) (st_node_weight_policies ?s2)"
    by (simp_all add: weights_kept_def same normalize_user_global_weights_def normalize_node_weight_policies_def)
  have probes: "probes_known (sync_memberships ?s4)"
    using prune_known [of ?s1] unfolding probes_known_def keep same .
  have retained: "keys_sub (bt_retain (\<lambda>k _. bt_contains_key m' k) m) m'" for m :: "(string, 'v) btree_map" and m' :: "(string, 'w) btree_map"
    by (auto simp: keys_sub_def bt_contains_iff bt_get_retain split: option.splits if_splits)
  show ?thesis
    unfolding settled_def repair_state_eq
    by (intro conjI allI impI acc probes) (simp_all only: keep retained, erule drop_public_domain_none)
qed

section \<open>Local records\<close>

definition ip_settled :: "string btree_set \<Rightarrow> ip_usage \<Rightarrow> bool" where
  "ip_settled allowed u =
     (iu_schema_version u = INBOUND_IP_USAGE_SCHEMA_VERSION \<and> iu_minutes_window u = MINUTES_WINDOW \<and>
      memberships_ok (iu_memberships u) \<and>
      (\<forall>k m. bt_get (iu_memberships u) k = Some m \<longrightarrow> k \<in> bs_set allowed))"

lemma normalize_record_id:
  assumes "record_ok r"
  shows "normalize_record r = r"
proof -
  from assms have "of_nat (count_bitmap_bits (ir_bitmap r)) = (of_nat (unat (ir_minutes r)) :: u32)" by (simp add: record_ok_def)
  also have "\<dots> = ir_minutes r" by simp
  finally show ?thesis using assms by (simp add: record_ok_def normalize_record_def Let_def)
qed

lemma normalize_membership_id: "ips_ok (im_ips m) \<Longrightarrow> normalize_membership m = (False, m)"
proof -
  assume ok: "ips_ok (im_ips m)"
  have rec: "normalize_record r = r" "ir_minutes r \<noteq> 0" if "bt_get (im_ips m) ip = Some r" for ip r
    using ok that by (auto simp: ips_ok_def normalize_record_id record_ok_def)
  then have "bt_map_values (\<lambda>_. normalize_record) (im_ips m) = im_ips m" "bt_retain (\<lambda>_ r. ir_minutes r \<noteq> 0) (im_ips m) = im_ips m"
    by (auto intro!: bt_map_values_id bt_retain_all)
  with rec show "normalize_membership m = (False, m)" by (auto simp: normalize_membership_def Let_def list_ex_values)
qed

lemma ip_normalize_settled: "ip_settled allowed u \<Longrightarrow> normalize_ip_usage allowed u = (False, u)"
proof -
  assume ok: "ip_settled allowed u"
  have mem: "normalize_membership m = (False, m)" "\<not> bt_is_empty (im_ips m)" if "bt_get (iu_memberships u) k = Some m" for k m
    using ok that by (auto simp: ip_settled_def memberships_ok_def normalize_membership_id)
  have kept: "bt_retain (\<lambda>k _. bs_contains allowed k) (iu_memberships u) = iu_memberships u"
    using ok by (intro bt_retain_all) (auto simp: ip_settled_def)
  have vals: "bt_map_values (\<lambda>_ m. snd (normalize_membership m)) (iu_memberships u) = iu_memberships u"
    by (rule bt_map_values_id) (simp add: mem)
  have nonempty: "bt_retain (\<lambda>_ m. \<not> bt_is_empty (im_ips m)) (iu_memberships u) = iu_memberships u"
    by (rule bt_retain_all) (rule mem)
  show "normalize_ip_usage allowed u = (False, u)"
    using ok mem unfolding normalize_ip_usage_def Let_def
    by (auto simp: ip_settled_def list_ex_values kept vals nonempty simp del: bs_contains_iff)
qed

lemma ip_normalize_establishes: "ip_settled allowed (snd (normalize_ip_usage allowed u))"
  using normalize_usage_ok [of allowed u] unfolding ip_settled_def
  by (auto simp: normalize_ip_usage_def Let_def bt_get_retain bt_get_map_values split: option.splits if_splits)

definition tcp_settled :: "(string, tcp_endpoint_view) btree_map \<Rightarrow> tcp_usage \<Rightarrow> bool" where
  "tcp_settled allowed u =
     (tu_schema_version u = TCP_CONNECTION_USAGE_SCHEMA_VERSION \<and> tu_minutes_window u = MINUTES_WINDOW \<and>
      full_counts (tu_endpoints u) \<and>
      (\<forall>k r. bt_get (tu_endpoints u) k = Some r \<longrightarrow> (\<exists>v. bt_get allowed k = Some v \<and> follow_view v r = r)))"

lemma tcp_normalize_settled: "tcp_settled allowed u \<Longrightarrow> tcp_normalize allowed u = (False, u)"
proof -
  assume ok: "tcp_settled allowed u"
  have rec: "\<exists>v. bt_get allowed k = Some v \<and> follow_view v r = r" "length (te_counts r) = MINUTES_WINDOW"
    if "bt_get (tu_endpoints u) k = Some r" for k r
    using ok that by (auto simp: tcp_settled_def full_counts_def)
  have kept: "bt_retain (\<lambda>k _. bt_contains_key allowed k) (tu_endpoints u) = tu_endpoints u"
    by (intro bt_retain_all) (auto simp: bt_contains_iff dest: rec(1))
  have vals: "bt_map_values (\<lambda>k r. let r = r\<lparr>te_counts := normalize_counts (te_counts r)\<rparr>
            in case bt_get allowed k of None \<Rightarrow> r | Some v \<Rightarrow> follow_view v r) (tu_endpoints u) = tu_endpoints u"
  proof (rule bt_map_values_id)
    fix k r assume r: "bt_get (tu_endpoints u) k = Some r"
    from rec [OF r] show "(let r = r\<lparr>te_counts := normalize_counts (te_counts r)\<rparr>
            in case bt_get allowed k of None \<Rightarrow> r | Some v \<Rightarrow> follow_view v r) = r" by auto
  qed
  show "tcp_normalize allowed u = (False, u)"
    using ok rec unfolding tcp_normalize_def Let_def kept vals [unfolded Let_def]
    by (auto simp: tcp_settled_def list_ex_entries dest: rec(1))
qed

lemma tcp_normalize_establishes: "tcp_settled allowed (snd (tcp_normalize allowed u))"
  unfolding tcp_settled_def full_counts_def
  by (auto simp: tcp_normalize_def Let_def follow_view_def bt_get_retain bt_get_map_values bt_contains_iff
      split: option.splits if_splits)

lemma read_usage_kept:
  assumes "read_usage allowed d = Inr (u, migrated)"
  shows "us_schema_version u = USAGE_SCHEMA_VERSION" "\<And>k e. bt_get (us_memberships u) k = Some e \<Longrightarrow> k \<in> bs_set allowed"
  using assms
  by (auto simp: read_usage_def empty_usage_def Let_def bt_get_retain and_then_Inr_iff split: option.splits if_splits)

lemma read_usage_settled:
  assumes "us_schema_version u = USAGE_SCHEMA_VERSION" "\<And>k e. bt_get (us_memberships u) k = Some e \<Longrightarrow> k \<in> bs_set allowed"
  shows "read_usage allowed (Some u) = Inr (u, False)"
proof -
  have "bt_retain (\<lambda>k _. bs_contains allowed k) (us_memberships u) = us_memberships u"
    using assms(2) by (intro bt_retain_all) auto
  with assms(1) show ?thesis by (simp add: read_usage_def Let_def del: bs_contains_iff)
qed

section \<open>Opening again\<close>

lemma drop_keeps: "st_schema_version (snd (drop_public_domain s)) = st_schema_version s"
  by (simp add: drop_public_domain_def)

lemma prune_keeps: "st_schema_version (snd (prune_deleted_nodes s)) = st_schema_version s"
  by (simp add: prune_deleted_nodes_def Let_def)

lemma repair_schema: "st_schema_version (snd (repair_state s)) = st_schema_version s"
  by (simp add: repair_state_eq weights_kept_def drop_keeps prune_keeps)

lemma migrate_Inr:
  assumes "migrate_state s = Inr (s', m)"
  shows "st_endpoints s' = st_endpoints s" "st_schema_version s' = SCHEMA_VERSION" "\<not> m \<Longrightarrow> s' = s"
  using assms
  by (auto simp: migrate_state_def and_then_Inr_iff migrate_v12_to_v13_def migrate_v11_to_v12_def migrate_v10_to_v11_def Let_def
      split: if_splits)

definition stored_keyed :: "snapshots \<Rightarrow> bool" where
  "stored_keyed d = (case sd_state d of None \<Rightarrow> True | Some s \<Rightarrow> endpoints_keyed s)"

lemma read_state_settled:
  assumes "stored_keyed d" "read_state boot d = Inr (s, n, m)"
  shows "settled s" "st_schema_version s = SCHEMA_VERSION"
proof -
  from assms(2) obtain s0 where s0: "s = snd (repair_state s0)" "st_schema_version s0 = SCHEMA_VERSION"
    and "sd_state d = None \<and> s0 = initial_state boot \<or> (\<exists>s1 m1. sd_state d = Some s1 \<and> migrate_state s1 = Inr (s0, m1))"
    by (auto simp: read_state_def and_then_Inr_iff Let_def split: option.splits if_splits prod.splits) (metis snd_conv)+
  with assms(1) have "endpoints_keyed s0"
    by (auto simp: stored_keyed_def endpoints_keyed_def initial_state_def empty_state_def dest: migrate_Inr(1))
  with s0 show "settled s" "st_schema_version s = SCHEMA_VERSION" by (simp_all add: repair_establishes repair_schema)
qed

lemma read_state_again:
  assumes "stored_keyed d" "read_state boot d = Inr (s, n, m)"
    and "sd_state d' = Some s \<or> \<not> n \<and> \<not> m \<and> sd_state d' = sd_state d"
  shows "read_state boot d' = Inr (s, False, False)"
proof -
  note ok = read_state_settled [OF assms(1,2)]
  have "sd_state d' = Some s"
  proof (cases "sd_state d' = Some s")
    case False
    with assms(3) have nm: "\<not> n" "\<not> m" "sd_state d' = sd_state d" by blast+
    with assms(2) obtain s0 s1 where d: "sd_state d = Some s0" and mig: "migrate_state s0 = Inr (s1, False)" and rep: "repair_state s1 = (False, s)"
      by (auto simp: read_state_def and_then_Inr_iff Let_def split: option.splits if_splits prod.splits)
    from migrate_Inr(3) [OF mig] repair_flag [OF rep] d nm show ?thesis by simp
  qed
  then show ?thesis
    using ok by (simp add: read_state_def migrate_state_def repair_settled)
qed

lemma save_if_Inr:
  "save_if c save s = (Inr (), s') \<Longrightarrow>
     \<exists>w. s' = s\<lparr>ls_disk := (if c then (ls_disk s)\<lparr>sd_state := Some (ls_state s)\<rparr> else ls_disk s), ls_writes := w\<rparr>"
  "save_if c save_usage s = (Inr (), s') \<Longrightarrow>
     \<exists>w. s' = s\<lparr>ls_disk := (if c then (ls_disk s)\<lparr>sd_usage := Some (ls_usage s)\<rparr> else ls_disk s), ls_writes := w\<rparr>"
  "save_if c save_inbound_ip_usage s = (Inr (), s') \<Longrightarrow>
     \<exists>w. s' = s\<lparr>ls_disk := (if c then (ls_disk s)\<lparr>sd_inbound_ip_usage := Some (ls_inbound_ip_usage s)\<rparr> else ls_disk s), ls_writes := w\<rparr>"
  "save_if c save_tcp_connection_usage s = (Inr (), s') \<Longrightarrow>
     \<exists>w. s' = s\<lparr>ls_disk := (if c then (ls_disk s)\<lparr>sd_tcp_connection_usage := Some (ls_tcp_connection_usage s)\<rparr> else ls_disk s), ls_writes := w\<rparr>"
  by (cases c; cases "ls_writes s"; auto simp: save_if_def save_def save_usage_def save_inbound_ip_usage_def
      save_tcp_connection_usage_def write_history_snapshot_def split: bool.splits intro: exI [of _ "ls_writes s"])+

lemma load_Inr:
  assumes "load_or_init boot d w = Inr (Inr (), st)"
  obtains n m um ipm tm w1 where
    "read_state boot d = Inr (ls_state st, n, m)"
    "read_usage (allowed_membership_keys (ls_state st)) (sd_usage d) = Inr (ls_usage st, um)"
    "normalize_ip_usage (allowed_membership_keys (ls_state st))
       (case sd_inbound_ip_usage d of None \<Rightarrow> default_ip_usage | Some u \<Rightarrow> u) = (ipm, ls_inbound_ip_usage st)"
    "tcp_normalize (allowed_tcp_endpoints (ls_state st))
       (case sd_tcp_connection_usage d of None \<Rightarrow> default_tcp_usage | Some u \<Rightarrow> u) = (tm, ls_tcp_connection_usage st)"
    "ls_disk st = \<lparr>sd_state = (if n \<or> m \<or> um then Some (ls_state st) else sd_state d),
       sd_usage = (if um then Some (ls_usage st) else sd_usage d),
       sd_inbound_ip_usage = (if ipm then Some (ls_inbound_ip_usage st) else sd_inbound_ip_usage d),
       sd_tcp_connection_usage = (if tm then Some (ls_tcp_connection_usage st) else sd_tcp_connection_usage d)\<rparr>"
proof -
  from assms obtain a where "read_state boot d = Inr a"
    unfolding load_or_init_def and_then_Inr_iff by blast
  then obtain s n m where rs: "read_state boot d = Inr (s, n, m)" by (metis prod_cases3)
  from assms obtain b where "read_usage (allowed_membership_keys s) (sd_usage d) = Inr b"
    unfolding load_or_init_def rs and_then_simps prod.case Let_def and_then_Inr_iff by blast
  then obtain u um where ru: "read_usage (allowed_membership_keys s) (sd_usage d) = Inr (u, um)" by (metis surj_pair)
  obtain ipm ip where ip: "normalize_ip_usage (allowed_membership_keys s)
       (case sd_inbound_ip_usage d of None \<Rightarrow> default_ip_usage | Some u \<Rightarrow> u) = (ipm, ip)" by (metis surj_pair)
  obtain tm tcp where tcp: "tcp_normalize (allowed_tcp_endpoints s)
       (case sd_tcp_connection_usage d of None \<Rightarrow> default_tcp_usage | Some u \<Rightarrow> u) = (tm, tcp)" by (metis surj_pair)
  let ?st = "\<lparr>ls_state = s, ls_usage = u, ls_inbound_ip_usage = ip, ls_tcp_connection_usage = tcp, ls_disk = d, ls_writes = w\<rparr>"
  from assms have "then_do (save_if (n \<or> m \<or> um) save) (\<lambda>_. then_do (save_if um save_usage)
      (\<lambda>_. then_do (save_if ipm save_inbound_ip_usage) (\<lambda>_. save_if tm save_tcp_connection_usage))) ?st = (Inr (), st)"
    unfolding load_or_init_def Let_def rs ru ip tcp and_then_simps prod.case by simp
  then obtain s1 s2 s3 where saves: "save_if (n \<or> m \<or> um) save ?st = (Inr (), s1)" "save_if um save_usage s1 = (Inr (), s2)"
      "save_if ipm save_inbound_ip_usage s2 = (Inr (), s3)" "save_if tm save_tcp_connection_usage s3 = (Inr (), st)"
    unfolding then_do_Inr by (metis (full_types) old.unit.exhaust)
  from save_if_Inr(1) [OF saves(1)] save_if_Inr(2) [OF saves(2)] save_if_Inr(3) [OF saves(3)] save_if_Inr(4) [OF saves(4)]
  have mem: "ls_state st = s" "ls_usage st = u" "ls_inbound_ip_usage st = ip" "ls_tcp_connection_usage st = tcp"
    and disk: "ls_disk st = \<lparr>sd_state = (if n \<or> m \<or> um then Some s else sd_state d), sd_usage = (if um then Some u else sd_usage d),
       sd_inbound_ip_usage = (if ipm then Some ip else sd_inbound_ip_usage d),
       sd_tcp_connection_usage = (if tm then Some tcp else sd_tcp_connection_usage d)\<rparr>"
    by (cases d; auto)+
  show thesis using that [of n m um ipm tm] rs ru ip tcp disk by (simp add: mem)
qed

text \<open>
  C34: Opening settles the store, whatever was stored, provided the stored endpoints are keyed by their ids. The
  access index agrees with endpoints, users and automatic assignment, weights and policies belong to users and nodes
  that exist, probe tracking names only existing nodes, obsolete metadata is gone; usage is kept only for
  memberships that exist, the bitmaps and counters of the two minute windows have their shape and belong to existing
  memberships and endpoints. Opening the snapshots that the opening left gives the same store and writes nothing.
\<close>
theorem open_settles:
  assumes "stored_keyed d" "load_or_init boot d w = Inr (Inr (), st)"
  shows "settled (ls_state st) \<and> st_schema_version (ls_state st) = SCHEMA_VERSION \<and>
    (\<forall>k e. bt_get (us_memberships (ls_usage st)) k = Some e \<longrightarrow> k \<in> bs_set (allowed_membership_keys (ls_state st))) \<and>
    ip_settled (allowed_membership_keys (ls_state st)) (ls_inbound_ip_usage st) \<and>
    tcp_settled (allowed_tcp_endpoints (ls_state st)) (ls_tcp_connection_usage st) \<and>
    load_or_init boot (ls_disk st) w' = Inr (Inr (), st\<lparr>ls_writes := w'\<rparr>)"
proof -
  let ?s = "ls_state st" and ?d = "ls_disk st"
  let ?keys = "allowed_membership_keys ?s" and ?eps = "allowed_tcp_endpoints ?s"
  from assms(2) obtain n m um ipm tm where
    rs: "read_state boot d = Inr (?s, n, m)" and ru: "read_usage ?keys (sd_usage d) = Inr (ls_usage st, um)" and
    ip: "normalize_ip_usage ?keys (case sd_inbound_ip_usage d of None \<Rightarrow> default_ip_usage | Some u \<Rightarrow> u) = (ipm, ls_inbound_ip_usage st)" and
    tcp: "tcp_normalize ?eps (case sd_tcp_connection_usage d of None \<Rightarrow> default_tcp_usage | Some u \<Rightarrow> u) = (tm, ls_tcp_connection_usage st)" and
    disk: "?d = \<lparr>sd_state = (if n \<or> m \<or> um then Some ?s else sd_state d), sd_usage = (if um then Some (ls_usage st) else sd_usage d),
       sd_inbound_ip_usage = (if ipm then Some (ls_inbound_ip_usage st) else sd_inbound_ip_usage d),
       sd_tcp_connection_usage = (if tm then Some (ls_tcp_connection_usage st) else sd_tcp_connection_usage d)\<rparr>"
    by (rule load_Inr)
  have ip_ok: "ip_settled ?keys (ls_inbound_ip_usage st)" using ip_normalize_establishes [of ?keys] ip by (metis snd_conv)
  have tcp_ok: "tcp_settled ?eps (ls_tcp_connection_usage st)" using tcp_normalize_establishes [of ?eps] tcp by (metis snd_conv)
  have rs': "read_state boot ?d = Inr (?s, False, False)"
    by (rule read_state_again [OF assms(1) rs]) (simp add: disk)
  have ru': "read_usage ?keys (sd_usage ?d) = Inr (ls_usage st, False)"
  proof (cases um)
    case True
    then show ?thesis using read_usage_settled [OF read_usage_kept [OF ru]] by (simp add: disk)
  qed (use ru in \<open>simp add: disk\<close>)
  have ip': "normalize_ip_usage ?keys (case sd_inbound_ip_usage ?d of None \<Rightarrow> default_ip_usage | Some u \<Rightarrow> u) = (False, ls_inbound_ip_usage st)"
    by (cases ipm) (use ip ip_normalize_settled [OF ip_ok] in \<open>simp_all add: disk\<close>)
  have tcp': "tcp_normalize ?eps (case sd_tcp_connection_usage ?d of None \<Rightarrow> default_tcp_usage | Some u \<Rightarrow> u) = (False, ls_tcp_connection_usage st)"
    by (cases tm) (use tcp tcp_normalize_settled [OF tcp_ok] in \<open>simp_all add: disk\<close>)
  have "load_or_init boot ?d w' = Inr (Inr (), st\<lparr>ls_writes := w'\<rparr>)"
    unfolding load_or_init_def rs' and_then_simps prod.case Let_def ru' ip' tcp' by (simp add: save_if_def then_do_def)
  with read_state_settled [OF assms(1) rs] read_usage_kept(2) [OF ru] ip_ok tcp_ok show ?thesis by blast
qed

lemma saves_succeed:
  assumes "ls_writes s = []"
  shows "\<exists>s'. save_if c save s = (Inr (), s') \<and> ls_writes s' = []" "\<exists>s'. save_if c save_usage s = (Inr (), s') \<and> ls_writes s' = []"
    "\<exists>s'. save_if c save_inbound_ip_usage s = (Inr (), s') \<and> ls_writes s' = []"
    "\<exists>s'. save_if c save_tcp_connection_usage s = (Inr (), s') \<and> ls_writes s' = []"
  using assms by (simp_all add: save_if_def save_def save_usage_def save_inbound_ip_usage_def save_tcp_connection_usage_def
      write_history_snapshot_def)

lemma load_succeeds:
  assumes "read_state boot d = Inr (s, n, m)" "read_usage (allowed_membership_keys s) (sd_usage d) = Inr (u, um)"
  shows "\<exists>st. load_or_init boot d [] = Inr (Inr (), st)"
proof -
  have chain: "\<exists>st'. then_do (save_if a save) (\<lambda>_. then_do (save_if b save_usage) (\<lambda>_. then_do (save_if c save_inbound_ip_usage)
      (\<lambda>_. save_if e save_tcp_connection_usage))) st = (Inr (), st')" if "ls_writes st = []" for a b c e and st :: local_store
  proof -
    from saves_succeed(1) [OF that] obtain s1 where s1: "save_if a save st = (Inr (), s1)" "ls_writes s1 = []" by blast
    from saves_succeed(2) [OF s1(2)] obtain s2 where s2: "save_if b save_usage s1 = (Inr (), s2)" "ls_writes s2 = []" by blast
    from saves_succeed(3) [OF s2(2)] obtain s3 where s3: "save_if c save_inbound_ip_usage s2 = (Inr (), s3)" "ls_writes s3 = []" by blast
    from saves_succeed(4) [OF s3(2)] obtain s4 where s4: "save_if e save_tcp_connection_usage s3 = (Inr (), s4)" by blast
    show ?thesis by (rule exI [of _ s4]) (simp only: then_do_simps s1 s2 s3 s4)
  qed
  show ?thesis
    unfolding load_or_init_def assms(1) and_then_simps Let_def case_prod_beta fst_conv snd_conv assms(2) sum.inject
    by (rule chain) simp
qed

definition no_snapshots :: snapshots where
  "no_snapshots = \<lparr>sd_state = None, sd_usage = None, sd_inbound_ip_usage = None, sd_tcp_connection_usage = None\<rparr>"

theorem open_settles_witness:
  "\<exists>st. load_or_init (sample_node ''n1'') no_snapshots [] = Inr (Inr (), st) \<and> settled (ls_state st) \<and>
     load_or_init (sample_node ''n1'') (ls_disk st) [] = Inr (Inr (), st\<lparr>ls_writes := []\<rparr>)"
proof -
  obtain c s where rep: "repair_state (initial_state (sample_node ''n1'')) = (c, s)" by (metis surj_pair)
  have rs: "read_state (sample_node ''n1'') no_snapshots = Inr (s, True, c)"
  proof -
    have "st_schema_version (initial_state (sample_node ''n1'')) = SCHEMA_VERSION" by (simp add: initial_state_def empty_state_def)
    then show ?thesis by (simp add: read_state_def no_snapshots_def rep)
  qed
  obtain u um where ru: "read_usage (allowed_membership_keys s) (sd_usage no_snapshots) = Inr (u, um)"
    by (simp add: read_usage_def no_snapshots_def Let_def)
  from load_succeeds [OF rs ru] obtain st where st: "load_or_init (sample_node ''n1'') no_snapshots [] = Inr (Inr (), st)" by blast
  have "stored_keyed no_snapshots" by (simp add: stored_keyed_def no_snapshots_def)
  from open_settles [OF this st, of "[]"] st show ?thesis by blast
qed

text \<open>A state that keeps the invariant loses nothing but obsolete metadata and probe samples of unknown nodes.\<close>

lemma reopened_state:
  assumes "state_ok x s" "st_schema_version s = SCHEMA_VERSION" "sd_state d = Some s"
  shows "\<exists>m. read_state boot d = Inr (snd (prune_deleted_nodes (snd (drop_public_domain s))), False, m)"
proof -
  let ?s1 = "snd (drop_public_domain s)"
  let ?s2 = "snd (prune_deleted_nodes ?s1)"
  have same: "st_endpoints ?s2 = st_endpoints ?s1" "st_nodes ?s2 = st_nodes s" "st_users ?s2 = st_users s"
    "st_user_global_weights ?s2 = st_user_global_weights s" "st_node_weight_policies ?s2 = st_node_weight_policies s"
    "st_user_auto_assign_endpoint_kinds ?s2 = st_user_auto_assign_endpoint_kinds ?s1"
    "st_node_user_endpoint_memberships ?s2 = st_node_user_endpoint_memberships ?s1"  "st_users ?s1 = st_users s"
    by (simp_all add: prune_deleted_nodes_def drop_public_domain_def Let_def)
  from assms(1) have ok: "refs_ok s" "access_ok s" by (simp_all add: state_ok_def)
  have "access_ok ?s1"
    unfolding drop_public_domain_def snd_conv
    by (rule access_ok_same [OF _ ok(2)]) (auto simp: same_identity_def bt_get_map_values option.rel_map intro: option.rel_refl)
  then have "access_ok ?s2" by (subst access_cong [of ?s2 ?s1]) (simp_all add: same)
  note fixed = sync_id [OF this]
  have "weights_kept ?s2 = ?s2"
  proof -
    have "normalize_user_global_weights ?s2 (st_user_global_weights ?s2) = st_user_global_weights ?s2"
      "normalize_node_weight_policies ?s2 (st_node_weight_policies ?s2) = st_node_weight_policies ?s2"
      using ok(1) unfolding normalize_user_global_weights_def normalize_node_weight_policies_def same
      by (auto simp: refs_ok_def keys_sub_def bt_contains_iff intro!: bt_retain_all)
    then show ?thesis by (simp add: weights_kept_def)
  qed
  with fixed have "snd (repair_state s) = ?s2" by (simp add: repair_state_eq)
  with assms(2,3) have "read_state boot d = Inr (?s2, False, fst (repair_state s))"
    unfolding read_state_def migrate_state_def by (simp add: case_prod_beta)
  then show ?thesis by blast
qed

end
