(* ===== verification/Xp_Revision.thy ===== *)
theory Xp_Revision
  imports Xp_Machine
begin

text \<open>
  The resource revision of the state counts local accesses, so replicas do not agree on it. No command reads it:
  the result of a command and everything else it does to the state are independent of the revision.
\<close>

abbreviation at_rev :: "u64 \<Rightarrow> state \<Rightarrow> state" where
  "at_rev r s \<equiv> s\<lparr>st_mihomo_resource_revision := r\<rparr>"

named_theorems rev_simps

lemma rev_commute [rev_simps]:
  "st_schema_version_update f1 (at_rev r s) = at_rev r (st_schema_version_update f1 s)"
  "st_mihomo_resource_allow_private_targets_update f2 (at_rev r s) = at_rev r (st_mihomo_resource_allow_private_targets_update f2 s)"
  "st_nodes_update f3 (at_rev r s) = at_rev r (st_nodes_update f3 s)"
  "st_join_sessions_update f4 (at_rev r s) = at_rev r (st_join_sessions_update f4 s)"
  "st_membership_operations_update f5 (at_rev r s) = at_rev r (st_membership_operations_update f5 s)"
  "st_endpoints_update f6 (at_rev r s) = at_rev r (st_endpoints_update f6 s)"
  "st_endpoint_probe_history_update f7 (at_rev r s) = at_rev r (st_endpoint_probe_history_update f7 s)"
  "st_endpoint_probe_participants_by_hour_update f8 (at_rev r s) = at_rev r (st_endpoint_probe_participants_by_hour_update f8 s)"
  "st_node_egress_probes_update f9 (at_rev r s) = at_rev r (st_node_egress_probes_update f9 s)"
  "st_users_update f10 (at_rev r s) = at_rev r (st_users_update f10 s)"
  "st_reality_domains_update f11 (at_rev r s) = at_rev r (st_reality_domains_update f11 s)"
  "st_user_node_quotas_update f12 (at_rev r s) = at_rev r (st_user_node_quotas_update f12 s)"
  "st_user_node_weights_update f13 (at_rev r s) = at_rev r (st_user_node_weights_update f13 s)"
  "st_user_global_weights_update f14 (at_rev r s) = at_rev r (st_user_global_weights_update f14 s)"
  "st_node_weight_policies_update f15 (at_rev r s) = at_rev r (st_node_weight_policies_update f15 s)"
  "st_node_user_endpoint_memberships_update f16 (at_rev r s) = at_rev r (st_node_user_endpoint_memberships_update f16 s)"
  "st_user_auto_assign_endpoint_kinds_update f17 (at_rev r s) = at_rev r (st_user_auto_assign_endpoint_kinds_update f17 s)"
  "st_user_mihomo_profiles_update f18 (at_rev r s) = at_rev r (st_user_mihomo_profiles_update f18 s)"
  "st_mihomo_delivery_mode_update f19 (at_rev r s) = at_rev r (st_mihomo_delivery_mode_update f19 s)"
  "st_repository_membership_update f20 (at_rev r s) = at_rev r (st_repository_membership_update f20 s)"
  "st_reverse_mesh_epoch_update f21 (at_rev r s) = at_rev r (st_reverse_mesh_epoch_update f21 s)"
  "st_reverse_mesh_assignments_update f22 (at_rev r s) = at_rev r (st_reverse_mesh_assignments_update f22 s)"
  "st_reverse_mesh_generation_counters_update f23 (at_rev r s) = at_rev r (st_reverse_mesh_generation_counters_update f23 s)"
  "st_geo_db_update_settings_compat_update f24 (at_rev r s) = at_rev r (st_geo_db_update_settings_compat_update f24 s)"
  by (simp_all add: state.equality)

lemma rev_reads [rev_simps]:
  "validate_session (at_rev r s) j = validate_session s j"
  "endpoints_on n (at_rev r s) = endpoints_on n s"
  "check_nodes_exist (at_rev r s) ns = check_nodes_exist s ns"
  "check_endpoints_exist (at_rev r s) ids = check_endpoints_exist s ids"
  "normalize_memberships (at_rev r s) = normalize_memberships s"
  "normalize_auto_assign (at_rev r s) = normalize_auto_assign s"
  "active_membership_operation (at_rev r s) = active_membership_operation s"
  "infer_auto_assign_kinds_for_user (at_rev r s) = infer_auto_assign_kinds_for_user s"
  "user_endpoint_ids u (at_rev r s) = user_endpoint_ids u s"
  by (simp_all add: fun_eq_iff validate_session_def endpoints_on_def check_nodes_exist_def check_endpoints_exist_def
      normalize_memberships_def normalize_auto_assign_def active_membership_operation_def infer_auto_assign_kinds_for_user_def
      user_endpoint_ids_def cong: if_cong option.case_cong)

lemma rev_build [rev_simps]: "build_memberships (at_rev r s) = build_memberships s"
  by (simp add: build_memberships_def rev_reads cong: if_cong)

lemma rev_sync [rev_simps]: "sync_memberships (at_rev r s) = at_rev r (sync_memberships s)"
  by (simp add: sync_memberships_def Let_def rev_reads rev_commute rev_build)

lemma rev_insert [rev_simps]: "insert_access (at_rev r s) u ids ms = insert_access s u ids ms"
  by (induction s u ids ms rule: insert_access.induct) (simp_all split: option.split)

lemma rev_guards [rev_simps]:
  "ensure_endpoint_mutation_is_allowed (at_rev r s) cur nxt = ensure_endpoint_mutation_is_allowed s cur nxt"
  "validate_remove_node_endpoint_snapshot (at_rev r s) op = validate_remove_node_endpoint_snapshot s op"
  by (simp_all add: ensure_endpoint_mutation_is_allowed_def validate_remove_node_endpoint_snapshot_def rev_reads)

lemma rev_updates [rev_simps]:
  "commit_session j (at_rev r s) = at_rev r (commit_session j s)"
  "append_sample h n p (at_rev r s) = at_rev r (append_sample h n p s)"
  by (simp_all add: commit_session_def append_sample_def Let_def rev_commute split: option.split)

lemma rev_remove_refs [rev_simps]: "remove_endpoint_refs es (at_rev r s) = at_rev r (remove_endpoint_refs es s)"
  by (induction es arbitrary: s) (auto simp: remove_endpoint_refs_def Let_def rev_commute)

lemma rev_append [rev_simps]: "fold (append_sample h n) ps (at_rev r s) = at_rev r (fold (append_sample h n) ps s)"
  by (induction ps arbitrary: s) (simp_all add: rev_updates)

lemma rev_forget [rev_simps]: "forget_node n (at_rev r s) = at_rev r (forget_node n s)"
  by (simp add: forget_node_def Let_def rev_commute)

section \<open>Handlers\<close>

text \<open>The outcome of a handler with the revision of its state replaced, and the rules that move this outwards.\<close>

definition shifted :: "u64 \<Rightarrow> ('e + 'a) \<times> state \<Rightarrow> ('e + 'a) \<times> state" where
  "shifted r p = (fst p, at_rev r (snd p))"

lemma shifted_pair [rev_simps]: "(v, at_rev r s) = shifted r (v, s)"
  by (simp add: shifted_def)

lemma shifted_if [rev_simps]: "(if b then shifted r p else shifted r q) = shifted r (if b then p else q)"
  by simp

lemma shifted_try [rev_simps]: "try_in (at_rev r s) res (\<lambda>a. shifted r (k a)) = shifted r (try_in s res k)"
  by (simp add: try_in_def shifted_def split: sum.split)

lemma shifted_cases [rev_simps]:
  "(case o1 of None \<Rightarrow> shifted r p | Some a \<Rightarrow> shifted r (q1 a)) = shifted r (case o1 of None \<Rightarrow> p | Some a \<Rightarrow> q1 a)"
  "(case v of Inl e \<Rightarrow> shifted r (p2 e) | Inr a \<Rightarrow> shifted r (q2 a)) = shifted r (case v of Inl e \<Rightarrow> p2 e | Inr a \<Rightarrow> q2 a)"
  "(case xs of [] \<Rightarrow> shifted r p | y # ys \<Rightarrow> shifted r (q3 y ys)) = shifted r (case xs of [] \<Rightarrow> p | y # ys \<Rightarrow> q3 y ys)"
  by (simp_all split: option.split sum.split list.split)

lemmas rev_congs = if_cong option.case_cong sum.case_cong list.case_cong

definition ignores_rev :: "state_handler \<Rightarrow> bool" where
  "ignores_rev h = (\<forall>r s. h (at_rev r s) = shifted r (h s))"

lemma ignores_revI: "(\<And>r s. h (at_rev r s) = shifted r (h s)) \<Longrightarrow> ignores_rev h"
  by (simp add: ignores_rev_def)

lemma ignores_revD: "ignores_rev h \<Longrightarrow> h (at_rev r s) = shifted r (h s)"
  by (simp add: ignores_rev_def)

lemma rev_upsert_node: "ignores_rev (apply_upsert_node n j)"
  by (rule ignores_revI) (simp add: apply_upsert_node_def Let_def rev_simps cong: rev_congs)

lemma rev_delete_node: "ignores_rev (apply_delete_node k d ids j)"
  by (rule ignores_revI) (simp add: apply_delete_node_def Let_def rev_simps cong: rev_congs)

lemma rev_begin: "ignores_rev (apply_begin_membership_operation op n j)"
proof (rule ignores_revI)
  fix r s
  have inner: "(let (res, nxt) = (case n of None \<Rightarrow> (Inr Applied, at_rev r s) | Some node \<Rightarrow> apply_upsert_node node j (at_rev r s))
       in case res of
            Inl e \<Rightarrow> (Inl e, at_rev r s)
          | Inr _ \<Rightarrow> (Inr (MembershipOperationResult op),
              nxt\<lparr>st_membership_operations := bt_insert (mo_operation_id op) op (st_membership_operations nxt)\<rparr>)) =
     shifted r (let (res, nxt) = (case n of None \<Rightarrow> (Inr Applied, s) | Some node \<Rightarrow> apply_upsert_node node j s)
       in case res of
            Inl e \<Rightarrow> (Inl e, s)
          | Inr _ \<Rightarrow> (Inr (MembershipOperationResult op),
              nxt\<lparr>st_membership_operations := bt_insert (mo_operation_id op) op (st_membership_operations nxt)\<rparr>))"
  proof (cases n)
    case (Some node)
    then show ?thesis
      by (cases "apply_upsert_node node j s")
        (simp add: ignores_revD [OF rev_upsert_node] shifted_def rev_commute split: sum.split)
  qed (simp add: shifted_def rev_commute)
  have sel: "st_membership_operations (at_rev r s) = st_membership_operations s" by simp
  show "apply_begin_membership_operation op n j (at_rev r s) = shifted r (apply_begin_membership_operation op n j s)"
    unfolding apply_begin_membership_operation_def inner sel by (simp only: rev_simps cong: rev_congs)
qed

lemma rev_operations:
  "ignores_rev (apply_transition_membership_operation x op)" "ignores_rev (apply_prune_membership_operations x t)"
  by (rule ignores_revI, simp add: apply_transition_membership_operation_def apply_prune_membership_operations_def
      Let_def rev_simps cong: rev_congs)+

lemma rev_mesh:
  "ignores_rev (apply_set_reverse_mesh_epoch e)" "ignores_rev (apply_upsert_reverse_mesh_assignment a ex)"
  "ignores_rev (apply_delete_reverse_mesh_assignment t ex)"
  by (rule ignores_revI, simp add: apply_set_reverse_mesh_epoch_def apply_upsert_reverse_mesh_assignment_def
      apply_delete_reverse_mesh_assignment_def Let_def rev_simps cong: rev_congs)+

lemma rev_replace_domains: "ignores_rev (replace_domains x ds)"
  by (rule ignores_revI) (simp add: replace_domains_def Let_def rev_simps cong: rev_congs)

lemma rev_patch_disabled [rev_simps]: "patch_disabled (at_rev r s) = patch_disabled s"
  by (simp add: fun_eq_iff patch_disabled_def rev_simps cong: rev_congs)

lemma rev_domains:
  "ignores_rev (apply_create_reality_domain x d)" "ignores_rev (apply_delete_reality_domain x k)"
  "ignores_rev (apply_reorder_reality_domains x ks)" "ignores_rev (apply_patch_reality_domain x k sn dis)"
  by (rule ignores_revI, simp add: apply_create_reality_domain_def apply_delete_reality_domain_def apply_reorder_reality_domains_def
      apply_patch_reality_domain_def Let_def rev_simps ignores_revD [OF rev_replace_domains] cong: rev_congs)+

lemma rev_endpoints:
  "ignores_rev (apply_upsert_endpoint x e ex)" "ignores_rev (apply_delete_endpoint k)"
  by (rule ignores_revI, simp add: apply_upsert_endpoint_def apply_delete_endpoint_def Let_def rev_simps cong: rev_congs)+

lemma rev_access:
  "ignores_rev (apply_replace_user_access u ids)" "ignores_rev (apply_ensure_membership u k)"
  by (rule ignores_revI, simp add: apply_replace_user_access_def apply_ensure_membership_def Let_def rev_simps cong: rev_congs)+

lemma rev_users:
  "ignores_rev (apply_upsert_user u)" "ignores_rev (apply_reset_user_subscription_token k t)"
  "ignores_rev (apply_set_user_node_quota k n l src)" "ignores_rev (apply_set_user_node_weight k n w)"
  "ignores_rev (apply_set_user_global_weight k w)" "ignores_rev (apply_set_node_weight_policy n b)"
  "ignores_rev (apply_bump_user_credential_epoch k)"
  by (rule ignores_revI, simp add: apply_upsert_user_def apply_reset_user_subscription_token_def apply_set_user_node_quota_def
      apply_set_user_node_weight_def apply_set_user_global_weight_def apply_set_node_weight_policy_def
      apply_bump_user_credential_epoch_def Let_def rev_simps cong: rev_congs)+

lemma rev_compat: "ignores_rev (apply_compat_noop x note)"
  by (rule ignores_revI) (simp add: apply_compat_noop_def rev_simps cong: rev_congs split: option.split prod.split)

lemma rev_probes: "ignores_rev (apply_append_endpoint_probe_samples h n ps)"
  by (rule ignores_revI) (simp add: apply_append_endpoint_probe_samples_def Let_def rev_simps)

lemma rev_repository:
  "ignores_rev (apply_replace_repository_membership m)" "ignores_rev (apply_update_repository_member_runtime p)"
  by (rule ignores_revI, simp add: apply_replace_repository_membership_def apply_update_repository_member_runtime_def
      apply_repository_membership_def try_in_def shifted_def Let_def rev_commute split: sum.split option.split prod.split)+

text \<open>The two commands that count up the revision leave it wherever it was, plus one.\<close>

definition same_but_rev :: "state \<Rightarrow> state \<Rightarrow> bool" where
  "same_but_rev s s' = (at_rev 0 s = at_rev 0 s')"

lemma same_but_rev_iff: "same_but_rev s s' \<longleftrightarrow> s' = at_rev (st_mihomo_resource_revision s') s"
proof
  assume "same_but_rev s s'"
  then have "at_rev (st_mihomo_resource_revision s') (at_rev 0 s) = at_rev (st_mihomo_resource_revision s') (at_rev 0 s')"
    by (simp only: same_but_rev_def)
  then show "s' = at_rev (st_mihomo_resource_revision s') s" by simp
next
  assume "s' = at_rev (st_mihomo_resource_revision s') s"
  then have "at_rev 0 s' = at_rev 0 (at_rev (st_mihomo_resource_revision s') s)" by (rule arg_cong)
  then show "same_but_rev s s'" by (simp add: same_but_rev_def)
qed

lemma same_but_rev_refl [simp]: "same_but_rev s s" "same_but_rev (at_rev r s) s" "same_but_rev s (at_rev r s)"
  by (simp_all add: same_but_rev_def)

lemma same_but_rev_trans: "same_but_rev s t \<Longrightarrow> same_but_rev t u \<Longrightarrow> same_but_rev s u"
  by (simp add: same_but_rev_def)

lemma same_but_rev_sym: "same_but_rev s t \<Longrightarrow> same_but_rev t s"
  by (simp add: same_but_rev_def)

lemma rev_user_commands:
  "fst (apply_delete_user k (at_rev r s)) = fst (apply_delete_user k s)"
  "same_but_rev (snd (apply_delete_user k (at_rev r s))) (snd (apply_delete_user k s))"
  "fst (apply_set_user_mihomo_profile k p (at_rev r s)) = fst (apply_set_user_mihomo_profile k p s)"
  "same_but_rev (snd (apply_set_user_mihomo_profile k p (at_rev r s))) (snd (apply_set_user_mihomo_profile k p s))"
  by (simp_all add: apply_delete_user_def apply_set_user_mihomo_profile_def Let_def same_but_rev_def rev_commute rev_sync)

lemma ignores_rev_same:
  assumes "ignores_rev h"
  shows "fst (h (at_rev r s)) = fst (h s) \<and> same_but_rev (snd (h (at_rev r s))) (snd (h s))"
  by (simp add: ignores_revD [OF assms] shifted_def)

lemma command_ignores_rev:
  assumes "same_but_rev s s'"
  shows "fst (apply_command x c s') = fst (apply_command x c s)" "same_but_rev (snd (apply_command x c s)) (snd (apply_command x c s'))"
proof -
  have "fst (apply_command x c (at_rev r s)) = fst (apply_command x c s) \<and>
      same_but_rev (snd (apply_command x c (at_rev r s))) (snd (apply_command x c s))" for r
    by (cases c)
      (simp_all add: rev_user_commands rev_commute same_but_rev_def [of "at_rev _ _"]
        ignores_rev_same rev_upsert_node rev_delete_node rev_begin rev_operations rev_mesh rev_domains
        rev_endpoints rev_access rev_users rev_compat rev_probes rev_repository)
  from this [of "st_mihomo_resource_revision s'"] assms
  show "fst (apply_command x c s') = fst (apply_command x c s)" "same_but_rev (snd (apply_command x c s)) (snd (apply_command x c s'))"
    unfolding same_but_rev_iff [of s s'] by (metis same_but_rev_sym)+
qed

end
