(* ===== verification/Xp_Raft_Machine.thy ===== *)
theory Xp_Raft_Machine
  imports Xp_Store_Open Xp_Revision Xp_Vless_Json
begin

text \<open>
  The state machine of a replica, \<^verbatim>\<open>FileStateMachine\<close> of \<^verbatim>\<open>raft/storage/file.rs\<close>: it applies
  the committed entries of the log to the store, clears the local usage of memberships and endpoints that are gone,
  and keeps the id of the last applied entry and the snapshot in files. The consensus itself is in an external crate:
  its log ids, memberships and entries are data here. Writes of files may fail like those of the store.
\<close>

section \<open>Data\<close>

record log_id =
  li_term :: u64
  li_node_id :: u64
  li_index :: u64

datatype 'm payload =
    Blank
  | Normal command
  | Membership_Change 'm

record 'm entry =
  en_log_id :: log_id
  en_payload :: "'m payload"

datatype reconcile_request =
    RebuildInbound string
  | FullReconcile

datatype client_response =
    OkResponse apply_result
  | ErrResponse nat string domain_error

record 'm machine_meta =
  mm_last_applied :: "log_id option"
  mm_last_membership :: "log_id option \<times> 'm"

record 'm machine =
  sm_store :: local_store
  sm_inner :: "'m machine_meta"
  sm_requests :: "reconcile_request list"
  sm_meta_file :: "'m machine_meta option"
  sm_snapshot_meta_file :: "'m machine_meta option"
  sm_snapshot_data_file :: "state option"
  sm_file_writes :: "bool list"

type_synonym ('m, 'a) machine_op = "('m machine, store_error, 'a) handler"

definition write_file :: "string \<Rightarrow> ('m machine \<Rightarrow> 'm machine) \<Rightarrow> ('m, unit) machine_op" where
  "write_file name put m =
     (case sm_file_writes m of
        False # rest \<Rightarrow> (Inl (Io name), m\<lparr>sm_file_writes := rest\<rparr>)
      | True # rest \<Rightarrow> (Inr (), put (m\<lparr>sm_file_writes := rest\<rparr>))
      | [] \<Rightarrow> (Inr (), put m))"

definition persist_meta :: "('m, unit) machine_op" where
  "persist_meta m = write_file ''state_machine.json'' (sm_meta_file_update (\<lambda>_. Some (sm_inner m))) m"

text \<open>Opening reads the stored position; without one the position is the initial one of the consensus crate.\<close>

definition open_machine :: "'m machine_meta \<Rightarrow> local_store \<Rightarrow> 'm machine \<Rightarrow> 'm machine" where
  "open_machine no_meta st disk =
     disk\<lparr>sm_store := st, sm_inner := (case sm_meta_file disk of None \<Rightarrow> no_meta | Some meta \<Rightarrow> meta), sm_requests := []\<rparr>"

section \<open>Applying a command\<close>

definition rebuild_inbound :: "command \<Rightarrow> state \<Rightarrow> string option" where
  "rebuild_inbound cmd s =
     (case cmd of
        UpsertEndpoint e _ \<Rightarrow>
          (case bt_get (st_endpoints s) (ep_endpoint_id e) of
             Some existing \<Rightarrow>
               if ep_port existing \<noteq> ep_port e \<or> ep_meta existing \<noteq> ep_meta e then Some (ep_endpoint_id e) else None
           | None \<Rightarrow> None)
      | _ \<Rightarrow> None)"

definition membership_keys_where :: "(membership \<Rightarrow> bool) \<Rightarrow> state \<Rightarrow> string btree_set" where
  "membership_keys_where P s =
     bs_of_list (map (\<lambda>m. membership_key (m_user_id m) (m_endpoint_id m))
       (filter P (bs_list (st_node_user_endpoint_memberships s))))"

text \<open>The memberships that a command may end; the command may end others, see \<open>DeleteNode\<close>.\<close>

definition affected_membership_keys :: "command \<Rightarrow> state \<Rightarrow> string btree_set option" where
  "affected_membership_keys cmd s =
     (case cmd of
        ReplaceUserAccess user_id _ \<Rightarrow> Some (membership_keys_where (\<lambda>m. m_user_id m = user_id) s)
      | DeleteUser user_id \<Rightarrow> Some (membership_keys_where (\<lambda>m. m_user_id m = user_id) s)
      | DeleteEndpoint endpoint_id \<Rightarrow> Some (membership_keys_where (\<lambda>m. m_endpoint_id m = endpoint_id) s)
      | _ \<Rightarrow> None)"

fun clear_memberships :: "string list \<Rightarrow> unit store_op" where
  "clear_memberships [] s = (Inr (), s)"
| "clear_memberships (k # ks) s =
     then_do (clear_membership_usage k) (\<lambda>_. then_do (clear_membership_inbound_ip_usage k) (\<lambda>_. clear_memberships ks)) s"

definition lost_membership_keys :: "command \<Rightarrow> state \<Rightarrow> state \<Rightarrow> string list" where
  "lost_membership_keys cmd s s' =
     (case affected_membership_keys cmd s of
        None \<Rightarrow> []
      | Some before \<Rightarrow>
          bs_difference before (case affected_membership_keys cmd s' of None \<Rightarrow> bt_empty | Some after \<Rightarrow> after))"

definition clear_tcp_usage :: "command \<Rightarrow> unit store_op" where
  "clear_tcp_usage cmd =
     (case cmd of
        DeleteEndpoint endpoint_id \<Rightarrow> clear_endpoint_tcp_connection_usage endpoint_id
      | DeleteNode node_id _ _ _ \<Rightarrow> clear_node_tcp_connection_usage node_id
      | UpsertEndpoint _ _ \<Rightarrow> prune_tcp_connection_usage_endpoints
      | UpsertNode _ _ \<Rightarrow> prune_tcp_connection_usage_endpoints
      | _ \<Rightarrow> (\<lambda>s. (Inr (), s)))"

definition http_status :: "domain_error \<Rightarrow> nat" where
  "http_status d =
     (if domain_error_code d = ''not_found'' then 404 else if domain_error_code d = ''conflict'' then 409 else 400)"

text \<open>The outcome, the reconcile requests sent, and the store. An error other than a domain error ends the batch.\<close>

definition apply_normal ::
  "ext \<Rightarrow> command \<Rightarrow> local_store \<Rightarrow> (store_error + client_response) \<times> reconcile_request list \<times> local_store" where
  "apply_normal x cmd st =
     (let rebuild = (case rebuild_inbound cmd (ls_state st) of None \<Rightarrow> [] | Some endpoint_id \<Rightarrow> [RebuildInbound endpoint_id]);
          (r, s') = apply_command x cmd (ls_state (state_mut st));
          st' = (state_mut st)\<lparr>ls_state := s'\<rparr>
      in case r of
           Inr result \<Rightarrow>
             (case save st' of
                (Inl e, st') \<Rightarrow> (Inl e, [], st')
              | (Inr _, st') \<Rightarrow>
                  let (r, st') = then_do (clear_memberships (lost_membership_keys cmd (ls_state st) (ls_state st')))
                        (\<lambda>_. clear_tcp_usage cmd) st'
                  in (case r of Inl e \<Rightarrow> Inl e | Inr _ \<Rightarrow> Inr (OkResponse result), rebuild, st'))
         | Inl (Domain d) \<Rightarrow> (Inr (ErrResponse (http_status d) (domain_error_code d) d), [], st')
         | Inl e \<Rightarrow> (Inl e, [], st'))"

section \<open>Applying entries\<close>

definition apply_entry :: "ext \<Rightarrow> 'm entry \<Rightarrow> ('m, client_response) machine_op" where
  "apply_entry x entry m =
     (let log_id = en_log_id entry;
          applied = sm_inner_update (mm_last_applied_update (\<lambda>_. Some log_id))
      in case en_payload entry of
           Blank \<Rightarrow> (Inr (OkResponse Applied), applied m)
         | Membership_Change c \<Rightarrow>
             (Inr (OkResponse Applied), applied (m\<lparr>sm_inner := (sm_inner m)\<lparr>mm_last_membership := (Some log_id, c)\<rparr>\<rparr>))
         | Normal cmd \<Rightarrow>
             let (r, requests, st) = apply_normal x cmd (sm_store m);
                 m = m\<lparr>sm_store := st, sm_requests := sm_requests m @ requests\<rparr>
             in case r of Inl e \<Rightarrow> (Inl e, m) | Inr resp \<Rightarrow> (Inr resp, applied m))"

fun apply_loop :: "ext \<Rightarrow> 'm entry list \<Rightarrow> ('m, client_response list) machine_op" where
  "apply_loop x [] m = (Inr [], m)"
| "apply_loop x (e # es) m =
     then_do (apply_entry x e) (\<lambda>r. then_do (apply_loop x es) (\<lambda>rs m. (Inr (r # rs), m))) m"

definition apply_entries :: "ext \<Rightarrow> 'm entry list \<Rightarrow> ('m, client_response list) machine_op" where
  "apply_entries x es =
     then_do (apply_loop x es) (\<lambda>rs. then_do persist_meta
       (\<lambda>_ m. (Inr rs, m\<lparr>sm_requests := sm_requests m @ [FullReconcile]\<rparr>)))"

section \<open>Snapshots\<close>

definition build_snapshot :: "('m, 'm machine_meta \<times> state) machine_op" where
  "build_snapshot m =
     (let meta = sm_inner m; state = ls_state (sm_store m)
      in then_do (write_file ''current_meta.json'' (sm_snapshot_meta_file_update (\<lambda>_. Some meta)))
           (\<lambda>_. then_do (write_file ''current_snapshot.json'' (sm_snapshot_data_file_update (\<lambda>_. Some state)))
           (\<lambda>_ m. (Inr (meta, state), m))) m)"

definition get_current_snapshot :: "'m machine \<Rightarrow> store_error + ('m machine_meta \<times> state) option" where
  "get_current_snapshot m =
     (case sm_snapshot_meta_file m of
        None \<Rightarrow> Inr None
      | Some meta \<Rightarrow>
          (case sm_snapshot_data_file m of None \<Rightarrow> Inl (Io ''current_snapshot.json'') | Some s \<Rightarrow> Inr (Some (meta, s))))"

definition migrate_state_value_to_latest :: "state \<Rightarrow> store_error + state" where
  "migrate_state_value_to_latest s =
     and_then (migrate_state s) (\<lambda>(s, _).
       if st_schema_version s \<noteq> SCHEMA_VERSION then Inl (SchemaVersionMismatch SCHEMA_VERSION (st_schema_version s))
       else
         let s = snd (drop_public_domain s);
             s = snd (prune_deleted_nodes s);
             s = s\<lparr>st_node_egress_probes := bt_retain (\<lambda>node_id _. bt_contains_key (st_nodes s) node_id) (st_node_egress_probes s)\<rparr>;
             s = s\<lparr>st_user_global_weights := normalize_user_global_weights s (st_user_global_weights s)\<rparr>;
             s = s\<lparr>st_node_weight_policies := normalize_node_weight_policies s (st_node_weight_policies s)\<rparr>;
             s = s\<lparr>st_user_auto_assign_endpoint_kinds := normalize_auto_assign s (st_user_auto_assign_endpoint_kinds s)\<rparr>;
             s = s\<lparr>st_node_user_endpoint_memberships := normalize_memberships s (st_node_user_endpoint_memberships s)\<rparr>
         in Inr (s\<lparr>st_node_user_endpoint_memberships := build_memberships s\<rparr>))"

text \<open>The two clean-ups of local usage after a snapshot ignore a failed write.\<close>

definition bound_local_usage :: "local_store \<Rightarrow> local_store" where
  "bound_local_usage st =
     (let allowed = allowed_membership_keys (ls_state st);
          st = snd (update_usage (on_memberships (bt_retain (\<lambda>k _. bs_contains allowed k))) st)
      in snd (prune_inbound_ip_usage_memberships st))"

definition install_snapshot :: "'m machine_meta \<Rightarrow> state \<Rightarrow> ('m, unit) machine_op" where
  "install_snapshot meta incoming m =
     (let st = sm_store m
      in if st_reverse_mesh_epoch (ls_state st) \<noteq> 0 \<and> st_schema_version incoming < SCHEMA_VERSION
         then (Inl (Io ''snapshot schema rollback is blocked''), m)
         else try_in m (migrate_state_value_to_latest incoming) (\<lambda>state.
           case save (st\<lparr>ls_state := at_rev (st_mihomo_resource_revision (ls_state st) + 1) state\<rparr>) of
             (Inl e, st) \<Rightarrow> (Inl e, m\<lparr>sm_store := st\<rparr>)
           | (Inr _, st) \<Rightarrow>
               then_do persist_meta
                 (\<lambda>_. then_do (write_file ''current_meta.json'' (sm_snapshot_meta_file_update (\<lambda>_. Some meta)))
                 (\<lambda>_. then_do (write_file ''current_snapshot.json'' (sm_snapshot_data_file_update (\<lambda>_. Some incoming)))
                 (\<lambda>_ m. (Inr (), m\<lparr>sm_requests := sm_requests m @ [FullReconcile]\<rparr>))))
                 (m\<lparr>sm_store := bound_local_usage st, sm_inner := meta\<rparr>)))"

section \<open>What the steps keep of the store\<close>

text \<open>The desired state of the store, in memory and stored.\<close>

abbreviation desired :: "'m machine \<Rightarrow> state" where
  "desired m \<equiv> ls_state (sm_store m)"

abbreviation stored_desired :: "'m machine \<Rightarrow> state option" where
  "stored_desired m \<equiv> sd_state (ls_disk (sm_store m))"

definition keeps_state :: "'a store_op \<Rightarrow> bool" where
  "keeps_state op = (\<forall>s. ls_state (snd (op s)) = ls_state s \<and> sd_state (ls_disk (snd (op s))) = sd_state (ls_disk s))"

lemma keeps_stateD:
  assumes "keeps_state op" "op s = (r, s')"
  shows "ls_state s' = ls_state s" "sd_state (ls_disk s') = sd_state (ls_disk s)"
  using assms by (metis keeps_state_def snd_conv)+

lemma keeps_state_then [intro]:
  assumes "keeps_state h" "\<And>a. keeps_state (f a)"
  shows "keeps_state (then_do h f)"
  unfolding keeps_state_def
proof
  fix s
  obtain r s' where h: "h s = (r, s')" by (metis surj_pair)
  note keep = keeps_stateD [OF assms(1) h]
  show "ls_state (snd (then_do h f s)) = ls_state s \<and> sd_state (ls_disk (snd (then_do h f s))) = sd_state (ls_disk s)"
    by (cases r) (use assms(2) in \<open>simp_all add: h keep keeps_state_def\<close>)
qed

lemma keeps_state_writes [intro]:
  "keeps_state save_usage" "keeps_state save_inbound_ip_usage" "keeps_state save_tcp_connection_usage"
  by (auto simp: keeps_state_def save_usage_def save_inbound_ip_usage_def save_tcp_connection_usage_def
      write_snapshot_keeps write_snapshot_disk)

lemma keeps_state_changes [intro]:
  "keeps_state (change_inbound_ip_usage f)" "keeps_state (change_tcp_connection_usage g)" "keeps_state (update_usage h)"
  using keeps_state_writes
  by (auto simp: keeps_state_def change_inbound_ip_usage_def change_tcp_connection_usage_def update_usage_def Let_def
      split: prod.split)

lemma keeps_state_clears [intro]:
  "keeps_state (clear_membership_usage k)" "keeps_state (clear_membership_inbound_ip_usage k)"
  "keeps_state (clear_endpoint_tcp_connection_usage k)" "keeps_state (clear_node_tcp_connection_usage k)"
  "keeps_state prune_tcp_connection_usage_endpoints" "keeps_state prune_inbound_ip_usage_memberships"
  using keeps_state_changes
  by (auto simp: keeps_state_def clear_membership_usage_def clear_membership_inbound_ip_usage_def
      clear_endpoint_tcp_connection_usage_def clear_node_tcp_connection_usage_def
      prune_tcp_connection_usage_endpoints_def prune_inbound_ip_usage_memberships_def)

lemma keeps_state_memberships [intro]: "keeps_state (clear_memberships ks)"
proof (induction ks)
  case Nil
  then show ?case by (simp add: keeps_state_def)
next
  case (Cons k ks)
  have "clear_memberships (k # ks) =
      then_do (clear_membership_usage k) (\<lambda>_. then_do (clear_membership_inbound_ip_usage k) (\<lambda>_. clear_memberships ks))"
    by (rule ext) simp
  with Cons show ?case by (simp only:) (intro keeps_state_then keeps_state_clears)
qed

lemma keeps_state_tcp [intro]: "keeps_state (clear_tcp_usage c)"
  by (cases c) (auto simp: clear_tcp_usage_def keeps_state_def [of "\<lambda>s. (Inr (), s)"])

lemma save_result: "fst (save s) = Inr () \<Longrightarrow> sd_state (ls_disk (snd (save s))) = Some (ls_state s)"
  "fst (save s) = Inl e \<Longrightarrow> sd_state (ls_disk (snd (save s))) = sd_state (ls_disk s)"
  "ls_state (snd (save s)) = ls_state s"
  by (simp_all add: save_def write_snapshot_keeps write_snapshot_disk)

section \<open>The replica follows the log\<close>

text \<open>
  The response to a command from its outcome on the desired state alone; \<open>None\<close> for the errors that are not domain
  errors, at which a replica stops.
\<close>

fun reply :: "store_error + apply_result \<Rightarrow> client_response option" where
  "reply (Inr r) = Some (OkResponse r)"
| "reply (Inl (Domain d)) = Some (ErrResponse (http_status d) (domain_error_code d) d)"
| "reply (Inl _) = None"

fun commands :: "'m entry list \<Rightarrow> command list" where
  "commands [] = []"
| "commands (e # es) = (case en_payload e of Normal c \<Rightarrow> c # commands es | _ \<Rightarrow> commands es)"

fun replies :: "ext \<Rightarrow> 'm entry list \<Rightarrow> state \<Rightarrow> client_response list option" where
  "replies x [] s = Some []"
| "replies x (e # es) s =
     (case en_payload e of
        Normal c \<Rightarrow>
          (case reply (fst (apply_command x c s)) of
             None \<Rightarrow> None
           | Some r \<Rightarrow> map_option ((#) r) (replies x es (snd (apply_command x c s))))
      | _ \<Rightarrow> map_option ((#) (OkResponse Applied)) (replies x es s))"

definition follow_entry :: "'m entry \<Rightarrow> 'm machine_meta \<Rightarrow> 'm machine_meta" where
  "follow_entry e meta =
     (case en_payload e of
        Membership_Change c \<Rightarrow> \<lparr>mm_last_applied = Some (en_log_id e), mm_last_membership = (Some (en_log_id e), c)\<rparr>
      | _ \<Rightarrow> meta\<lparr>mm_last_applied := Some (en_log_id e)\<rparr>)"

lemma commands_append: "commands (es @ fs) = commands es @ commands fs"
  by (induction es) (auto split: payload.split)

lemma run_log_same:
  "same_but_rev s t \<Longrightarrow> same_but_rev (run_log (apply_command x) cs s) (run_log (apply_command x) cs t)"
  by (induction cs arbitrary: s t) (auto dest: command_ignores_rev(2))

lemma replies_same: "same_but_rev s t \<Longrightarrow> replies x es s = replies x es t"
proof (induction es arbitrary: s t)
  case (Cons e es)
  show ?case
  proof (cases "en_payload e")
    case (Normal c)
    have "replies x es (snd (apply_command x c s)) = replies x es (snd (apply_command x c t))"
      by (rule Cons.IH) (rule command_ignores_rev(2) [OF Cons.prems])
    then show ?thesis using Normal command_ignores_rev(1) [OF Cons.prems, of x c] by (simp cong: option.case_cong)
  qed (use Cons in \<open>auto cong: option.map_cong\<close>)
qed simp

text \<open>The stored desired state is the one in memory, up to the local revision.\<close>

definition durable :: "local_store \<Rightarrow> bool" where
  "durable st = (\<exists>d. sd_state (ls_disk st) = Some d \<and> same_but_rev d (ls_state st))"

lemma state_mut_fields [simp]:
  "ls_state (state_mut st) = at_rev (st_mihomo_resource_revision (ls_state st) + 1) (ls_state st)"
  "ls_disk (state_mut st) = ls_disk st" "ls_writes (state_mut st) = ls_writes st" "ls_usage (state_mut st) = ls_usage st"
  "ls_inbound_ip_usage (state_mut st) = ls_inbound_ip_usage st"
  "ls_tcp_connection_usage (state_mut st) = ls_tcp_connection_usage st"
  by (simp_all add: state_mut_def)

definition after_command :: "ext \<Rightarrow> command \<Rightarrow> local_store \<Rightarrow> local_store" where
  "after_command x c st = (state_mut st)\<lparr>ls_state := snd (apply_command x c (ls_state (state_mut st)))\<rparr>"

lemma after_command_fields:
  "same_but_rev (snd (apply_command x c (ls_state st))) (ls_state (after_command x c st))"
  "ls_disk (after_command x c st) = ls_disk st" "ls_writes (after_command x c st) = ls_writes st"
  "ls_usage (after_command x c st) = ls_usage st"
  "ls_inbound_ip_usage (after_command x c st) = ls_inbound_ip_usage st"
  "ls_tcp_connection_usage (after_command x c st) = ls_tcp_connection_usage st"
  by (simp_all add: after_command_def command_ignores_rev(2))

definition clean_up :: "command \<Rightarrow> state \<Rightarrow> state \<Rightarrow> unit store_op" where
  "clean_up c s s' = then_do (clear_memberships (lost_membership_keys c s s')) (\<lambda>_. clear_tcp_usage c)"

lemma keeps_state_clean_up: "keeps_state (clean_up c s s')"
  unfolding clean_up_def by (intro keeps_state_then keeps_state_memberships keeps_state_tcp)

lemma apply_normal_eq:
  "apply_normal x c st =
     (let rebuild = (case rebuild_inbound c (ls_state st) of None \<Rightarrow> [] | Some endpoint_id \<Rightarrow> [RebuildInbound endpoint_id]);
          st' = after_command x c st
      in case fst (apply_command x c (ls_state st)) of
           Inr result \<Rightarrow>
             (case save st' of
                (Inl e, st') \<Rightarrow> (Inl e, [], st')
              | (Inr _, st') \<Rightarrow>
                  let (r, st') = clean_up c (ls_state st) (ls_state st') st'
                  in (case r of Inl e \<Rightarrow> Inl e | Inr _ \<Rightarrow> Inr (OkResponse result), rebuild, st'))
         | Inl (Domain d) \<Rightarrow> (Inr (ErrResponse (http_status d) (domain_error_code d) d), [], st')
         | Inl e \<Rightarrow> (Inl e, [], st'))"
proof -
  obtain r s' where cmd: "apply_command x c (ls_state (state_mut st)) = (r, s')" by (metis surj_pair)
  have "fst (apply_command x c (ls_state (state_mut st))) = fst (apply_command x c (ls_state st))"
    by (simp add: command_ignores_rev(1) [OF same_but_rev_refl(3)])
  then have r: "fst (apply_command x c (ls_state st)) = r" by (metis cmd fst_conv)
  show ?thesis unfolding apply_normal_def after_command_def clean_up_def Let_def cmd r prod.case snd_conv ..
qed

lemma apply_normal_accepted:
  assumes "fst (apply_command x c (ls_state st)) = Inr result" "save (after_command x c st) = (Inr (), st1)"
    "clean_up c (ls_state st) (ls_state st1) st1 = (r, st2)"
  shows "apply_normal x c st = (case r of Inl e \<Rightarrow> Inl e | Inr _ \<Rightarrow> Inr (OkResponse result),
    (case rebuild_inbound c (ls_state st) of None \<Rightarrow> [] | Some endpoint_id \<Rightarrow> [RebuildInbound endpoint_id]), st2)"
    "ls_state st2 = ls_state (after_command x c st)" "sd_state (ls_disk st2) = Some (ls_state (after_command x c st))"
proof -
  show "apply_normal x c st = (case r of Inl e \<Rightarrow> Inl e | Inr _ \<Rightarrow> Inr (OkResponse result),
    (case rebuild_inbound c (ls_state st) of None \<Rightarrow> [] | Some endpoint_id \<Rightarrow> [RebuildInbound endpoint_id]), st2)"
    by (simp add: apply_normal_eq assms Let_def)
  show "ls_state st2 = ls_state (after_command x c st)" "sd_state (ls_disk st2) = Some (ls_state (after_command x c st))"
    using keeps_stateD [OF keeps_state_clean_up assms(3)] save_result [of "after_command x c st"] by (simp_all add: assms(2))
qed

text \<open>Whatever the outcome the memory follows the command, and the stored state is the old one or the memory.\<close>

lemma apply_normal_state:
  assumes "apply_normal x c st = (r, requests, st')"
  shows "same_but_rev (snd (apply_command x c (ls_state st))) (ls_state st')"
    "sd_state (ls_disk st') = sd_state (ls_disk st) \<or> sd_state (ls_disk st') = Some (ls_state st')"
proof -
  have "ls_state st' = ls_state (after_command x c st) \<and>
      (sd_state (ls_disk st') = sd_state (ls_disk st) \<or> sd_state (ls_disk st') = Some (ls_state st'))"
  proof (cases "fst (apply_command x c (ls_state st))")
    case (Inl e)
    with assms show ?thesis by (cases e) (auto simp: apply_normal_eq Let_def after_command_fields)
  next
    case (Inr result)
    obtain w st1 where save: "save (after_command x c st) = (w, st1)" by (metis surj_pair)
    show ?thesis
    proof (cases w)
      case (Inl e)
      with assms Inr save save_result [of "after_command x c st"] show ?thesis
        by (auto simp: apply_normal_eq Let_def after_command_fields)
    next
      case w: (Inr u)
      obtain r' st2 where clean: "clean_up c (ls_state st) (ls_state st1) st1 = (r', st2)" by (metis surj_pair)
      from save w have "save (after_command x c st) = (Inr (), st1)" by simp
      from apply_normal_accepted [OF Inr this clean] assms show ?thesis by simp
    qed
  qed
  then show "same_but_rev (snd (apply_command x c (ls_state st))) (ls_state st')"
    "sd_state (ls_disk st') = sd_state (ls_disk st) \<or> sd_state (ls_disk st') = Some (ls_state st')"
    using after_command_fields(1) [of x c st] by metis+
qed

lemma apply_normal_reply:
  assumes "apply_normal x c st = (Inr resp, requests, st')"
  shows "reply (fst (apply_command x c (ls_state st))) = Some resp" "durable st \<Longrightarrow> durable st'"
proof -
  have "reply (fst (apply_command x c (ls_state st))) = Some resp \<and> (durable st \<longrightarrow> durable st')"
  proof (cases "fst (apply_command x c (ls_state st))")
    case (Inl e)
    then have "snd (apply_command x c (ls_state st)) = ls_state st"
      by (metis apply_command_atomic prod.collapse)
    then have "same_but_rev (ls_state st) (ls_state (after_command x c st))" by (metis after_command_fields(1))
    with Inl assms show ?thesis
      by (cases e) (auto simp: apply_normal_eq Let_def durable_def after_command_fields intro: same_but_rev_trans)
  next
    case (Inr result)
    obtain w st1 where save: "save (after_command x c st) = (w, st1)" by (metis surj_pair)
    with assms Inr obtain u where w: "w = Inr u" by (cases w) (auto simp: apply_normal_eq Let_def)
    obtain r' st2 where clean: "clean_up c (ls_state st) (ls_state st1) st1 = (r', st2)" by (metis surj_pair)
    from save w have "save (after_command x c st) = (Inr (), st1)" by simp
    from apply_normal_accepted [OF Inr this clean] assms show ?thesis
      by (cases r') (auto simp: durable_def Inr)
  qed
  then show "reply (fst (apply_command x c (ls_state st))) = Some resp" "durable st \<Longrightarrow> durable st'" by simp_all
qed

lemma apply_entry_files:
  assumes "apply_entry x e m = (r, m')"
  shows "sm_meta_file m' = sm_meta_file m" "sm_file_writes m' = sm_file_writes m"
    "sm_snapshot_meta_file m' = sm_snapshot_meta_file m" "sm_snapshot_data_file m' = sm_snapshot_data_file m"
  using assms by (auto simp: apply_entry_def Let_def split: payload.splits prod.splits sum.splits)

lemma apply_entry_Inr:
  assumes "apply_entry x e m = (Inr r, m')"
  shows "replies x [e] (desired m) = Some [r]"
    "same_but_rev (run_log (apply_command x) (commands [e]) (desired m)) (desired m')"
    "sm_inner m' = follow_entry e (sm_inner m)" "durable (sm_store m) \<Longrightarrow> durable (sm_store m')"
proof -
  have "replies x [e] (desired m) = Some [r] \<and>
    same_but_rev (run_log (apply_command x) (commands [e]) (desired m)) (desired m') \<and>
    sm_inner m' = follow_entry e (sm_inner m) \<and> (durable (sm_store m) \<longrightarrow> durable (sm_store m'))"
  proof (cases "en_payload e")
    case (Normal c)
    with assms obtain requests st where st: "apply_normal x c (sm_store m) = (Inr r, requests, st)" "sm_store m' = st"
      "sm_inner m' = (sm_inner m)\<lparr>mm_last_applied := Some (en_log_id e)\<rparr>"
      by (auto simp: apply_entry_def Let_def split: prod.splits sum.splits)
    with Normal apply_normal_state(1) [OF st(1)] apply_normal_reply [OF st(1)] show ?thesis by (simp add: follow_entry_def)
  qed (use assms in \<open>auto simp: apply_entry_def Let_def follow_entry_def\<close>)
  then show "replies x [e] (desired m) = Some [r]"
    "same_but_rev (run_log (apply_command x) (commands [e]) (desired m)) (desired m')"
    "sm_inner m' = follow_entry e (sm_inner m)" "durable (sm_store m) \<Longrightarrow> durable (sm_store m')" by simp_all
qed

lemma replies_Cons:
  "replies x (e # es) s =
     Option.bind (replies x [e] s) (\<lambda>r. map_option ((@) r) (replies x es (run_log (apply_command x) (commands [e]) s)))"
  by (simp split: payload.split option.split add: option.map_comp comp_def cong: option.map_cong)

lemma commands_Cons: "commands (e # es) = commands [e] @ commands es"
  using commands_append [of "[e]" es] by simp

lemma apply_loop_Inr:
  assumes "apply_loop x es m = (Inr rs, m')"
  shows "replies x es (desired m) = Some rs"
    "same_but_rev (run_log (apply_command x) (commands es) (desired m)) (desired m')"
    "sm_inner m' = fold follow_entry es (sm_inner m)" "durable (sm_store m) \<Longrightarrow> durable (sm_store m')"
proof -
  have "replies x es (desired m) = Some rs \<and>
    same_but_rev (run_log (apply_command x) (commands es) (desired m)) (desired m') \<and>
    sm_inner m' = fold follow_entry es (sm_inner m) \<and> (durable (sm_store m) \<longrightarrow> durable (sm_store m'))"
    using assms
  proof (induction es arbitrary: m rs)
    case (Cons e es)
    from Cons.prems obtain r m1 rs' where one: "apply_entry x e m = (Inr r, m1)"
      and rest: "apply_loop x es m1 = (Inr rs', m')" and rs: "rs = r # rs'"
      by (auto simp: then_do_Inr)
    note one' = apply_entry_Inr [OF one] and IH = Cons.IH [OF rest]
    have "replies x es (run_log (apply_command x) (commands [e]) (desired m)) = Some rs'"
      using IH replies_same [OF one'(2)] by metis
    moreover have "same_but_rev (run_log (apply_command x) (commands (e # es)) (desired m)) (desired m')"
      unfolding commands_Cons [of e es] run_log_append using run_log_same [OF one'(2)] IH same_but_rev_trans by blast
    ultimately show ?case
      using one' IH unfolding replies_Cons [of x e es] by (simp add: rs del: replies.simps)
  qed (simp add: replies_same)
  then show "replies x es (desired m) = Some rs"
    "same_but_rev (run_log (apply_command x) (commands es) (desired m)) (desired m')"
    "sm_inner m' = fold follow_entry es (sm_inner m)" "durable (sm_store m) \<Longrightarrow> durable (sm_store m')" by simp_all
qed

lemma then_do_Inl:
  "then_do h f s = (Inl e, s'') \<longleftrightarrow> h s = (Inl e, s'') \<or> (\<exists>a s'. h s = (Inr a, s') \<and> f a s' = (Inl e, s''))"
  by (auto simp: then_do_def split: prod.splits sum.splits)

text \<open>A batch that stops leaves the stored state after some number of its entries.\<close>

lemma apply_entry_Inl:
  assumes "apply_entry x e m = (Inl err, m')" "stored_desired m = Some d" "same_but_rev d (desired m)"
  shows "\<exists>j\<le>1. \<exists>d'. stored_desired m' = Some d' \<and> same_but_rev (run_log (apply_command x) (commands (take j [e])) (desired m)) d'"
proof -
  from assms(1) obtain c requests st where c: "en_payload e = Normal c" "apply_normal x c (sm_store m) = (Inl err, requests, st)"
    "sm_store m' = st"
    by (auto simp: apply_entry_def Let_def split: prod.splits sum.splits payload.splits)
  from apply_normal_state(2) [OF c(2)] show ?thesis
  proof
    assume "sd_state (ls_disk st) = stored_desired m"
    with c assms(2,3) show ?thesis by (intro exI [of _ 0]) (simp add: same_but_rev_sym)
  next
    assume "sd_state (ls_disk st) = Some (ls_state st)"
    with c apply_normal_state(1) [OF c(2)] show ?thesis by (intro exI [of _ 1]) simp
  qed
qed

lemma apply_loop_files:
  assumes "apply_loop x es m = (r, m')"
  shows "sm_meta_file m' = sm_meta_file m \<and> sm_file_writes m' = sm_file_writes m \<and>
    sm_snapshot_meta_file m' = sm_snapshot_meta_file m \<and> sm_snapshot_data_file m' = sm_snapshot_data_file m"
  using assms
proof (induction es arbitrary: m r m')
  case (Cons e es)
  obtain r1 m1 where one: "apply_entry x e m = (r1, m1)" by (metis surj_pair)
  note files = apply_entry_files [OF one]
  show ?case
  proof (cases r1)
    case (Inl err)
    with Cons.prems one files show ?thesis by simp
  next
    case (Inr a)
    obtain r2 m2 where rest: "apply_loop x es m1 = (r2, m2)" by (metis surj_pair)
    with Cons.prems one Inr have "m' = m2" by (cases r2) simp_all
    with Cons.IH [OF rest] files show ?thesis by simp
  qed
qed simp

lemma apply_loop_Inl:
  assumes "apply_loop x es m = (Inl err, m')" "durable (sm_store m)"
  shows "\<exists>j\<le>length es. \<exists>d. stored_desired m' = Some d \<and>
    same_but_rev (run_log (apply_command x) (commands (take j es)) (desired m)) d"
  using assms
proof (induction es arbitrary: m)
  case (Cons e es)
  from Cons.prems(2) obtain d where d: "stored_desired m = Some d" "same_but_rev d (desired m)" by (auto simp: durable_def)
  from Cons.prems(1) consider "apply_entry x e m = (Inl err, m')"
    | r m1 where "apply_entry x e m = (Inr r, m1)" "apply_loop x es m1 = (Inl err, m')"
    by (auto simp: then_do_Inl)
  then show ?case
  proof cases
    case 1
    from apply_entry_Inl [OF this d] obtain j d' where "j \<le> 1" "stored_desired m' = Some d'"
      "same_but_rev (run_log (apply_command x) (commands (take j [e])) (desired m)) d'" by blast
    moreover from \<open>j \<le> 1\<close> have "take j [e] = take j (e # es)" by (cases j) simp_all
    ultimately show ?thesis by (intro exI [of _ j]) auto
  next
    case (2 r m1)
    note one = apply_entry_Inr [OF 2(1)]
    from Cons.IH [OF 2(2) one(4) [OF Cons.prems(2)]] obtain j d' where j: "j \<le> length es" "stored_desired m' = Some d'"
      "same_but_rev (run_log (apply_command x) (commands (take j es)) (desired m1)) d'" by blast
    have "same_but_rev (run_log (apply_command x) (commands (take (Suc j) (e # es))) (desired m)) d'"
      unfolding take_Suc_Cons commands_Cons [of e "take j es"] run_log_append
      using run_log_same [OF one(2)] j(3) same_but_rev_trans by blast
    with j(1,2) show ?thesis by (intro exI [of _ "Suc j"]) auto
  qed
qed simp

section \<open>Batches\<close>

fun run_batches :: "ext \<Rightarrow> 'm entry list list \<Rightarrow> ('m, client_response list) machine_op" where
  "run_batches x [] m = (Inr [], m)"
| "run_batches x (b # bs) m =
     then_do (apply_entries x b) (\<lambda>rs. then_do (run_batches x bs) (\<lambda>rss m. (Inr (rs @ rss), m))) m"

lemma write_file_Inr:
  assumes "write_file name put m = (Inr u, m')"
  shows "\<exists>w. m' = put (m\<lparr>sm_file_writes := w\<rparr>)"
  using assms by (auto simp: write_file_def split: list.splits bool.splits) (metis machine.surjective machine.update_convs(7))

lemma write_file_Inl:
  assumes "write_file name put m = (Inl e, m')"
  shows "\<exists>w. m' = m\<lparr>sm_file_writes := w\<rparr>"
  using assms by (auto simp: write_file_def split: list.splits bool.splits)

lemma apply_entries_Inr:
  assumes "apply_entries x es m = (Inr rs, m')"
  obtains m1 where "apply_loop x es m = (Inr rs, m1)" "sm_store m' = sm_store m1" "sm_inner m' = sm_inner m1"
    "sm_meta_file m' = Some (sm_inner m1)"
proof -
  from assms obtain m1 m2 where one: "apply_loop x es m = (Inr rs, m1)" and two: "persist_meta m1 = (Inr (), m2)"
    and three: "m' = m2\<lparr>sm_requests := sm_requests m2 @ [FullReconcile]\<rparr>"
    by (auto simp: apply_entries_def then_do_Inr)
  from write_file_Inr [OF two [unfolded persist_meta_def]]
  obtain w where "m2 = sm_meta_file_update (\<lambda>_. Some (sm_inner m1)) (m1\<lparr>sm_file_writes := w\<rparr>)" by blast
  with that [OF one] three show ?thesis by simp
qed

lemma apply_entries_spec:
  assumes "apply_entries x es m = (Inr rs, m')"
  shows "replies x es (desired m) = Some rs"
    "same_but_rev (run_log (apply_command x) (commands es) (desired m)) (desired m')"
    "sm_inner m' = fold follow_entry es (sm_inner m)" "durable (sm_store m) \<Longrightarrow> durable (sm_store m')"
    "sm_meta_file m' = Some (sm_inner m')"
proof -
  from apply_entries_Inr [OF assms] obtain m1 where one: "apply_loop x es m = (Inr rs, m1)"
    and m': "sm_store m' = sm_store m1" "sm_inner m' = sm_inner m1" "sm_meta_file m' = Some (sm_inner m1)" .
  note loop = apply_loop_Inr [OF one]
  from loop m' show "replies x es (desired m) = Some rs"
    "same_but_rev (run_log (apply_command x) (commands es) (desired m)) (desired m')"
    "sm_inner m' = fold follow_entry es (sm_inner m)" "durable (sm_store m) \<Longrightarrow> durable (sm_store m')"
    "sm_meta_file m' = Some (sm_inner m')" by simp_all
qed

lemma replies_append:
  "replies x (es @ fs) s =
     Option.bind (replies x es s) (\<lambda>r. map_option ((@) r) (replies x fs (run_log (apply_command x) (commands es) s)))"
proof (induction es arbitrary: s)
  case Nil
  then show ?case by (cases "replies x fs s") simp_all
next
  case (Cons e es)
  have assoc: "map_option ((#) a) (Option.bind p (\<lambda>r. map_option ((@) r) q)) = Option.bind (map_option ((#) a) p) (\<lambda>r. map_option ((@) r) q)"
    for a :: client_response and p q
    by (cases p; cases q) simp_all
  show ?case
    by (cases "en_payload e") (auto simp: Cons.IH assoc split: option.split)
qed

lemma run_batches_spec:
  assumes "run_batches x bs m = (Inr rs, m')"
  shows "replies x (concat bs) (desired m) = Some rs"
    "same_but_rev (run_log (apply_command x) (commands (concat bs)) (desired m)) (desired m')"
    "sm_inner m' = fold follow_entry (concat bs) (sm_inner m)"
proof -
  have "replies x (concat bs) (desired m) = Some rs \<and>
    same_but_rev (run_log (apply_command x) (commands (concat bs)) (desired m)) (desired m') \<and>
    sm_inner m' = fold follow_entry (concat bs) (sm_inner m)"
    using assms
  proof (induction bs arbitrary: m rs)
    case (Cons b bs)
    from Cons.prems obtain r m1 rs' where one: "apply_entries x b m = (Inr r, m1)"
      and rest: "run_batches x bs m1 = (Inr rs', m')" and rs: "rs = r @ rs'"
      by (auto simp: then_do_Inr)
    note one' = apply_entries_spec [OF one] and IH = Cons.IH [OF rest]
    have "replies x (concat bs) (run_log (apply_command x) (commands b) (desired m)) = Some rs'"
      using IH replies_same [OF one'(2)] by metis
    moreover have "same_but_rev (run_log (apply_command x) (commands (concat bs)) (run_log (apply_command x) (commands b) (desired m))) (desired m')"
      using run_log_same [OF one'(2)] IH same_but_rev_trans by blast
    ultimately show ?case
      using one' IH by (simp add: rs replies_append commands_append run_log_append)
  qed simp
  then show "replies x (concat bs) (desired m) = Some rs"
    "same_but_rev (run_log (apply_command x) (commands (concat bs)) (desired m)) (desired m')"
    "sm_inner m' = fold follow_entry (concat bs) (sm_inner m)" by simp_all
qed

section \<open>Properties of the replica\<close>

text \<open>
  C28: replicas that start from the same desired state and apply the same entries, in whatever batches the consensus
  hands them over, answer the same, end at the same position and membership, and in the same desired state up to the
  local resource revision: the state that the commands of the log give, with the answers that they give.
\<close>

theorem replicas_agree:
  assumes "run_batches x bs m = (Inr rs, m')" "run_batches x bs2 m2 = (Inr rs2, m2')" "concat bs = concat bs2"
    and "same_but_rev (desired m) (desired m2)" "sm_inner m = sm_inner m2"
  shows "rs = rs2 \<and> sm_inner m' = sm_inner m2' \<and> same_but_rev (desired m') (desired m2') \<and>
    replies x (concat bs) (desired m) = Some rs \<and>
    same_but_rev (run_log (apply_command x) (commands (concat bs)) (desired m)) (desired m')"
proof (intro conjI)
  note one = run_batches_spec [OF assms(1)] and two = run_batches_spec [OF assms(2), folded assms(3)]
  from one(1) two(1) replies_same [OF assms(4), of x "concat bs"] show "rs = rs2" by simp
  from one(3) two(3) assms(5) show "sm_inner m' = sm_inner m2'" by simp
  have "same_but_rev (desired m') (run_log (apply_command x) (commands (concat bs)) (desired m2))"
    using same_but_rev_trans [OF same_but_rev_sym [OF one(2)] run_log_same [OF assms(4)]] .
  then show "same_but_rev (desired m') (desired m2')" using two(2) same_but_rev_trans by blast
qed (use run_batches_spec [OF assms(1)] in simp_all)

section \<open>Answers\<close>

definition succeeds :: "'a store_op \<Rightarrow> bool" where
  "succeeds op = (\<forall>s. ls_writes s = [] \<longrightarrow> (\<exists>a s'. op s = (Inr a, s') \<and> ls_writes s' = []))"

lemma succeedsD: "succeeds op \<Longrightarrow> ls_writes s = [] \<Longrightarrow> \<exists>a s'. op s = (Inr a, s') \<and> ls_writes s' = []"
  by (simp add: succeeds_def)

lemma succeeds_then: "succeeds h \<Longrightarrow> (\<And>a. succeeds (f a)) \<Longrightarrow> succeeds (then_do h f)"
  unfolding succeeds_def by (metis then_do_simps(2))

lemma succeeds_writes:
  "succeeds save" "succeeds save_usage" "succeeds save_inbound_ip_usage" "succeeds save_tcp_connection_usage"
  by (simp_all add: succeeds_def save_def save_usage_def save_inbound_ip_usage_def save_tcp_connection_usage_def
      write_history_snapshot_def)

lemma succeeds_changes:
  "succeeds (change_inbound_ip_usage f)" "succeeds (change_tcp_connection_usage g)" "succeeds (update_usage h)"
  using succeeds_writes
  by (auto simp: succeeds_def change_inbound_ip_usage_def change_tcp_connection_usage_def update_usage_def Let_def
      split: prod.split)

lemma succeeds_clears:
  "succeeds (clear_membership_usage k)" "succeeds (clear_membership_inbound_ip_usage k)"
  "succeeds (clear_endpoint_tcp_connection_usage k)" "succeeds (clear_node_tcp_connection_usage k)"
  "succeeds prune_tcp_connection_usage_endpoints" "succeeds prune_inbound_ip_usage_memberships"
  using succeeds_changes
  by (auto simp: succeeds_def clear_membership_usage_def clear_membership_inbound_ip_usage_def
      clear_endpoint_tcp_connection_usage_def clear_node_tcp_connection_usage_def
      prune_tcp_connection_usage_endpoints_def prune_inbound_ip_usage_memberships_def)

lemma succeeds_memberships: "succeeds (clear_memberships ks)"
proof (induction ks)
  case (Cons k ks)
  have "clear_memberships (k # ks) =
      then_do (clear_membership_usage k) (\<lambda>_. then_do (clear_membership_inbound_ip_usage k) (\<lambda>_. clear_memberships ks))"
    by (rule ext) simp
  with Cons show ?case by (simp only:) (intro succeeds_then succeeds_clears)
qed (simp add: succeeds_def)

lemma succeeds_tcp: "succeeds (clear_tcp_usage c)"
proof -
  have "succeeds (\<lambda>s. (Inr (), s))" by (simp add: succeeds_def)
  then show ?thesis by (cases c) (simp_all add: clear_tcp_usage_def succeeds_clears)
qed

lemma succeeds_clean_up: "succeeds (clean_up c s s')"
  unfolding clean_up_def by (intro succeeds_then succeeds_memberships succeeds_tcp)

lemma apply_normal_answers:
  assumes "ls_writes st = []"
  shows "case reply (fst (apply_command x c (ls_state st))) of
      None \<Rightarrow> \<exists>e requests st'. apply_normal x c st = (Inl e, requests, st')
    | Some resp \<Rightarrow> \<exists>requests st'. apply_normal x c st = (Inr resp, requests, st') \<and> ls_writes st' = []"
proof (cases "fst (apply_command x c (ls_state st))")
  case (Inl e)
  with assms show ?thesis by (cases e) (simp_all add: apply_normal_eq Let_def after_command_fields)
next
  case (Inr result)
  from assms have "ls_writes (after_command x c st) = []" by (simp add: after_command_fields)
  from succeedsD [OF succeeds_writes(1) this] obtain st1 where save: "save (after_command x c st) = (Inr (), st1)"
    and w1: "ls_writes st1 = []" by auto
  from succeedsD [OF succeeds_clean_up w1] obtain u st2
    where "clean_up c (ls_state st) (ls_state st1) st1 = (Inr u, st2)" "ls_writes st2 = []" by blast
  with apply_normal_accepted(1) [OF Inr save] Inr show ?thesis by simp
qed

lemma apply_loop_answers:
  assumes "ls_writes (sm_store m) = []"
  shows "case replies x es (desired m) of
      None \<Rightarrow> \<exists>e m'. apply_loop x es m = (Inl e, m')
    | Some rs \<Rightarrow> \<exists>m'. apply_loop x es m = (Inr rs, m')"
  using assms
proof (induction es arbitrary: m)
  case (Cons e es)
  have step: "case replies x [e] (desired m) of
      None \<Rightarrow> \<exists>err m'. apply_entry x e m = (Inl err, m')
    | Some rs \<Rightarrow> \<exists>r m'. rs = [r] \<and> apply_entry x e m = (Inr r, m') \<and> ls_writes (sm_store m') = []"
  proof (cases "en_payload e")
    case (Normal c)
    with apply_normal_answers [OF Cons.prems, of x c] show ?thesis
      by (cases "reply (fst (apply_command x c (desired m)))") (auto simp: apply_entry_def Let_def)
  qed (use Cons.prems in \<open>auto simp: apply_entry_def Let_def\<close>)
  show ?case
  proof (cases "replies x [e] (desired m)")
    case None
    with step obtain err m' where "apply_entry x e m = (Inl err, m')" by auto
    with None show ?thesis unfolding replies_Cons [of x e es] by simp
  next
    case (Some rs)
    with step obtain r m1 where one: "rs = [r]" "apply_entry x e m = (Inr r, m1)" "ls_writes (sm_store m1) = []" by auto
    have "replies x es (run_log (apply_command x) (commands [e]) (desired m)) = replies x es (desired m1)"
      by (rule replies_same) (rule apply_entry_Inr(2) [OF one(2)])
    with Some have all: "replies x (e # es) (desired m) = map_option ((#) r) (replies x es (desired m1))"
      unfolding replies_Cons [of x e es]
      by (cases "replies x es (desired m1)") (simp_all add: one(1) del: replies.simps)
    show ?thesis
    proof (cases "replies x es (desired m1)")
      case None
      with Cons.IH [OF one(3)] obtain err m' where "apply_loop x es m1 = (Inl err, m')" by auto
      with None show ?thesis unfolding all by (simp add: one(2))
    next
      case (Some rs')
      with Cons.IH [OF one(3)] obtain m' where "apply_loop x es m1 = (Inr rs', m')" by auto
      with Some show ?thesis unfolding all by (simp add: one(2))
    qed
  qed
qed simp

text \<open>
  C31: while files can be written a batch is answered exactly when each of its commands is accepted or fails with a
  domain error, and the answers are those that the desired state alone determines: 404, 409 or 400 by the code of the
  error. At any other error the batch stops, and nothing of it is acknowledged.
\<close>

theorem batch_answered_exactly:
  assumes "ls_writes (sm_store m) = []" "sm_file_writes m = []"
  shows "case replies x es (desired m) of
      None \<Rightarrow> \<exists>e m'. apply_entries x es m = (Inl e, m') \<and> sm_meta_file m' = sm_meta_file m
    | Some rs \<Rightarrow> \<exists>m'. apply_entries x es m = (Inr rs, m') \<and> sm_meta_file m' = Some (fold follow_entry es (sm_inner m))"
proof (cases "replies x es (desired m)")
  case None
  with apply_loop_answers [OF assms(1), of x es] obtain e m' where loop: "apply_loop x es m = (Inl e, m')" by auto
  with None apply_loop_files [OF loop] show ?thesis by (auto simp: apply_entries_def)
next
  case (Some rs)
  with apply_loop_answers [OF assms(1), of x es] obtain m1 where loop: "apply_loop x es m = (Inr rs, m1)" by auto
  with apply_loop_files [OF loop] assms(2) have "sm_file_writes m1 = []" by simp
  with loop Some apply_loop_Inr(3) [OF loop] show ?thesis
    by (simp add: apply_entries_def persist_meta_def write_file_def then_do_def)
qed

section \<open>Crashes and restarts\<close>

text \<open>
  C29: whichever writes fail in a batch, and wherever it stops, the stored desired state is the one after some number
  of its entries, and the stored position moves only when all of them are stored, with the answers. So the stored
  state is never behind the stored position: an entry that a restarted replica does not apply again is in its state.
\<close>

theorem stored_never_behind:
  assumes "apply_entries x es m = (r, m')" "durable (sm_store m)"
  shows "\<exists>j\<le>length es. \<exists>d. stored_desired m' = Some d \<and>
    same_but_rev (run_log (apply_command x) (commands (take j es)) (desired m)) d \<and>
    (if is_ok r then j = length es \<and> sm_meta_file m' = Some (fold follow_entry es (sm_inner m))
     else sm_meta_file m' = sm_meta_file m)"
proof (cases r)
  case (Inr rs)
  note spec = apply_entries_spec [OF assms(1) [unfolded Inr]]
  from spec(4) [OF assms(2)] obtain d where "stored_desired m' = Some d" "same_but_rev d (desired m')"
    by (auto simp: durable_def)
  with spec Inr show ?thesis
    by (intro exI [of _ "length es"]) (auto intro: same_but_rev_trans same_but_rev_sym)
next
  case (Inl err)
  with assms(1) consider "apply_loop x es m = (Inl err, m')"
    | rs m1 where "apply_loop x es m = (Inr rs, m1)" "persist_meta m1 = (Inl err, m')"
    by (auto simp: apply_entries_def then_do_Inl)
  then show ?thesis
  proof cases
    case 1
    from apply_loop_Inl [OF 1 assms(2)] apply_loop_files [OF 1] Inl show ?thesis by auto
  next
    case (2 rs m1)
    from write_file_Inl [OF 2(2) [unfolded persist_meta_def]] obtain w where m': "m' = m1\<lparr>sm_file_writes := w\<rparr>" by blast
    from apply_loop_Inr(4) [OF 2(1) assms(2)] obtain d where d: "stored_desired m1 = Some d" "same_but_rev d (desired m1)"
      by (auto simp: durable_def)
    have "same_but_rev (run_log (apply_command x) (commands es) (desired m)) d"
      using apply_loop_Inr(2) [OF 2(1)] same_but_rev_sym [OF d(2)] same_but_rev_trans by blast
    with d(1) apply_loop_files [OF 2(1)] Inl m' show ?thesis by (intro exI [of _ "length es"]) simp
  qed
qed

lemma rev_state_ok: "state_ok x (at_rev r s) = state_ok x s"
  by (simp add: state_ok_def keys_ok_def values_ok_def refs_ok_def access_ok_def domains_ok_def operations_ok_def
      probes_ok_def mesh_ok_def repository_ok_def endpoints_follow_def assignments_ok_def index_sound_def index_complete_def
      auto_assign_ok_def snapshot_kept_def rev_reads)

lemma same_state_ok: "same_but_rev s t \<Longrightarrow> state_ok x s = state_ok x t"
  by (metis rev_state_ok same_but_rev_iff)

definition cleaned :: "state \<Rightarrow> state" where
  "cleaned s = snd (prune_deleted_nodes (snd (drop_public_domain s)))"

lemma cleaned_same: "same_but_rev s t \<Longrightarrow> same_but_rev (cleaned s) (cleaned t)"
proof -
  have "same_but_rev (cleaned (at_rev r s)) (cleaned s)" for r
    by (simp add: cleaned_def drop_public_domain_def prune_deleted_nodes_def Let_def same_but_rev_def rev_commute)
  then show "same_but_rev s t \<Longrightarrow> same_but_rev (cleaned s) (cleaned t)"
    by (metis same_but_rev_iff same_but_rev_sym)
qed

lemma cleaned_settled_id: "settled s \<Longrightarrow> cleaned s = s"
  by (simp add: cleaned_def settled_def drop_public_domain_settled prune_settled)

text \<open>
  C30: a replica that restarts after an acknowledged batch resumes at the same position and membership, with the
  desired state it had up to the local revision, less what opening drops: an obsolete metadata field and the probe
  samples of nodes that do not exist. A state without those is resumed as it was.
\<close>

theorem restart_resumes:
  assumes "apply_entries x es m = (Inr rs, m')" "durable (sm_store m)"
    and "state_ok x (desired m')" "st_schema_version (desired m') = SCHEMA_VERSION"
    and "load_or_init boot (ls_disk (sm_store m')) w = Inr (Inr (), st)"
  shows "sm_inner (open_machine no_meta st m') = sm_inner m' \<and>
    same_but_rev (cleaned (desired m')) (desired (open_machine no_meta st m')) \<and>
    (settled (desired m') \<longrightarrow> same_but_rev (desired m') (desired (open_machine no_meta st m')))"
proof -
  note spec = apply_entries_spec [OF assms(1)]
  from spec(4) [OF assms(2)] obtain d where d: "stored_desired m' = Some d" "same_but_rev d (desired m')"
    by (auto simp: durable_def)
  have "state_ok x d" using assms(3) same_state_ok [OF d(2)] by blast
  moreover have "st_schema_version d = SCHEMA_VERSION" using assms(4) d(2) [unfolded same_but_rev_iff]
    by (metis state.select_convs(1) state.surjective state.update_convs(2))
  ultimately obtain g where read: "read_state boot (ls_disk (sm_store m')) = Inr (cleaned d, False, g)"
    using reopened_state [OF _ _ d(1)] by (metis cleaned_def)
  from load_Inr [OF assms(5)] have "ls_state st = cleaned d" using read by (metis prod.inject sum.inject(2))
  then have "same_but_rev (cleaned (desired m')) (ls_state st)" by (simp add: cleaned_same [OF same_but_rev_sym [OF d(2)]])
  with spec(5) cleaned_settled_id [of "desired m'"] show ?thesis by (auto simp: open_machine_def)
qed

section \<open>Local usage\<close>













section \<open>Snapshots\<close>

lemma build_snapshot_Inr:
  assumes "build_snapshot m = (Inr (meta, s), m')"
  shows "meta = sm_inner m" "s = desired m" "get_current_snapshot m' = Inr (Some (meta, s))"
    "sm_store m' = sm_store m" "sm_inner m' = sm_inner m"
proof -
  from assms obtain m1 where one: "write_file ''current_meta.json'' (sm_snapshot_meta_file_update (\<lambda>_. Some (sm_inner m))) m = (Inr (), m1)"
    and two: "write_file ''current_snapshot.json'' (sm_snapshot_data_file_update (\<lambda>_. Some (desired m))) m1 = (Inr (), m')"
    and res: "meta = sm_inner m" "s = desired m"
    by (auto simp: build_snapshot_def Let_def then_do_Inr)
  from write_file_Inr [OF one] write_file_Inr [OF two] res
  show "meta = sm_inner m" "s = desired m" "get_current_snapshot m' = Inr (Some (meta, s))"
    "sm_store m' = sm_store m" "sm_inner m' = sm_inner m"
    by (auto simp: get_current_snapshot_def)
qed

lemma cleaned_settled:
  assumes "state_ok x s" "st_schema_version s = SCHEMA_VERSION"
  shows "settled (cleaned s)" "sync_memberships (weights_kept (cleaned s)) = cleaned s"
proof -
  from assms(1) have "access_ok s" "keyed ep_endpoint_id (st_endpoints s)" by (simp_all add: state_ok_def keys_ok_def)
  then have keyed: "endpoints_keyed s" by (auto simp: endpoints_keyed_def keyed_def)
  obtain g where "read_state undefined (no_snapshots\<lparr>sd_state := Some s\<rparr>) = Inr (cleaned s, False, g)"
    using reopened_state [OF assms, of "no_snapshots\<lparr>sd_state := Some s\<rparr>" undefined] by (auto simp: cleaned_def)
  then have "snd (repair_state s) = cleaned s"
    using assms(2) by (auto simp: read_state_def migrate_state_def Let_def split: prod.splits)
  with repair_establishes [OF keyed] repair_state_eq [of s]
  show "settled (cleaned s)" "sync_memberships (weights_kept (cleaned s)) = cleaned s" by (simp_all add: cleaned_def)
qed

lemma migrate_value_ok:
  assumes "state_ok x s" "st_schema_version s = SCHEMA_VERSION"
  shows "migrate_state_value_to_latest s = Inr (cleaned s)"
proof -
  have egress: "bt_retain (\<lambda>node_id _. bt_contains_key (st_nodes (cleaned s)) node_id) (st_node_egress_probes (cleaned s)) =
      st_node_egress_probes (cleaned s)"
    using assms(1) by (intro bt_retain_all) (auto simp: state_ok_def refs_ok_def keys_sub_def bt_contains_iff cleaned_def
        prune_deleted_nodes_def drop_public_domain_def Let_def)
  let ?s = "cleaned s"
  let ?s5 = "(weights_kept ?s)\<lparr>st_user_auto_assign_endpoint_kinds := normalize_auto_assign ?s (st_user_auto_assign_endpoint_kinds ?s)\<rparr>"
  have "migrate_state_value_to_latest s = Inr (?s5\<lparr>st_node_user_endpoint_memberships :=
      build_memberships (?s5\<lparr>st_node_user_endpoint_memberships := normalize_memberships ?s5 (st_node_user_endpoint_memberships ?s5)\<rparr>)\<rparr>)"
    using assms(2) unfolding migrate_state_value_to_latest_def migrate_state_def
    by (simp add: cleaned_def [symmetric] Let_def egress weights_kept_def normalize_auto_weights
        normalize_node_weight_policies_def normalize_user_global_weights_def)
  also have "\<dots> = Inr (sync_memberships (weights_kept ?s))"
    unfolding build_normalized by (simp add: sync_memberships_def Let_def weights_kept_def normalize_auto_weights)
  finally show ?thesis by (simp add: cleaned_settled(2) [OF assms])
qed

lemma bound_local_usage_spec:
  "ls_state (bound_local_usage st) = ls_state st" "sd_state (ls_disk (bound_local_usage st)) = sd_state (ls_disk st)"
  "bt_get (us_memberships (ls_usage (bound_local_usage st))) k =
     (if k \<in> bs_set (allowed_membership_keys (ls_state st)) then bt_get (us_memberships (ls_usage st)) k else None)"
  "ip_settled (allowed_membership_keys (ls_state st)) (ls_inbound_ip_usage (bound_local_usage st))"
proof -
  let ?keys = "allowed_membership_keys (ls_state st)"
  let ?st1 = "snd (update_usage (on_memberships (bt_retain (\<lambda>k _. bs_contains ?keys k))) st)"
  have bound: "bound_local_usage st = snd (prune_inbound_ip_usage_memberships ?st1)" by (simp add: bound_local_usage_def Let_def)
  have st1: "ls_state ?st1 = ls_state st" "sd_state (ls_disk ?st1) = sd_state (ls_disk st)"
    using keeps_state_changes(3) by (simp_all add: keeps_state_def)
  have "ls_state (bound_local_usage st) = ls_state ?st1" "sd_state (ls_disk (bound_local_usage st)) = sd_state (ls_disk ?st1)"
    using keeps_state_clears(6) unfolding bound keeps_state_def by blast+
  with st1 show "ls_state (bound_local_usage st) = ls_state st" "sd_state (ls_disk (bound_local_usage st)) = sd_state (ls_disk st)"
    by (simp_all only:)
  have keep: "ls_usage (snd (prune_inbound_ip_usage_memberships s)) = ls_usage s"
    "ls_inbound_ip_usage (snd (prune_inbound_ip_usage_memberships s)) =
       snd (normalize_ip_usage (allowed_membership_keys (ls_state s)) (ls_inbound_ip_usage s))" for s
    by (auto simp: prune_inbound_ip_usage_memberships_def change_inbound_ip_usage_def save_inbound_ip_usage_def
        write_snapshot_keeps Let_def split: prod.split)
  show "bt_get (us_memberships (ls_usage (bound_local_usage st))) k =
     (if k \<in> bs_set ?keys then bt_get (us_memberships (ls_usage st)) k else None)"
    by (simp add: bound keep on_memberships_def bt_get_retain split: option.split)
  show "ip_settled ?keys (ls_inbound_ip_usage (bound_local_usage st))"
    unfolding bound keep st1 by (rule ip_normalize_establishes)
qed

lemma save_keeps_usage: "ls_usage (snd (save s)) = ls_usage s"
  by (simp add: save_def write_snapshot_keeps)

text \<open>
  C32: a snapshot taken by one replica and installed by another leaves the second at the position and membership of
  the first, with its desired state (less what opening drops, see above) stored and in memory, a new local revision,
  usage for existing memberships only, and the same snapshot to hand on.
\<close>

theorem snapshot_transfers:
  assumes "build_snapshot m = (Inr (meta, s), m1)" "install_snapshot meta s f = (Inr (), f')"
    and "state_ok x (desired m)" "st_schema_version (desired m) = SCHEMA_VERSION"
  shows "sm_inner f' = sm_inner m \<and> sm_meta_file f' = Some (sm_inner m) \<and> durable (sm_store f') \<and>
    same_but_rev (cleaned (desired m)) (desired f') \<and>
    (settled (desired m) \<longrightarrow> same_but_rev (desired m) (desired f')) \<and>
    st_mihomo_resource_revision (desired f') = st_mihomo_resource_revision (desired f) + 1 \<and>
    (\<forall>k. bt_get (us_memberships (ls_usage (sm_store f'))) k =
       (if k \<in> bs_set (allowed_membership_keys (desired f')) then bt_get (us_memberships (ls_usage (sm_store f))) k else None)) \<and>
    ip_settled (allowed_membership_keys (desired f')) (ls_inbound_ip_usage (sm_store f')) \<and>
    get_current_snapshot f' = get_current_snapshot m1 \<and> get_current_snapshot m1 = Inr (Some (sm_inner m, desired m))"
proof -
  note built = build_snapshot_Inr [OF assms(1)]
  let ?rev = "st_mihomo_resource_revision (desired f) + 1"
  let ?st = "(sm_store f)\<lparr>ls_state := at_rev ?rev (cleaned s)\<rparr>"
  have migrated: "migrate_state_value_to_latest s = Inr (cleaned s)"
    using migrate_value_ok [OF assms(3,4)] by (simp add: built(2))
  obtain w st where sv: "save ?st = (w, st)" by (metis surj_pair)
  let ?f1 = "f\<lparr>sm_store := bound_local_usage st, sm_inner := meta\<rparr>"
  from assms(2) obtain m2 m3 m4 where w: "w = Inr ()" and two: "persist_meta ?f1 = (Inr (), m2)"
    and three: "write_file ''current_meta.json'' (sm_snapshot_meta_file_update (\<lambda>_. Some meta)) m2 = (Inr (), m3)"
    and four: "write_file ''current_snapshot.json'' (sm_snapshot_data_file_update (\<lambda>_. Some s)) m3 = (Inr (), m4)"
    and f': "f' = m4\<lparr>sm_requests := sm_requests m4 @ [FullReconcile]\<rparr>"
    unfolding install_snapshot_def Let_def migrated
    by (cases w) (auto simp: try_in_def sv then_do_Inr split: if_splits)
  from write_file_Inr [OF two [unfolded persist_meta_def]] write_file_Inr [OF three] write_file_Inr [OF four] f'
  have fields: "sm_store f' = bound_local_usage st" "sm_inner f' = meta" "sm_meta_file f' = Some meta"
    "get_current_snapshot f' = Inr (Some (meta, s))"
    by (auto simp: get_current_snapshot_def)
  have st: "ls_state st = at_rev ?rev (cleaned s)" "sd_state (ls_disk st) = Some (at_rev ?rev (cleaned s))"
    "ls_usage st = ls_usage (sm_store f)"
    using save_result [of ?st, unfolded sv w fst_conv snd_conv] save_keeps_usage [of ?st, unfolded sv snd_conv] by simp_all
  note bound = bound_local_usage_spec [of st]
  have desired: "desired f' = at_rev ?rev (cleaned s)" by (simp add: fields bound(1) st(1))
  have "durable (sm_store f')" by (simp add: durable_def fields bound(1,2) st)
  moreover have "same_but_rev (cleaned s) (desired f')" by (simp add: desired)
  moreover have "settled s \<Longrightarrow> same_but_rev s (desired f')" by (simp add: desired cleaned_settled_id)
  moreover have "\<forall>k. bt_get (us_memberships (ls_usage (sm_store f'))) k =
       (if k \<in> bs_set (allowed_membership_keys (desired f')) then bt_get (us_memberships (ls_usage (sm_store f))) k else None)"
    unfolding fields bound st(3) by simp
  moreover have "ip_settled (allowed_membership_keys (desired f')) (ls_inbound_ip_usage (sm_store f'))"
    unfolding fields bound(1) by (rule bound(4))
  moreover have "st_mihomo_resource_revision (desired f') = ?rev" by (simp add: desired)
  ultimately show ?thesis
    using built(3) fields(2-4) unfolding built(1,2) by (intro conjI impI; simp)
qed

section \<open>Limits\<close>

text \<open>
  C38: a second membership operation that is committed while one is active is not answered with an error: the batch fails
  on every replica, and again after each restart, since the stored position stays before the entry.
\<close>

theorem second_operation_stops_replica:
  assumes "active_membership_operation (desired m) \<noteq> None" "en_payload e = Normal (BeginMembershipOperation op node session)"
  shows "\<exists>err m'. apply_entries x (e # es) m = (Inl err, m') \<and> sm_meta_file m' = sm_meta_file m"
proof -
  have "\<exists>msg. fst (apply_command x (BeginMembershipOperation op node session) (desired m)) = Inl (InvalidMembershipOperation msg)"
    using assms(1) by (simp add: apply_begin_membership_operation_def)
  then obtain err requests st where "apply_normal x (BeginMembershipOperation op node session) (sm_store m) = (Inl err, requests, st)"
    by (auto simp: apply_normal_eq Let_def)
  with assms(2) have "\<exists>m'. apply_entry x e m = (Inl err, m')" by (simp add: apply_entry_def Let_def)
  then obtain m' where one: "apply_entry x e m = (Inl err, m')" ..
  then show ?thesis using apply_entry_files(1) [OF one] by (auto simp: apply_entries_def)
qed

text \<open>
  C40: the files of a snapshot are replaced one after the other. When the second write fails, the position of the new
  snapshot stands with the state of the old one, and is handed out like that.
\<close>

theorem torn_snapshot:
  assumes "sm_file_writes m = True # False # w" "sm_snapshot_data_file m = Some old"
  shows "\<exists>err m'. build_snapshot m = (Inl err, m') \<and> get_current_snapshot m' = Inr (Some (sm_inner m, old))"
  using assms by (simp add: build_snapshot_def Let_def then_do_def write_file_def get_current_snapshot_def)

text \<open>
  C39: the stored state may be ahead of the stored position. After a failed write of the position a restarted replica
  applies an entry again that its state contains; raising a credential epoch then counts twice there.
\<close>

theorem reapplied_epoch:
  assumes "bt_get (st_users (desired m)) u = Some user" "u_credential_epoch user = 0" "ls_writes (sm_store m) = []"
    and "sm_file_writes m = [False]" "en_payload e = Normal (BumpUserCredentialEpoch u)"
  shows "\<exists>err m' m''. apply_entries x [e] m = (Inl err, m') \<and> sm_meta_file m' = sm_meta_file m \<and>
    stored_desired m' = Some (desired m') \<and>
    apply_entries x [e] (open_machine no_meta (sm_store m') m') = (Inr [OkResponse (UserCredentialEpochBumped u 2)], m'')"
  using assms
  by (simp add: apply_entries_def apply_entry_def apply_normal_def then_do_def Let_def rebuild_inbound_def
      lost_membership_keys_def affected_membership_keys_def clear_tcp_usage_def save_def write_history_snapshot_def
      persist_meta_def write_file_def state_mut_def open_machine_def apply_bump_user_credential_epoch_def sat_add_def)

section \<open>Examples\<close>

definition sample_machine :: "string machine" where
  "sample_machine = \<lparr>sm_store = empty_store\<lparr>ls_disk := no_snapshots\<lparr>sd_state := Some empty_state\<rparr>\<rparr>,
     sm_inner = \<lparr>mm_last_applied = None, mm_last_membership = (None, ''n1'')\<rparr>, sm_requests = [], sm_meta_file = None,
     sm_snapshot_meta_file = None, sm_snapshot_data_file = None, sm_file_writes = []\<rparr>"

definition sample_entry :: "u64 \<Rightarrow> string payload \<Rightarrow> string entry" where
  "sample_entry i p = \<lparr>en_log_id = \<lparr>li_term = 1, li_node_id = 1, li_index = i\<rparr>, en_payload = p\<rparr>"

definition sample_entries :: "string entry list" where
  "sample_entries = [sample_entry 1 (Membership_Change ''n1,n2''), sample_entry 2 (Normal (SetMihomoResourceAllowPrivateTargets True)),
     sample_entry 3 (Normal (BumpUserCredentialEpoch ''u9''))]"

lemmas sample_machine_defs = sample_machine_def sample_entries_def sample_entry_def empty_store_def no_snapshots_def

lemma sample_durable: "durable (sm_store sample_machine)"
  by (simp add: durable_def sample_machine_defs)

lemmas apply_evals = apply_entries_def apply_entry_def apply_normal_def then_do_def Let_def rebuild_inbound_def
  lost_membership_keys_def affected_membership_keys_def clear_tcp_usage_def save_def write_history_snapshot_def
  persist_meta_def write_file_def state_mut_def

lemma sample_unknown: "apply_bump_user_credential_epoch ''u9'' (at_rev r (empty_state\<lparr>st_mihomo_resource_allow_private_targets := b\<rparr>)) =
    (Inl (Domain (MissingUser ''u9'')), at_rev r (empty_state\<lparr>st_mihomo_resource_allow_private_targets := b\<rparr>))"
  by (simp add: apply_bump_user_credential_epoch_def empty_state_def)

lemma sample_applied: "\<exists>m'. apply_entries x sample_entries sample_machine =
    (Inr [OkResponse Applied, OkResponse Applied, ErrResponse 400 ''invalid_request'' (MissingUser ''u9'')], m')"
  by (simp add: apply_evals sample_machine_defs sample_unknown http_status_def)

lemma sample_batches: "\<exists>rs m'. run_batches x (map (\<lambda>e. [e]) sample_entries) sample_machine = (Inr rs, m')"
  by (simp add: apply_evals sample_machine_defs sample_unknown http_status_def)

theorem replicas_agree_witness:
  "\<exists>rs m1 m2. run_batches sample_ext [sample_entries] sample_machine = (Inr rs, m1) \<and>
     run_batches sample_ext (map (\<lambda>e. [e]) sample_entries) sample_machine = (Inr rs, m2) \<and>
     length rs = 3 \<and> same_but_rev (desired m1) (desired m2)"
proof -
  from sample_applied [of sample_ext] obtain rs m1 where one: "run_batches sample_ext [sample_entries] sample_machine = (Inr rs, m1)"
    and len: "length rs = 3" by (auto simp: then_do_def)
  from sample_batches [of sample_ext] obtain rs2 m2
    where two: "run_batches sample_ext (map (\<lambda>e. [e]) sample_entries) sample_machine = (Inr rs2, m2)" by blast
  have "concat [sample_entries] = concat (map (\<lambda>e. [e]) sample_entries)" by (simp add: sample_entries_def)
  from replicas_agree [OF one two this same_but_rev_refl(1) refl] one two len show ?thesis by auto
qed

theorem batch_answered_exactly_witness:
  "ls_writes (sm_store sample_machine) = [] \<and> sm_file_writes sample_machine = [] \<and>
   (\<exists>m'. apply_entries sample_ext sample_entries sample_machine =
      (Inr [OkResponse Applied, OkResponse Applied, ErrResponse 400 ''invalid_request'' (MissingUser ''u9'')], m') \<and>
      sm_meta_file m' = Some \<lparr>mm_last_applied = Some \<lparr>li_term = 1, li_node_id = 1, li_index = 3\<rparr>,
        mm_last_membership = (Some \<lparr>li_term = 1, li_node_id = 1, li_index = 1\<rparr>, ''n1,n2'')\<rparr>)"
proof -
  have writes: "ls_writes (sm_store sample_machine) = []" "sm_file_writes sample_machine = []"
    by (simp_all add: sample_machine_defs)
  have "replies sample_ext sample_entries (desired sample_machine) =
      Some [OkResponse Applied, OkResponse Applied, ErrResponse 400 ''invalid_request'' (MissingUser ''u9'')]"
    using sample_applied [of sample_ext] apply_entries_spec(1) by blast
  with batch_answered_exactly [OF writes, of sample_ext sample_entries] writes show ?thesis
    by (simp add: follow_entry_def sample_entries_def sample_entry_def)
qed

theorem stored_never_behind_witness:
  "\<exists>m' d. apply_entries sample_ext sample_entries (sample_machine\<lparr>sm_file_writes := [False]\<rparr>) = (Inl (Io ''state_machine.json''), m') \<and>
     stored_desired m' = Some d \<and> sm_meta_file m' = None"
proof -
  have "\<exists>m'. apply_entries sample_ext sample_entries (sample_machine\<lparr>sm_file_writes := [False]\<rparr>) = (Inl (Io ''state_machine.json''), m')"
    by (simp add: apply_evals sample_machine_defs sample_unknown http_status_def)
  then obtain m' where run: "apply_entries sample_ext sample_entries (sample_machine\<lparr>sm_file_writes := [False]\<rparr>) = (Inl (Io ''state_machine.json''), m')" ..
  have "durable (sm_store (sample_machine\<lparr>sm_file_writes := [False]\<rparr>))" using sample_durable by simp
  from stored_never_behind [OF run this] run show ?thesis by (auto simp: sample_machine_def)
qed

lemma sample_state_after: "state_ok x (empty_state\<lparr>st_mihomo_resource_allow_private_targets := True\<rparr>)"
  using empty_state_ok [of x]
  by (simp add: state_ok_def keys_ok_def values_ok_def refs_ok_def access_ok_def domains_ok_def operations_ok_def
      probes_ok_def mesh_ok_def repository_ok_def endpoints_follow_def assignments_ok_def index_sound_def index_complete_def
      auto_assign_ok_def snapshot_kept_def endpoints_on_def)

theorem restart_resumes_witness:
  "\<exists>rs m' st. apply_entries sample_ext sample_entries sample_machine = (Inr rs, m') \<and>
     load_or_init (sample_node ''n1'') (ls_disk (sm_store m')) [] = Inr (Inr (), st) \<and>
     st_mihomo_resource_allow_private_targets (desired (open_machine (sm_inner sample_machine) st m')) \<and>
     mm_last_applied (sm_inner (open_machine (sm_inner sample_machine) st m')) = Some \<lparr>li_term = 1, li_node_id = 1, li_index = 3\<rparr>"
proof -
  let ?s = "empty_state\<lparr>st_mihomo_resource_allow_private_targets := True\<rparr>"
  have "\<exists>rs m' r. apply_entries sample_ext sample_entries sample_machine = (Inr rs, m') \<and> desired m' = at_rev r ?s \<and>
      sd_usage (ls_disk (sm_store m')) = None \<and> mm_last_applied (sm_inner m') = Some \<lparr>li_term = 1, li_node_id = 1, li_index = 3\<rparr>"
    by (simp add: apply_evals sample_machine_defs sample_unknown http_status_def) (rule exI, rule refl)
  then obtain rs m' r where run: "apply_entries sample_ext sample_entries sample_machine = (Inr rs, m')" "desired m' = at_rev r ?s"
    "sd_usage (ls_disk (sm_store m')) = None" "mm_last_applied (sm_inner m') = Some \<lparr>li_term = 1, li_node_id = 1, li_index = 3\<rparr>"
    by blast
  have ok: "state_ok sample_ext (desired m')" "st_schema_version (desired m') = SCHEMA_VERSION"
    by (simp_all only: run(2) rev_state_ok sample_state_after) (simp add: empty_state_def)
  from apply_entries_spec(4) [OF run(1) sample_durable] obtain d where d: "stored_desired m' = Some d" "same_but_rev d (desired m')"
    by (auto simp: durable_def)
  have "state_ok sample_ext d" "st_schema_version d = SCHEMA_VERSION"
    using ok same_state_ok [OF d(2)] d(2) by (auto simp: same_but_rev_def dest: arg_cong [of _ _ st_schema_version])
  from reopened_state [OF this d(1), of "sample_node ''n1''"] obtain s g
    where read: "read_state (sample_node ''n1'') (ls_disk (sm_store m')) = Inr (s, False, g)" by blast
  obtain u g' where "read_usage (allowed_membership_keys s) (sd_usage (ls_disk (sm_store m'))) = Inr (u, g')"
    by (simp add: read_usage_def run(3) Let_def)
  from load_succeeds [OF read this] obtain st where st: "load_or_init (sample_node ''n1'') (ls_disk (sm_store m')) [] = Inr (Inr (), st)" ..
  have "settled (desired m')"
    using ok(1) unfolding run(2) by (simp add: settled_def probes_known_def state_ok_def refs_ok_def) (simp add: empty_state_def)
  with restart_resumes [OF run(1) sample_durable ok st, of "sm_inner sample_machine"]
  have res: "sm_inner (open_machine (sm_inner sample_machine) st m') = sm_inner m'"
    "same_but_rev (desired m') (desired (open_machine (sm_inner sample_machine) st m'))" by simp_all
  from res(2) have "st_mihomo_resource_allow_private_targets (desired (open_machine (sm_inner sample_machine) st m'))"
    unfolding run(2) by (auto simp: same_but_rev_def dest: arg_cong [of _ _ st_mihomo_resource_allow_private_targets])
  with run(1,4) st res(1) show ?thesis by auto
qed

theorem snapshot_transfers_witness:
  "\<exists>meta s m1 f'. build_snapshot sample_machine = (Inr (meta, s), m1) \<and> install_snapshot meta s sample_machine = (Inr (), f') \<and>
     get_current_snapshot f' = Inr (Some (sm_inner sample_machine, empty_state)) \<and> durable (sm_store f')"
proof -
  have ok: "state_ok sample_ext (desired sample_machine)" "st_schema_version (desired sample_machine) = SCHEMA_VERSION"
    "desired sample_machine = empty_state"
    using empty_state_ok by (simp_all add: sample_machine_defs) (simp add: empty_state_def)
  have "\<exists>m1. build_snapshot sample_machine = (Inr (sm_inner sample_machine, empty_state), m1)"
    by (simp add: build_snapshot_def Let_def then_do_def write_file_def sample_machine_defs)
  then obtain m1 where built: "build_snapshot sample_machine = (Inr (sm_inner sample_machine, empty_state), m1)" ..
  have "migrate_state_value_to_latest empty_state = Inr (cleaned empty_state)"
    using migrate_value_ok [OF ok(1,2)] by (simp only: ok(3))
  then have "\<exists>f'. install_snapshot (sm_inner sample_machine) empty_state sample_machine = (Inr (), f')"
    by (simp add: install_snapshot_def Let_def try_in_def save_def write_history_snapshot_def then_do_def persist_meta_def
        write_file_def sample_machine_defs) (simp add: empty_state_def)
  then obtain f' where "install_snapshot (sm_inner sample_machine) empty_state sample_machine = (Inr (), f')" ..
  with snapshot_transfers [OF built this ok(1,2)] built show ?thesis unfolding ok(3) by auto
qed

text \<open>A user with access to an endpoint, and usage recorded for it.\<close>

definition sample_metered :: local_store where
  "sample_metered = empty_store\<lparr>ls_state := sample_state\<lparr>st_node_user_endpoint_memberships :=
       bs_insert (membership_of ''u1'' (sample_endpoint ''e2'')) bt_empty\<rparr>,
     ls_usage := on_memberships (bt_insert ''u1::e2'' (fresh_usage ''a'' ''b'' 10 5 ''t'')) empty_usage\<rparr>"


theorem second_operation_stops_replica_witness:
  "\<exists>err m'. apply_entries sample_ext [sample_entry 4 (Normal (BeginMembershipOperation (sample_operation\<lparr>mo_operation_id := ''op2''\<rparr>) None None))]
     (sample_machine\<lparr>sm_store := empty_store\<lparr>ls_state := sample_removal\<rparr>\<rparr>) = (Inl err, m') \<and> sm_meta_file m' = None"
proof -
  let ?m = "sample_machine\<lparr>sm_store := empty_store\<lparr>ls_state := sample_removal\<rparr>\<rparr>"
  have "active_membership_operation (desired ?m) \<noteq> None" by (auto simp: active_None sample_removal_def sample_operation_def is_active_def is_terminal_def)
  moreover have "en_payload (sample_entry 4 (Normal (BeginMembershipOperation (sample_operation\<lparr>mo_operation_id := ''op2''\<rparr>) None None))) =
      Normal (BeginMembershipOperation (sample_operation\<lparr>mo_operation_id := ''op2''\<rparr>) None None)" by (simp add: sample_entry_def)
  ultimately show ?thesis
    using second_operation_stops_replica [of ?m _ "sample_operation\<lparr>mo_operation_id := ''op2''\<rparr>" None None sample_ext "[]"] by (simp add: sample_machine_def)
qed

theorem torn_snapshot_witness:
  "\<exists>err m'. build_snapshot (sample_machine\<lparr>sm_store := sample_metered, sm_file_writes := [True, False],
     sm_snapshot_data_file := Some empty_state\<rparr>) = (Inl err, m') \<and>
     get_current_snapshot m' = Inr (Some (sm_inner sample_machine, empty_state))"
  using torn_snapshot [of "sample_machine\<lparr>sm_store := sample_metered, sm_file_writes := [True, False],
     sm_snapshot_data_file := Some empty_state\<rparr>" "[]" empty_state] by simp

theorem reapplied_epoch_witness:
  "\<exists>err m' m''. apply_entries sample_ext [sample_entry 4 (Normal (BumpUserCredentialEpoch ''u1''))]
     (sample_machine\<lparr>sm_store := sample_metered, sm_file_writes := [False]\<rparr>) = (Inl err, m') \<and> sm_meta_file m' = None \<and>
     apply_entries sample_ext [sample_entry 4 (Normal (BumpUserCredentialEpoch ''u1''))]
       (open_machine (sm_inner sample_machine) (sm_store m') m') = (Inr [OkResponse (UserCredentialEpochBumped ''u1'' 2)], m'')"
proof -
  let ?m = "sample_machine\<lparr>sm_store := sample_metered, sm_file_writes := [False]\<rparr>"
  have "bt_get (st_users (desired ?m)) ''u1'' = Some sample_user" "u_credential_epoch sample_user = 0"
    "ls_writes (sm_store ?m) = []" "sm_file_writes ?m = [False]"
    "en_payload (sample_entry 4 (Normal (BumpUserCredentialEpoch ''u1''))) = Normal (BumpUserCredentialEpoch ''u1'')"
    by (simp_all add: sample_metered_def sample_state_def sample_user_def empty_store_def sample_entry_def)
  from reapplied_epoch [OF this, of sample_ext "sm_inner sample_machine"] show ?thesis
    by (auto simp: sample_machine_def)
qed

end
