(* ===== verification/Spec2Isabelle.thy ===== *)
theory Spec2Isabelle
  imports Xp_Quota_Policy Xp_Vless_Json Xp_Raft_Machine
begin

text \<open>
  A verification library for xp, a manager of proxy clusters written in Rust (the sources are under \<^verbatim>\<open>src/\<close>). Every node of a
  cluster runs the same program. The nodes agree by a consensus log on commands; each replica applies the
  committed commands to a \<^emph>\<open>desired state\<close> of nodes, endpoints, users and their settings, saves it, and
  meters locally what its users consume. The library models the deterministic core: the desired state and all
  commands on it, the data types and arithmetic they use, the local store and usage records, and the state
  machine that drives them from the log.

  \<^bold>\<open>Conventions.\<close> A Rust result is \<open>'e + 'a\<close> with \<open>Inl\<close> for the error; a method on a mutable
  reference is a function that returns the outcome and the new state (\<open>handler\<close> of \<^verbatim>\<open>Xp_Prelude\<close>). Unsigned
  integers are words of their width, with saturating and wrapping operations as in the source. A string is the
  list of its bytes. A failing \<open>expect\<close> is the error \<open>Panic\<close>. External crates (base64, hashes, RFC 3339 times,
  the serialiser of metadata) are fields of the record \<open>ext\<close> or \<open>clock\<close>, with what is needed of them as named
  hypotheses; \<^verbatim>\<open>Xp_Vless_Json\<close> gives a concrete instance. Every file write has an outcome taken from a list in the state, so
  that the theorems cover each sequence of failures; after the list every write succeeds.

  \<^bold>\<open>Foundations.\<close>
  \<^item> \<^verbatim>\<open>Xp_Prelude\<close>: machine integers, results, logs of commands (\<open>run_log\<close>) and the locales of state machines with an
    invariant, with atomic errors and with a monotone order, which \<^verbatim>\<open>Xp_Apply\<close> and \<^verbatim>\<open>Xp_Machine\<close> interpret.
  \<^item> \<^verbatim>\<open>Xp_BTree\<close>, \<^verbatim>\<open>Xp_Text\<close>, \<^verbatim>\<open>Xp_Net\<close>, \<^verbatim>\<open>Xp_Binary_Search\<close>: the ordered maps and sets, string operations, Internet addresses and binary
    search of the Rust standard library.
  \<^item> \<^verbatim>\<open>Xp_Lifecycle\<close>: the contract of a phase machine, interpreted by join sessions, membership operations and
    repository members.

  \<^bold>\<open>Data and policies.\<close>
  \<^item> \<^verbatim>\<open>Xp_Domain\<close> (\<^verbatim>\<open>domain/mod.rs\<close>) and \<^verbatim>\<open>Xp_Protocol\<close> (\<^verbatim>\<open>protocol.rs\<close>): domain types, errors with their codes, validations, endpoint metadata;
    the checks of a server name accept exactly the host names of a reference definition.
  \<^item> \<^verbatim>\<open>Xp_Quota_Policy\<close> (\<^verbatim>\<open>quota_policy.rs\<close>): weighted allocation (conserves the total, proportional), daily credits, rollover, and the
    replay of missed days, complete with respect to feasible schedules.
  \<^item> \<^verbatim>\<open>Xp_Join_Session\<close>, \<^verbatim>\<open>Xp_Membership_Operation\<close> (\<^verbatim>\<open>join_session.rs\<close>, \<^verbatim>\<open>state/membership_operation.rs\<close>): the two durable operations and their successor checks.
  \<^item> \<^verbatim>\<open>Xp_Reverse_Mesh\<close> (\<^verbatim>\<open>reverse_mesh.rs\<close>): assignment of relays, sound, deterministic and with fresh generations.
  \<^item> \<^verbatim>\<open>Xp_Repository\<close> (\<^verbatim>\<open>history_repository/control\<close>): the replicated control state of the history repositories, its invariant and the safety of
    a retirement.

  \<^bold>\<open>Desired state\<close> (\<^verbatim>\<open>state.rs\<close>, \<^verbatim>\<open>state_join_command.rs\<close>).
  \<^item> \<^verbatim>\<open>Xp_State\<close>: the persisted state, the commands and their results.
  \<^item> \<^verbatim>\<open>Xp_Access\<close>, \<^verbatim>\<open>Xp_Endpoints\<close>, \<^verbatim>\<open>Xp_Nodes\<close>, \<^verbatim>\<open>Xp_Apply\<close>: one function per command and the dispatcher \<open>apply_command\<close> for
    \<^verbatim>\<open>DesiredStateCommand::apply\<close>, with the exact effect of the access, domain and reorder commands, and
    that a rejected command changes nothing.
  \<^item> \<^verbatim>\<open>Xp_Invariants\<close>, \<^verbatim>\<open>Xp_Probe_History\<close>, \<^verbatim>\<open>Xp_Machine\<close>: the invariant \<open>state_ok\<close> with one predicate for each group of fields, the
    abstract relation \<open>step\<close>, and an order of what is never taken back. The properties of this theory are about
    whole logs.
  \<^item> \<^verbatim>\<open>Xp_Vless_Json\<close>: the JSON form of the endpoint metadata, an executable instance of the serialiser contract.
  \<^item> \<^verbatim>\<open>Xp_Revision\<close>: no command depends on the local resource revision.

  \<^bold>\<open>Replica.\<close>
  \<^item> \<^verbatim>\<open>Xp_Window\<close>, \<^verbatim>\<open>Xp_Inbound_Ip\<close>, \<^verbatim>\<open>Xp_Tcp_Usage\<close> (\<^verbatim>\<open>inbound_ip_usage.rs\<close>, \<^verbatim>\<open>tcp_connection_usage.rs\<close>): windows of seven days, minute by minute; recording a minute of addresses or
    connection counts is exact on the window.
  \<^item> \<^verbatim>\<open>Xp_Local_Store\<close> (\<^verbatim>\<open>JsonSnapshotStore\<close>): the store with its four saved records, and exact metering of the traffic counters.
  \<^item> \<^verbatim>\<open>Xp_Store_Open\<close> (\<^verbatim>\<open>load_or_init\<close>): migrations and repairs; opening settles what was stored, and opening again changes nothing.
  \<^item> \<^verbatim>\<open>Xp_Raft_Machine\<close> (\<^verbatim>\<open>raft/storage/file.rs\<close>): applying batches of log entries, the stored position, snapshots. Replicas agree up
    to the local revision however the log is cut into batches, the stored state is never behind the stored position,
    a restart resumes, and a snapshot transfers the state. Its last section has the behaviours in which the code
    departs from what these theorems suggest: a rejected membership operation that stops replicas, a torn snapshot,
    and an entry that is applied twice.

  \<^bold>\<open>Bounds and termination.\<close> No function takes fuel. The pruning loop of the probe history and the loops
  over days, bits and digits are total functions; the window is the constant of the source, 7 days of minutes.
  Where a property speaks of one concrete admissibility condition (a new domain id, a begun operation without an end time,
  a valid repository membership) it is the predicate \<open>well_formed\<close> of \<^verbatim>\<open>Xp_Invariants\<close>.

  \<^bold>\<open>Not modelled.\<close> The consensus itself is an external crate; its entries and memberships are data here, and the
  storage of its log (\<^verbatim>\<open>FileLogStore\<close>) is left out. The state formats 1 to 9 and the JSON text of the files
  are not modelled. Network interfaces, background tasks, supervision of other processes, SQL history storage and
  its synchronisation, text generation for clients, cryptography, the operator tool and the web interface are input
  and output around this core. The order in which concurrent tasks lock the store is not modelled: an operation
  of the store or of the state machine is one step.
\<close>

section \<open>The store along a log\<close>

text \<open>
  C1: every state a replica can reach is well formed. A fresh store is, and a log of admissible commands keeps it,
  whichever of them are rejected: entries are stored under their own id, stored values passed their
  validation, settings refer to users and nodes that exist, the access index agrees with endpoints, users and
  the automatic assignment, domain ids and names are distinct and valid, at most one membership operation is
  active and its endpoint snapshot holds, probe histories hold at most 24 hours, the generation of a
  reverse-mesh assignment is its durable counter, the repository membership keeps its invariant, and every
  VLESS endpoint that follows the global domains carries their names.
\<close>

theorem store_invariant:
  "state_ok x empty_state \<and>
   (state_ok x s \<longrightarrow> admissible (apply_command x) well_formed cs s \<longrightarrow> state_ok x (run_log (apply_command x) cs s))"
  using xp.run_inv [of x cs s] by (simp add: empty_state_ok)

definition sample_log :: "command list" where
  "sample_log = [CreateRealityDomain (sample_domain ''a.com''), UpsertNode (sample_node ''n1'') None, UpsertUser sample_user,
     UpsertEndpoint (sample_vless_endpoint ''a.com'') None, ReplaceUserAccess ''u1'' [''e1''],
     AppendEndpointProbeSamples ''h1'' ''n1'' [], BeginMembershipOperation sample_operation None None,
     DeleteNode ''n1'' True [''e1''] None]"

lemma sample_log_admissible: "admissible (apply_command x) well_formed sample_log empty_state"
  by (simp add: sample_log_def well_formed_def empty_state_def sample_operation_def)

theorem store_invariant_witness:
  "admissible (apply_command sample_ext) well_formed sample_log empty_state \<and>
   state_ok sample_ext (run_log (apply_command sample_ext) sample_log empty_state)"
  using store_invariant [of sample_ext empty_state sample_log] sample_log_admissible by blast




text \<open>
  C5: what a log never takes back. A join session stays, moves only forward, and keeps its status once that is
  consumed or expired; the credential epoch of the reverse mesh and the generation of an assignment never
  decrease; and a target whose assignment was deleted gets a generation greater than any it had.
\<close>

theorem durable_progress:
  assumes "state_ok x s" "admissible (apply_command x) well_formed cs s" "run_log (apply_command x) cs s = s'"
  shows "(\<forall>k j. bt_get (st_join_sessions s) k = Some j \<longrightarrow>
      (\<exists>j'. bt_get (st_join_sessions s') k = Some j' \<and> session_le j j' \<and>
         (\<not> is_pending (js_status j) \<longrightarrow> js_status j' = js_status j))) \<and>
    st_reverse_mesh_epoch s \<le> st_reverse_mesh_epoch s' \<and>
    (\<forall>t a a'. bt_get (st_reverse_mesh_assignments s) t = Some a \<longrightarrow>
       bt_get (st_reverse_mesh_assignments s') t = Some a' \<longrightarrow> ra_generation a \<le> ra_generation a') \<and>
    (\<forall>a b ex r s''. bt_get (st_reverse_mesh_assignments s) (ra_target_node_id b) = Some a \<longrightarrow>
       bt_get (st_reverse_mesh_assignments s') (ra_target_node_id b) = None \<longrightarrow>
       apply_command x (UpsertReverseMeshAssignment b ex) s' = (Inr r, s'') \<longrightarrow> ra_generation a < ra_generation b)"
proof (intro conjI allI impI)
  have le: "durable_le s s'" and ok: "state_ok x s'"
    using xp.run_le [OF assms(2,1)] xp.run_inv [OF assms(2,1)] by (simp_all add: assms(3))
  from assms(1) ok have "mesh_ok s" "mesh_ok s'" by (simp_all add: state_ok_def)
  note gen = this [unfolded mesh_ok_def, rule_format, THEN conjunct1]
  note sessions = le [unfolded durable_le_def, THEN conjunct1, rule_format]
  note counters = le [unfolded durable_le_def, THEN conjunct2, THEN conjunct2, rule_format]
  show "\<exists>j'. bt_get (st_join_sessions s') k = Some j' \<and> session_le j j' \<and> (\<not> is_pending (js_status j) \<longrightarrow> js_status j' = js_status j)"
    if "bt_get (st_join_sessions s) k = Some j" for k j
    using sessions [OF that] by (blast intro: session_le_final)
  show "st_reverse_mesh_epoch s \<le> st_reverse_mesh_epoch s'" using le by (simp add: durable_le_def)
  have floor: "ra_generation a \<le> bt_get_or 0 (st_reverse_mesh_generation_counters s') t"
    if "bt_get (st_reverse_mesh_assignments s) t = Some a" for t a
    using counters [of t] gen(1) [OF that] by (simp add: bt_get_or_def)
  show "ra_generation a \<le> ra_generation a'"
    if "bt_get (st_reverse_mesh_assignments s) t = Some a" "bt_get (st_reverse_mesh_assignments s') t = Some a'" for t a a'
    using floor [OF that(1)] gen(2) [OF that(2)] by (simp add: bt_get_or_def)
  show "ra_generation a < ra_generation b"
    if "bt_get (st_reverse_mesh_assignments s) (ra_target_node_id b) = Some a"
      "bt_get (st_reverse_mesh_assignments s') (ra_target_node_id b) = None"
      "apply_command x (UpsertReverseMeshAssignment b ex) s' = (Inr r, s'')" for a b ex r s''
  proof -
    from that(3) have up: "apply_upsert_reverse_mesh_assignment b ex s' = (Inr r, s'')" by simp
    from upsert_assignment_Inr(6) [OF up] that(2)
    have "bt_get_or 0 (st_reverse_mesh_generation_counters s') (ra_target_node_id b) \<noteq> ra_generation b" by auto
    with upsert_assignment_Inr(5) [OF up] floor [OF that(1)] show ?thesis by simp
  qed
qed

definition sample_session :: join_session where
  "sample_session = \<lparr>js_node_id = ''n1'', js_request_fingerprint = ''f'', js_signed_cert_pem = ''c'', js_token_expires_at = ''t'',
     js_activation_deadline = ''t'', js_required_log_index = 7, js_status = Consumed, js_terminal_at = Some ''t''\<rparr>"

definition sample_joined :: state where
  "sample_joined = snd (apply_command sample_ext (UpsertNode (sample_node ''n1'') (Some sample_session)) empty_state)"

lemma sample_joined_state:
  "sample_joined = sync_memberships (commit_session (Some sample_session)
     (empty_state\<lparr>st_nodes := bt_insert ''n1'' (sample_node ''n1'') bt_empty\<rparr>))"
  by (simp add: sample_joined_def apply_upsert_node_def sample_node_def sample_session_def validate_session_def empty_state_def
      validate_node_quota_reset_def validate_node_quota_config_def)

lemma sample_joined_ok:
  "state_ok sample_ext sample_joined" "admissible (apply_command sample_ext) well_formed sample_log sample_joined"
  "bt_get (st_join_sessions sample_joined) ''n1'' = Some sample_session"
proof -
  show "state_ok sample_ext sample_joined"
    unfolding sample_joined_def
    by (rule conjunct1 [OF apply_command_ok]) (simp_all add: well_formed_def empty_state_ok)
  show "admissible (apply_command sample_ext) well_formed sample_log sample_joined"
    by (simp add: sample_log_def well_formed_def sample_operation_def sample_joined_state empty_state_def)
  show "bt_get (st_join_sessions sample_joined) ''n1'' = Some sample_session"
    by (simp add: sample_joined_state commit_sessions) (simp add: sample_session_def)
qed

theorem durable_progress_witness:
  "\<exists>j. bt_get (st_join_sessions (run_log (apply_command sample_ext) sample_log sample_joined)) ''n1'' = Some j \<and>
     js_status j = Consumed"
  using durable_progress [OF sample_joined_ok(1,2) refl, THEN conjunct1, rule_format, OF sample_joined_ok(3)]
  by (auto simp: sample_session_def is_pending_def)

section \<open>Removing a node\<close>







text \<open>
  C6: an active membership operation never blocks the cluster for good: from every well formed state at most two
  transition commands, each accepted, complete it, and then no operation is active and the snapshot of a
  removal no longer restricts endpoint commands.
\<close>

theorem operation_can_complete:
  assumes "state_ok x s" "bt_get (st_membership_operations s) k = Some op" "is_active op"
    "x_rfc3339 x now \<noteq> None" "trim evidence \<noteq> []"
  shows "\<exists>ops. length ops \<le> 2 \<and> accepted (apply_command x) (map TransitionMembershipOperation ops) s = map TransitionMembershipOperation ops \<and>
    (let s' = run_log (apply_command x) (map TransitionMembershipOperation ops) s
     in map_option mo_phase (bt_get (st_membership_operations s') k) = Some Completed \<and>
        active_membership_operation s' = None \<and>
        (\<forall>cur nxt. ensure_endpoint_mutation_is_allowed s' cur nxt = Inr ()))"
proof -
  let ?a = "advanced now evidence op" and ?b = "advanced now evidence (advanced now evidence op)"
  let ?ins = "\<lambda>o' s. s\<lparr>st_membership_operations := bt_insert k o' (st_membership_operations s)\<rparr>"
  from assms(1) have ok: "operations_ok x s" and keys: "keyed mo_operation_id (st_membership_operations s)"
    by (simp_all add: state_ok_def keys_ok_def)
  from keyedD [OF keys assms(2)] have id: "mo_operation_id op = k" .
  have id': "mo_operation_id ?a = k" by (simp add: advanced_def id)
  have one: "k' = k" if "bt_get (st_membership_operations s) k' = Some o'" "is_active o'" for k' o'
    using ok that assms(2,3) unfolding operations_ok_def by blast
  have done_: "map_option mo_phase (bt_get (st_membership_operations s') k) = Some Completed \<and>
      active_membership_operation s' = None \<and> (\<forall>cur nxt. ensure_endpoint_mutation_is_allowed s' cur nxt = Inr ())"
    if "st_membership_operations s' = bt_insert k o' (st_membership_operations s)" "mo_phase o' = Completed" for s' o'
  proof -
    have "active_membership_operation s' = None"
      unfolding active_None using one that by (auto simp: is_active_def is_terminal_def split: if_splits)
    then show ?thesis using that by (simp add: ensure_endpoint_mutation_is_allowed_def)
  qed
  have first: "apply_command x (TransitionMembershipOperation ?a) s = (Inr (MembershipOperationResult ?a), ?ins ?a s)"
    using advance_command [of s op x now evidence] assms(2-5) id by simp
  show ?thesis
  proof (cases "mo_phase ?a = Completed")
    case True
    show ?thesis
      by (intro exI [of _ "[?a]"]) (simp add: first True Let_def done_ [OF _ True] del: apply_command.simps)
  next
    case False
    with completed_twice [OF assms(3), of now evidence] have act: "is_active ?a" and fin: "mo_phase ?b = Completed" by simp_all
    have second: "apply_command x (TransitionMembershipOperation ?b) (?ins ?a s) = (Inr (MembershipOperationResult ?b), ?ins ?b (?ins ?a s))"
      using advance_command [of "?ins ?a s" ?a x now evidence] act assms(4,5) id' by simp
    show ?thesis
      by (intro exI [of _ "[?a, ?b]"]) (simp add: first second Let_def bt.put_put_same fin done_ [OF _ fin] del: apply_command.simps)
  qed
qed

theorem operation_can_complete_witness:
  "\<exists>ops. length ops \<le> 2 \<and>
     active_membership_operation (run_log (apply_command sample_ext) (map TransitionMembershipOperation ops) sample_removal) = None"
proof -
  have "bt_get (st_membership_operations sample_removal) ''op1'' = Some sample_operation" by (simp add: sample_removal_def)
  moreover have "is_active sample_operation" by (simp add: sample_operation_def is_active_def is_terminal_def)
  moreover have "x_rfc3339 sample_ext ''now'' \<noteq> None" by (simp add: sample_ext_def)
  moreover have "trim ''done'' \<noteq> []" by code_simp
  ultimately show ?thesis
    using operation_can_complete [OF sample_removal_ok, of "''op1''" sample_operation sample_ext "''now''" "''done''"]
    unfolding Let_def by blast
qed

end
